(* ===== verification/Prelude.thy ===== *)
theory Prelude
  imports Main "HOL-Library.Word" "HOL-Library.AList"
begin

text \<open>
  Shared vocabulary of the development: the machine types of the Go sources, the sentinel
  errors of \<^verbatim>\<open>src/errs/errors.go\<close>, byte-stream readers with explicit errors, buffered
  writers, and the generic lemmas on them that every codec theory uses.
\<close>

unbundle bit_operations_syntax

section \<open>Types\<close>

text \<open>A Go \<open>string\<close> and a Go \<open>[]byte\<close> are both byte sequences; both are lists of bytes here.\<close>

type_synonym byte = "8 word"
type_synonym u16 = "16 word"
type_synonym u32 = "32 word"
type_synonym gostring = "byte list"

text \<open>A \<^verbatim>\<open>time.Duration\<close> is a number of nanoseconds, a \<^verbatim>\<open>time.Time\<close> the nanoseconds since an epoch.\<close>

abbreviation (input) "seconds n \<equiv> (n :: int) * 1000000000"

text \<open>
  The errors a codec call returns: the sentinels of \<^verbatim>\<open>errs\<close>, the two errors of
  \<^verbatim>\<open>io.ReadFull\<close>, and the unnamed \<^verbatim>\<open>fmt.Errorf\<close> values, one constructor per message.
\<close>

datatype perr =
    EOF
  | ErrUnexpectedEOF
  | ErrInvalidPacket
  | ErrPacketTooLarge
  | ErrUnsupportedVersion
  | ErrMalformedPacket
  | ErrProtocolError
  | ErrInvalidUTF8
  | ErrControlCharacter
  | ErrStringTooLong
  | ErrVarIntTooLong
  | ErrWillMessageTooLong
  | ErrPasswordTooLong

type_synonym 'a res = "perr + 'a"
type_synonym 'a rd = "byte list \<Rightarrow> 'a res \<times> byte list"

named_theorems rd_simps \<open>rewriting of reader combinators\<close>
named_theorems rd_wf \<open>a reader only ever drops a prefix of its input\<close>

section \<open>Results and writers\<close>

text \<open>Sequencing of a fallible call: the \<^verbatim>\<open>if err != nil { return err }\<close> idiom.\<close>

definition rbind :: "'a res \<Rightarrow> ('a \<Rightarrow> 'b res) \<Rightarrow> 'b res" where
  "rbind m f = (case m of Inl e \<Rightarrow> Inl e | Inr x \<Rightarrow> f x)"

lemma rbind_simps [simp]: "rbind (Inl e) f = Inl e" "rbind (Inr x) f = f x"
  by (simp_all add: rbind_def)

lemma rbind_eq_Inr: "rbind m f = Inr y \<longleftrightarrow> (\<exists>x. m = Inr x \<and> f x = Inr y)"
  by (cases m) auto

lemma rbind_eq_Inl: "rbind m f = Inl e \<longleftrightarrow> m = Inl e \<or> (\<exists>x. m = Inr x \<and> f x = Inl e)"
  by (cases m) auto

lemma rbind_cong [fundef_cong]:
  "m = m' \<Longrightarrow> (\<And>x. m' = Inr x \<Longrightarrow> f x = g x) \<Longrightarrow> rbind m f = rbind m' g"
  by (cases m') auto

text \<open>A run of writes to one buffer: it stops at the first error, else holds every chunk in order.\<close>

fun wseq :: "byte list res list \<Rightarrow> byte list res" where
  "wseq [] = Inr []"
| "wseq (w # ws) = rbind w (\<lambda>b. rbind (wseq ws) (\<lambda>bs. Inr (b @ bs)))"

lemma wseq_append: "wseq (xs @ ys) = rbind (wseq xs) (\<lambda>a. rbind (wseq ys) (\<lambda>b. Inr (a @ b)))"
proof (induction xs)
  case Nil
  then show ?case by (cases "wseq ys") auto
next
  case (Cons w ws)
  then show ?case by (cases w; cases "wseq ws"; cases "wseq ys") auto
qed

lemma wseq_map_Inr [simp]: "wseq (map (\<lambda>x. Inr (f x)) xs) = Inr (concat (map f xs))"
  by (induction xs) auto

section \<open>Readers\<close>

text \<open>
  A reader consumes a prefix of the stream and returns a value or an error together with what
  is left; the rest is kept on the error path too, since a failed decode leaves the connection
  where the last read stopped.
\<close>

definition rret :: "'a \<Rightarrow> 'a rd" where
  "rret x s = (Inr x, s)"

definition rfail :: "perr \<Rightarrow> 'a rd" where
  "rfail e s = (Inl e, s)"

definition rthen :: "'a rd \<Rightarrow> ('a \<Rightarrow> 'b rd) \<Rightarrow> 'b rd" where
  "rthen p f s = (case p s of (Inl e, s') \<Rightarrow> (Inl e, s') | (Inr x, s') \<Rightarrow> f x s')"

text \<open>A fallible check between two reads: it consumes nothing.\<close>

definition rlift :: "'a res \<Rightarrow> 'a rd" where
  "rlift m s = (m, s)"

text \<open>\<^verbatim>\<open>io.ReadFull\<close> into a buffer of \<open>n\<close> bytes; a zero-length read always succeeds.\<close>

definition readFull :: "nat \<Rightarrow> byte list rd" where
  "readFull n s =
     (if n \<le> length s then (Inr (take n s), drop n s)
      else if s = [] then (Inl EOF, [])
      else (Inl ErrUnexpectedEOF, []))"

text \<open>\<^verbatim>\<open>bytes.Reader.ReadByte\<close>.\<close>

definition ReadByte :: "byte rd" where
  "ReadByte s = (case s of [] \<Rightarrow> (Inl EOF, []) | b # s' \<Rightarrow> (Inr b, s'))"

lemma rret_apply [simp, rd_simps]: "rret x s = (Inr x, s)"
  by (simp add: rret_def)

lemma rfail_apply [simp, rd_simps]: "rfail e s = (Inl e, s)"
  by (simp add: rfail_def)

lemma rlift_apply [simp, rd_simps]: "rlift m s = (m, s)"
  by (simp add: rlift_def)

lemma rthen_Inl [simp, rd_simps]: "p s = (Inl e, s') \<Longrightarrow> rthen p f s = (Inl e, s')"
  by (simp add: rthen_def)

lemma rthen_Inr [simp, rd_simps]: "p s = (Inr x, s') \<Longrightarrow> rthen p f s = f x s'"
  by (simp add: rthen_def)

lemma rthen_eq_Inr:
  "rthen p f s = (Inr y, s') \<longleftrightarrow> (\<exists>x t. p s = (Inr x, t) \<and> f x t = (Inr y, s'))"
  by (auto simp: rthen_def split: prod.splits sum.splits)

lemma rthen_cong [fundef_cong]:
  "s = s' \<Longrightarrow> p s' = p' s' \<Longrightarrow> (\<And>x t. p' s' = (Inr x, t) \<Longrightarrow> f x t = g x t) \<Longrightarrow>
   rthen p f s = rthen p' g s'"
  by (auto simp: rthen_def split: prod.splits sum.splits)

lemma readFull_append [simp, rd_simps]: "n = length xs \<Longrightarrow> readFull n (xs @ s) = (Inr xs, s)"
  by (simp add: readFull_def)

lemma readFull_0 [simp, rd_simps]: "readFull 0 s = (Inr [], s)"
  by (simp add: readFull_def)

lemma ReadByte_Cons [simp, rd_simps]: "ReadByte (b # s) = (Inr b, s)"
  by (simp add: ReadByte_def)

lemma readFull_eq_Inr: "readFull n s = (Inr xs, s') \<longleftrightarrow> s = xs @ s' \<and> length xs = n"
  by (auto simp: readFull_def)

lemma ReadByte_eq_Inr: "ReadByte s = (Inr b, s') \<longleftrightarrow> s = b # s'"
  by (auto simp: ReadByte_def split: list.splits)

subsection \<open>How much a reader may consume\<close>

text \<open>
  \<open>reads_le n p\<close>: on every input the reader drops a prefix of at most \<open>n\<close> bytes, whether it
  succeeds or fails; \<open>reads_eq n p\<close>: a success drops exactly \<open>n\<close> bytes.
\<close>

definition reads_le :: "nat \<Rightarrow> 'a rd \<Rightarrow> bool" where
  "reads_le n p \<longleftrightarrow> (\<forall>s. \<exists>k \<le> n. snd (p s) = drop k s)"

definition reads_eq :: "nat \<Rightarrow> 'a rd \<Rightarrow> bool" where
  "reads_eq n p \<longleftrightarrow> (\<forall>s x t. p s = (Inr x, t) \<longrightarrow> n \<le> length s \<and> t = drop n s)"

text \<open>\<open>shrinks p\<close>: on every input, success or failure, what is left is a suffix of the input.\<close>

definition shrinks :: "'a rd \<Rightarrow> bool" where
  "shrinks p \<longleftrightarrow> (\<forall>s. \<exists>k. snd (p s) = drop k s)"

named_theorems rd_shrinks \<open>readers that only drop a prefix\<close>

lemma shrinksD: "shrinks p \<Longrightarrow> p s = (r, t) \<Longrightarrow> \<exists>k. t = drop k s"
  unfolding shrinks_def by (metis snd_conv)

lemma shrinks_length: "shrinks p \<Longrightarrow> p s = (r, t) \<Longrightarrow> length t \<le> length s"
  using shrinksD by fastforce

lemma shrinks_rret [rd_shrinks]: "shrinks (rret x)"
  by (auto simp: shrinks_def intro: exI [of _ 0])

lemma shrinks_rfail [rd_shrinks]: "shrinks (rfail e)"
  by (auto simp: shrinks_def intro: exI [of _ 0])

lemma shrinks_rlift [rd_shrinks]: "shrinks (rlift m)"
  by (auto simp: shrinks_def rlift_def intro: exI [of _ 0])

lemma shrinks_readFull [rd_shrinks]: "shrinks (readFull n)"
  unfolding shrinks_def
proof
  fix s show "\<exists>k. snd (readFull n s) = drop k s"
    by (rule exI [of _ "min n (length s)"]) (auto simp: readFull_def)
qed

lemma shrinks_ReadByte [rd_shrinks]: "shrinks ReadByte"
  unfolding shrinks_def
proof
  fix s show "\<exists>k. snd (ReadByte s) = drop k s"
    by (rule exI [of _ 1]) (auto simp: ReadByte_def split: list.splits)
qed

lemma shrinks_rthen [rd_shrinks]:
  assumes "shrinks p" "\<And>x. shrinks (f x)"
  shows "shrinks (rthen p f)"
  unfolding shrinks_def
proof
  fix s
  obtain r t where ps: "p s = (r, t)" by force
  with assms(1) obtain k where k: "t = drop k s" using shrinksD by blast
  show "\<exists>k. snd (rthen p f s) = drop k s"
  proof (cases r)
    case (Inr x)
    obtain r' t' where "f x t = (r', t')" by force
    with assms(2) obtain j where "t' = drop j t" using shrinksD by blast
    with \<open>f x t = (r', t')\<close> Inr ps k show ?thesis by (auto simp: rthen_def intro: exI [of _ "j + k"])
  qed (use ps k in \<open>auto simp: rthen_def\<close>)
qed

lemma shrinks_if [rd_shrinks]: "shrinks p \<Longrightarrow> shrinks q \<Longrightarrow> shrinks (if b then p else q)"
  by simp

lemma reads_leI: "(\<And>s. \<exists>k \<le> n. snd (p s) = drop k s) \<Longrightarrow> reads_le n p"
  by (simp add: reads_le_def)

lemma reads_leD: "reads_le n p \<Longrightarrow> \<exists>k \<le> n. snd (p s) = drop k s"
  by (simp add: reads_le_def)

lemma reads_eqD: "reads_eq n p \<Longrightarrow> p s = (Inr x, t) \<Longrightarrow> n \<le> length s \<and> t = drop n s"
  by (simp add: reads_eq_def)

lemma reads_le_mono: "reads_le m p \<Longrightarrow> m \<le> n \<Longrightarrow> reads_le n p"
  unfolding reads_le_def by (meson le_trans)

lemma reads_le_rret [rd_wf]: "reads_le n (rret x)"
  by (auto simp: reads_le_def intro: exI [of _ 0])

lemma reads_le_rfail [rd_wf]: "reads_le n (rfail e)"
  by (auto simp: reads_le_def intro: exI [of _ 0])

lemma reads_le_rlift [rd_wf]: "reads_le n (rlift m)"
  by (auto simp: reads_le_def intro: exI [of _ 0])

lemma reads_eq_rlift [rd_wf]: "reads_eq 0 (rlift m)"
  by (simp add: reads_eq_def)

lemma reads_le_readFull [rd_wf]: "reads_le n (readFull n)"
proof (rule reads_leI)
  fix s show "\<exists>k \<le> n. snd (readFull n s) = drop k s"
    by (rule exI [of _ "min n (length s)"]) (auto simp: readFull_def)
qed

lemma reads_eq_rret [rd_wf]: "reads_eq 0 (rret x)"
  by (simp add: reads_eq_def)

lemma reads_eq_rfail [rd_wf]: "reads_eq n (rfail e)"
  by (simp add: reads_eq_def)

lemma reads_eq_readFull [rd_wf]: "reads_eq n (readFull n)"
  by (auto simp: reads_eq_def readFull_def split: if_splits)

text \<open>
  Sequencing: after a first reader that takes exactly \<open>m\<close> bytes on success, the second may
  take what is left of the bound.
\<close>

lemma reads_le_rthen:
  assumes p: "reads_le m p" and e: "\<And>s x t. p s = (Inr x, t) \<Longrightarrow> \<exists>k \<le> g x. t = drop k s"
    and f: "\<And>x. reads_le (h x) (f x)" and n: "m \<le> n" "\<And>s x t. p s = (Inr x, t) \<Longrightarrow> g x + h x \<le> n"
  shows "reads_le n (rthen p f)"
proof (rule reads_leI)
  fix s
  obtain r t where ps: "p s = (r, t)" by force
  show "\<exists>k \<le> n. snd (rthen p f s) = drop k s"
  proof (cases r)
    case (Inl e')
    with ps reads_leD [OF p, of s] n(1) show ?thesis by (auto simp: rthen_def intro: le_trans)
  next
    case (Inr x)
    with e [of s x t] ps obtain k where k: "k \<le> g x" "t = drop k s" by auto
    from reads_leD [OF f, of x t] obtain j where j: "j \<le> h x" "snd (f x t) = drop j t" by auto
    have "k + j \<le> n" using k(1) j(1) n(2) [of s x t] ps Inr by simp
    then show ?thesis using ps Inr k j
      by (intro exI [of _ "k + j"]) (simp add: rthen_def add.commute)
  qed
qed

lemma reads_le_rthen_fixed [rd_wf]:
  assumes "reads_le m p" "reads_eq m p" "\<And>x. reads_le h (f x)" "m + h \<le> n"
  shows "reads_le n (rthen p f)"
  by (rule reads_le_rthen [where m = m and g = "\<lambda>_. m" and h = "\<lambda>_. h"])
    (use assms in \<open>auto dest: reads_eqD\<close>)

lemma reads_eq_rthen:
  assumes "reads_eq m p" "\<And>x. reads_eq k (f x)" "n = m + k"
  shows "reads_eq n (rthen p f)"
  unfolding reads_eq_def
proof (intro allI impI)
  fix s y t assume "rthen p f s = (Inr y, t)"
  then obtain x u where px: "p s = (Inr x, u)" and fx: "f x u = (Inr y, t)"
    by (auto simp: rthen_eq_Inr)
  from reads_eqD [OF assms(1) px] reads_eqD [OF assms(2) fx] assms(3)
  show "n \<le> length s \<and> t = drop n s" by (auto simp: add.commute)
qed

lemma reads_eq_rthen_ret: "reads_eq m p \<Longrightarrow> (\<And>x. reads_eq 0 (f x)) \<Longrightarrow> reads_eq m (rthen p f)"
  by (rule reads_eq_rthen) auto

lemma reads_le_if [rd_wf]: "reads_le n p \<Longrightarrow> reads_le n q \<Longrightarrow> reads_le n (if b then p else q)"
  by simp

lemma reads_eq_if [rd_wf]: "reads_eq n p \<Longrightarrow> reads_eq n q \<Longrightarrow> reads_eq n (if b then p else q)"
  by simp

section \<open>Bytes and big-endian integers\<close>

text \<open>\<^verbatim>\<open>binary.BigEndian\<close> on two and four bytes.\<close>

definition PutUint16 :: "u16 \<Rightarrow> byte list" where
  "PutUint16 v = [ucast (drop_bit 8 v), ucast v]"

definition Uint16 :: "byte list \<Rightarrow> u16" where
  "Uint16 bs = (push_bit 8 (ucast (bs ! 0))) OR ucast (bs ! 1)"

definition PutUint32 :: "u32 \<Rightarrow> byte list" where
  "PutUint32 v = [ucast (drop_bit 24 v), ucast (drop_bit 16 v), ucast (drop_bit 8 v), ucast v]"

definition Uint32 :: "byte list \<Rightarrow> u32" where
  "Uint32 bs = push_bit 24 (ucast (bs ! 0)) OR push_bit 16 (ucast (bs ! 1)) OR
               push_bit 8 (ucast (bs ! 2)) OR ucast (bs ! 3)"

lemma length_PutUint16 [simp]: "length (PutUint16 v) = 2"
  by (simp add: PutUint16_def)

lemma length_PutUint32 [simp]: "length (PutUint32 v) = 4"
  by (simp add: PutUint32_def)

lemma Uint16_PutUint16 [simp]: "Uint16 (PutUint16 v) = v"
  unfolding Uint16_def PutUint16_def
  by (rule bit_word_eqI) (auto simp: bit_simps not_less)

lemma Uint32_PutUint32 [simp]: "Uint32 (PutUint32 v) = v"
proof (rule bit_word_eqI)
  fix n assume "n < LENGTH(32)"
  then consider "n < 8" | "8 \<le> n" "n < 16" | "16 \<le> n" "n < 24" | "24 \<le> n" "n < 32"
    by fastforce
  then show "bit (Uint32 (PutUint32 v)) n = bit v n"
    by cases (auto simp: Uint32_def PutUint32_def bit_simps)
qed

lemma of_nat_u32_not_less: "k < 2 ^ 32 \<Longrightarrow> j \<le> k \<Longrightarrow> \<not> (of_nat k :: u32) < of_nat j"
  by (simp add: word_less_nat_alt unat_of_nat)

lemma unat_and_7F: "unat (b AND 0x7F :: byte) < 128"
proof -
  have "unat (b AND 0x7F) \<le> unat (0x7F :: byte)"
    by (rule word_and_le1 [THEN word_le_nat_alt [THEN iffD1]])
  then show ?thesis by simp
qed

lemma be_bound: "unat (b0 :: byte) * 256 + unat (b1 :: byte) \<le> 65535"
proof -
  have "unat b0 < 2 ^ LENGTH(8)" "unat b1 < 2 ^ LENGTH(8)" by (rule unsigned_less)+
  then show ?thesis by simp
qed

text \<open>Single bits and masks of a byte, the form in which the flag bytes are decomposed.\<close>

lemma byte_bits:
  fixes b :: byte
  shows "b AND 0x01 = 0 \<longleftrightarrow> \<not> bit b 0" "b AND 0x02 = 0 \<longleftrightarrow> \<not> bit b 1" "b AND 0x04 = 0 \<longleftrightarrow> \<not> bit b 2"
    "b AND 0x08 = 0 \<longleftrightarrow> \<not> bit b 3" "b AND 0x20 = 0 \<longleftrightarrow> \<not> bit b 5" "b AND 0x40 = 0 \<longleftrightarrow> \<not> bit b 6"
    "b AND 0x80 = 0 \<longleftrightarrow> \<not> bit b 7"
  using bit_iff_and_push_bit_not_eq_0 [of b 0] bit_iff_and_push_bit_not_eq_0 [of b 1]
    bit_iff_and_push_bit_not_eq_0 [of b 2] bit_iff_and_push_bit_not_eq_0 [of b 3]
    bit_iff_and_push_bit_not_eq_0 [of b 5] bit_iff_and_push_bit_not_eq_0 [of b 6]
    bit_iff_and_push_bit_not_eq_0 [of b 7]
  by (simp_all add: push_bit_eq_mult)

lemma masks: "b AND (0x0F::byte) = take_bit 4 b" "b AND (0x03::byte) = take_bit 2 b" "b AND (0x7F::byte) = take_bit 7 b"
  by (simp_all add: take_bit_eq_mask mask_eq_exp_minus_1)

lemma byte_eqI: "(\<And>n. n < 8 \<Longrightarrow> bit (a::byte) n = bit b n) \<Longrightarrow> a = b"
  by (rule bit_word_eqI) simp

lemma bit_single: "bit (push_bit k 1 :: byte) n \<longleftrightarrow> n = k \<and> k < 8"
  unfolding bit_push_bit_iff bit_1_iff by auto

lemma byte_const_bits:
  "bit (0x01 :: byte) n \<longleftrightarrow> n = 0" "bit (0x02 :: byte) n \<longleftrightarrow> n = 1" "bit (0x04 :: byte) n \<longleftrightarrow> n = 2"
  "bit (0x08 :: byte) n \<longleftrightarrow> n = 3" "bit (0x20 :: byte) n \<longleftrightarrow> n = 5" "bit (0x40 :: byte) n \<longleftrightarrow> n = 6"
  "bit (0x80 :: byte) n \<longleftrightarrow> n = 7"
  using bit_single [of 0 n] bit_single [of 1 n] bit_single [of 2 n] bit_single [of 3 n]
    bit_single [of 5 n] bit_single [of 6 n] bit_single [of 7 n]
  by (simp_all add: push_bit_eq_mult)

lemma if_bit: "bit (if P then a else 0) n = (P \<and> bit (a::byte) n)" by simp

lemma take_bit_small: "unat a < 2 ^ n \<Longrightarrow> take_bit n a = (a :: byte)"
  by (rule word_unat_eq_iff [THEN iffD2]) (simp add: unsigned_take_bit_eq take_bit_nat_eq_self)

lemma take_bit_less: "unat (take_bit n a :: byte) < 2 ^ n"
  by (simp add: unsigned_take_bit_eq)

lemma bit_small: "unat (a :: byte) < 2 ^ n \<Longrightarrow> bit a m \<Longrightarrow> m < n"
  by (metis bit_take_bit_iff take_bit_small)

lemma byte_split:
  fixes b :: byte
  shows "b AND 0x80 = 0 \<Longrightarrow> b AND 0x7F = b" "b AND 0x80 \<noteq> 0 \<Longrightarrow> (b AND 0x7F) OR 0x80 = b"
proof -
  have *: "n < 8 \<Longrightarrow> n \<noteq> 7 \<Longrightarrow> n < 7" for n :: nat by simp
  show "b AND 0x7F = b" if "b AND 0x80 = 0"
    using that unfolding byte_bits masks by (intro byte_eqI) (auto simp: bit_take_bit_iff intro: * )
  show "(b AND 0x7F) OR 0x80 = b" if "b AND 0x80 \<noteq> 0"
    using that unfolding byte_bits masks
    by (intro byte_eqI) (unfold bit_or_iff bit_take_bit_iff byte_const_bits, auto intro: * )
qed

lemma unat_and_7F_0: "unat (b AND 0x7F :: byte) = 0 \<longleftrightarrow> b AND 0x7F = 0"
  by (simp add: unat_eq_0)

end
