(* ===== verification/Wire.thy ===== *)
theory Wire
  imports Prelude
begin

text \<open>
  The primitives of \<^verbatim>\<open>src/protocol/codec.go\<close> and the reader helpers of
  \<^verbatim>\<open>src/protocol/properties.go\<close>: variable byte integers, two- and four-byte integers,
  length-prefixed strings and binary data, and the UTF-8 rule MQTT strings must satisfy.
  Lemmas: every writer is inverted by its reader, a string that is accepted holds no control
  byte, and every reader consumes only a prefix of its input.
\<close>

section \<open>UTF-8\<close>

text \<open>
  \<^verbatim>\<open>utf8.DecodeRuneInString\<close>: the code point and its width; an ill-formed sequence is
  \<^verbatim>\<open>RuneError\<close> (U+FFFD) of width 1, an empty string \<^verbatim>\<open>RuneError\<close> of width 0.
\<close>

definition RuneError :: nat where
  "RuneError = 0xFFFD"

definition cont :: "byte \<Rightarrow> byte \<Rightarrow> byte \<Rightarrow> bool" where
  "cont lo hi b \<longleftrightarrow> lo \<le> b \<and> b \<le> hi"

definition acceptRange :: "byte \<Rightarrow> byte \<times> byte" where
  "acceptRange b = (if b = 0xE0 then (0xA0, 0xBF) else if b = 0xED then (0x80, 0x9F)
                    else if b = 0xF0 then (0x90, 0xBF) else if b = 0xF4 then (0x80, 0x8F)
                    else (0x80, 0xBF))"

fun DecodeRune :: "gostring \<Rightarrow> nat \<times> nat" where
  "DecodeRune [] = (RuneError, 0)"
| "DecodeRune (b0 # s) =
     (if b0 < 0x80 then (unat b0, 1)
      else if b0 < 0xC2 \<or> 0xF4 < b0 then (RuneError, 1)
      else case s of
        [] \<Rightarrow> (RuneError, 1)
      | b1 # s1 \<Rightarrow>
          if \<not> cont (fst (acceptRange b0)) (snd (acceptRange b0)) b1 then (RuneError, 1)
          else if b0 < 0xE0 then (unat (b0 AND 0x1F) * 64 + unat (b1 AND 0x3F), 2)
          else case s1 of
            [] \<Rightarrow> (RuneError, 1)
          | b2 # s2 \<Rightarrow>
              if \<not> cont 0x80 0xBF b2 then (RuneError, 1)
              else if b0 < 0xF0 then
                (unat (b0 AND 0x0F) * 4096 + unat (b1 AND 0x3F) * 64 + unat (b2 AND 0x3F), 3)
              else case s2 of
                [] \<Rightarrow> (RuneError, 1)
              | b3 # s3 \<Rightarrow>
                  if \<not> cont 0x80 0xBF b3 then (RuneError, 1)
                  else (unat (b0 AND 0x07) * 262144 + unat (b1 AND 0x3F) * 4096 +
                        unat (b2 AND 0x3F) * 64 + unat (b3 AND 0x3F), 4))"

lemma DecodeRune_width: "s \<noteq> [] \<Longrightarrow> 0 < snd (DecodeRune s) \<and> snd (DecodeRune s) \<le> length s"
  by (cases s) (auto split: list.splits)

text \<open>\<^verbatim>\<open>utf8.ValidString\<close>: no position decodes to an error of width 1.\<close>

function ValidString :: "gostring \<Rightarrow> bool" where
  "ValidString s =
     (if s = [] then True
      else if DecodeRune s = (RuneError, 1) then False
      else ValidString (drop (snd (DecodeRune s)) s))"
  by pat_completeness auto
termination
  by (relation "measure length") (use DecodeRune_width in \<open>auto simp: diff_less\<close>)

declare ValidString.simps [simp del]

text \<open>The scan for control characters, U+0000 to U+001F and U+007F to U+009F.\<close>

definition isControlRune :: "nat \<Rightarrow> bool" where
  "isControlRune r \<longleftrightarrow> r \<le> 0x1F \<or> (0x7F \<le> r \<and> r \<le> 0x9F)"

function hasControlRune :: "gostring \<Rightarrow> bool" where
  "hasControlRune s =
     (if s = [] then False
      else if isControlRune (fst (DecodeRune s)) then True
      else hasControlRune (drop (snd (DecodeRune s)) s))"
  by pat_completeness auto
termination
  by (relation "measure length") (use DecodeRune_width in \<open>auto simp: diff_less\<close>)

declare hasControlRune.simps [simp del]

definition validateUTF8 :: "gostring \<Rightarrow> unit res" where
  "validateUTF8 s =
     (if \<not> ValidString s then Inl ErrInvalidUTF8
      else if hasControlRune s then Inl ErrControlCharacter
      else Inr ())"

lemma validateUTF8_ok: "validateUTF8 s = Inr () \<longleftrightarrow> ValidString s \<and> \<not> hasControlRune s"
  by (simp add: validateUTF8_def)

lemma validateUTF8_Nil [simp]: "validateUTF8 [] = Inr ()"
  by (simp add: validateUTF8_ok ValidString.simps hasControlRune.simps)

section \<open>Fixed-width integers\<close>

definition readUint16 :: "u16 rd" where
  "readUint16 = rthen (readFull 2) (\<lambda>bs. rret (Uint16 bs))"

definition writeUint16 :: "u16 \<Rightarrow> byte list" where
  "writeUint16 v = PutUint16 v"

definition readUint16FromReader :: "u16 rd" where
  "readUint16FromReader = rthen (readFull 2) (\<lambda>bs. rret (Uint16 bs))"

definition readUint32FromReader :: "u32 rd" where
  "readUint32FromReader = rthen (readFull 4) (\<lambda>bs. rret (Uint32 bs))"

definition writeUint32ToWriter :: "u32 \<Rightarrow> byte list" where
  "writeUint32ToWriter v = PutUint32 v"

text \<open>\<^verbatim>\<open>readByte\<close> reads through \<^verbatim>\<open>io.ReadFull\<close>.\<close>

definition readByte :: "byte rd" where
  "readByte = rthen (readFull 1) (\<lambda>bs. rret (bs ! 0))"

lemma readUint16_write [simp, rd_simps]: "readUint16 (writeUint16 v @ s) = (Inr v, s)"
  by (simp add: readUint16_def writeUint16_def)

lemma readUint16FromReader_write [simp, rd_simps]:
  "readUint16FromReader (writeUint16 v @ s) = (Inr v, s)"
  by (simp add: readUint16FromReader_def writeUint16_def)

lemma readUint32FromReader_write [simp, rd_simps]:
  "readUint32FromReader (writeUint32ToWriter v @ s) = (Inr v, s)"
  by (simp add: readUint32FromReader_def writeUint32ToWriter_def)

lemma readByte_Cons [simp, rd_simps]: "readByte (b # s) = (Inr b, s)"
  using readFull_append [of 1 "[b]" s] by (simp add: readByte_def)

lemma length_writeUint16 [simp]: "length (writeUint16 v) = 2"
  by (simp add: writeUint16_def)

lemma length_writeUint32 [simp]: "length (writeUint32ToWriter v) = 4"
  by (simp add: writeUint32ToWriter_def)

lemma reads_readUint16 [rd_wf]: "reads_le 2 readUint16" "reads_eq 2 readUint16"
  unfolding readUint16_def
  by (auto intro!: reads_le_rthen_fixed [where m = 2 and h = 0] reads_eq_rthen_ret rd_wf)

section \<open>Variable byte integers\<close>

text \<open>
  The reference encoding on natural numbers: little-endian base 128, every byte but the last
  with its top bit set. \<open>writeVarInt\<close> and the Remaining Length loop of
  \<open>encodeFixedHeader\<close> both compute it.
\<close>

fun vbi :: "nat \<Rightarrow> byte list" where
  "vbi n = (if n < 128 then [of_nat n] else (of_nat (n mod 128) OR 0x80) # vbi (n div 128))"

declare vbi.simps [simp del]

function writeVarInt :: "u32 \<Rightarrow> byte list" where
  "writeVarInt val =
     (let encoded = (ucast (val mod 128) :: byte); val' = val div 128
      in if 0 < val' then (encoded OR 0x80) # writeVarInt val' else [encoded])"
  by pat_completeness auto
termination
proof (relation "measure unat")
  fix val encoded val' assume v: "val' = val div 128" and pos: "0 < (val' :: u32)"
  from v have "unat val' = unat val div 128" by (simp add: unat_div)
  moreover from pos have "0 < unat val'" by (simp only: unat_gt_0 word_gt_0)
  ultimately show "(val', val) \<in> measure unat" by simp
qed simp

declare writeVarInt.simps [simp del]

text \<open>The loop of \<open>readVarInt\<close>, with the number of bytes it may still read.\<close>

fun readVarIntLoop :: "nat \<Rightarrow> u32 \<Rightarrow> u32 \<Rightarrow> u32 rd" where
  "readVarIntLoop 0 val multiplier s = (Inl ErrVarIntTooLong, s)"
| "readVarIntLoop (Suc i) val multiplier [] = (Inl EOF, [])"
| "readVarIntLoop (Suc i) val multiplier (b # s) =
     (let val' = val + ucast (b AND 0x7F) * multiplier
      in if b AND 0x80 = 0 then (Inr val', s) else readVarIntLoop i val' (multiplier * 128) s)"

lemma readVarIntLoop_code [code]:
  "readVarIntLoop i val multiplier s =
     (if i = 0 then (Inl ErrVarIntTooLong, s)
      else case s of
          [] \<Rightarrow> (Inl EOF, [])
        | b # s' \<Rightarrow> (let val' = val + ucast (b AND 0x7F) * multiplier
                    in if b AND 0x80 = 0 then (Inr val', s')
                       else readVarIntLoop (i - 1) val' (multiplier * 128) s'))"
  by (cases i; cases s) (simp_all add: Let_def)

definition readVarInt :: "u32 rd" where
  "readVarInt = readVarIntLoop 4 0 1"

text \<open>\<open>readVarIntFromReader\<close> is the same loop over \<^verbatim>\<open>bytes.Reader.ReadByte\<close>.\<close>

definition readVarIntFromReader :: "u32 rd" where
  "readVarIntFromReader = readVarIntLoop 4 0 1"

text \<open>The byte-level facts of one base-128 digit.\<close>

lemma vbi_digit:
  assumes "k < 128"
  shows "(of_nat k :: byte) AND 0x80 = 0" "(of_nat k :: byte) AND 0x7F = of_nat k"
    "(of_nat k OR 0x80 :: byte) AND 0x80 \<noteq> 0" "(of_nat k OR 0x80 :: byte) AND 0x7F = of_nat k"
    "unat (of_nat k :: byte) = k" "ucast (of_nat k :: byte) = (of_nat k :: u32)"
proof -
  have *: "\<forall>k \<in> set [0..<128]. (of_nat k :: byte) AND 0x80 = 0 \<and> (of_nat k :: byte) AND 0x7F = of_nat k \<and>
     (of_nat k OR 0x80 :: byte) AND 0x80 \<noteq> 0 \<and> (of_nat k OR 0x80 :: byte) AND 0x7F = of_nat k"
    by code_simp
  from assms have "k \<in> set [0..<128]" by simp
  with * show "(of_nat k :: byte) AND 0x80 = 0" "(of_nat k :: byte) AND 0x7F = of_nat k"
    "(of_nat k OR 0x80 :: byte) AND 0x80 \<noteq> 0" "(of_nat k OR 0x80 :: byte) AND 0x7F = of_nat k"
    by blast+
  show u: "unat (of_nat k :: byte) = k" using assms by (simp add: unat_of_nat)
  then show "ucast (of_nat k :: byte) = (of_nat k :: u32)" by (metis of_nat_unat)
qed

lemma vbi_digit_zero: "k < 128 \<Longrightarrow> (of_nat k :: byte) = 0 \<longleftrightarrow> k = 0"
  by (auto dest: arg_cong [of _ _ unat] simp: vbi_digit(5))

lemma writeVarInt_eq_vbi: "writeVarInt v = vbi (unat v)"
proof (induction v rule: writeVarInt.induct)
  case (1 v)
  have u: "unat (v div 128) = unat v div 128" "unat (v mod 128) = unat v mod 128"
    by (simp_all add: unat_div unat_mod)
  have e: "(ucast (v mod 128) :: byte) = of_nat (unat v mod 128)"
    by (metis of_nat_unat u(2))
  have g: "0 < v div 128 \<longleftrightarrow> \<not> unat v < 128"
    by (simp add: word_gt_0 flip: unat_gt_0) (auto simp: u(1) div_greater_zero_iff)
  show ?case
  proof (cases "unat v < 128")
    case True
    with g e show ?thesis by (simp add: writeVarInt.simps [of v] vbi.simps [of "unat v"])
  next
    case False
    with "1.IH" g u(1) have "writeVarInt (v div 128) = vbi (unat v div 128)" by simp
    with False g e show ?thesis by (simp add: writeVarInt.simps [of v] vbi.simps [of "unat v"])
  qed
qed

lemma readVarIntLoop_vbi:
  "n < 128 ^ i \<Longrightarrow> 0 < i \<Longrightarrow>
   readVarIntLoop i val m (vbi n @ s) = (Inr (val + of_nat n * m), s)"
proof (induction i arbitrary: n val m)
  case 0
  then show ?case by simp
next
  case (Suc i)
  show ?case
  proof (cases "n < 128")
    case True
    then show ?thesis by (simp add: vbi.simps [of n] vbi_digit)
  next
    case False
    with Suc.prems have i: "n div 128 < 128 ^ i" "0 < i"
      by (auto simp: less_mult_imp_div_less mult.commute intro: ccontr)
    have n: "(of_nat n :: u32) = of_nat (n mod 128) + 128 * of_nat (n div 128)"
      by (metis mod_mult_div_eq of_nat_add of_nat_mult of_nat_numeral)
    have "readVarIntLoop (Suc i) val m (vbi n @ s) =
        readVarIntLoop i (val + of_nat (n mod 128) * m) (m * 128) (vbi (n div 128) @ s)"
      using False by (simp add: vbi.simps [of n] vbi_digit)
    then show ?thesis unfolding Suc.IH [OF i] n by (simp add: algebra_simps)
  qed
qed

lemma readVarInt_write [simp, rd_simps]:
  "unat v < 2 ^ 28 \<Longrightarrow> readVarInt (writeVarInt v @ s) = (Inr v, s)"
  unfolding readVarInt_def writeVarInt_eq_vbi
  using readVarIntLoop_vbi [of "unat v" 4 0 1 s] by simp

lemma readVarIntFromReader_write [simp, rd_simps]:
  "unat v < 2 ^ 28 \<Longrightarrow> readVarIntFromReader (writeVarInt v @ s) = (Inr v, s)"
  using readVarInt_write [of v s] by (simp add: readVarInt_def readVarIntFromReader_def)

text \<open>Whatever the reader accepts fits in 28 bits.\<close>

lemma readVarIntLoop_bound:
  "readVarIntLoop i v (of_nat (128 ^ k)) s = (Inr n, t) \<Longrightarrow> unat v < 128 ^ k \<Longrightarrow> i + k = 4 \<Longrightarrow>
   unat n < 2 ^ 28"
proof (induction i arbitrary: k v s)
  case 0
  then show ?case by simp
next
  case (Suc i)
  from Suc.prems obtain b s' where s: "s = b # s'" by (cases s) auto
  define x where "x = unat (b AND 0x7F)"
  have x: "x < 128" unfolding x_def by (rule unat_and_7F)
  have k: "k \<le> 3" using Suc.prems(3) by simp
  have "x * 128 ^ k \<le> 127 * 128 ^ k" using x by (intro mult_le_mono1) simp
  with Suc.prems(2) have "unat v + x * 128 ^ k < 128 ^ Suc k"
    unfolding power_Suc by linarith
  moreover have "(128::nat) ^ Suc k \<le> 128 ^ 4" using k by (intro power_increasing) auto
  ultimately have bd: "unat v + x * 128 ^ k < 128 ^ Suc k" "unat v + x * 128 ^ k < 2 ^ 28" by simp_all
  have "v + ucast (b AND 0x7F) * of_nat (128 ^ k) = of_nat (unat v + x * 128 ^ k)"
    by (simp add: x_def)
  moreover have "unat (of_nat (unat v + x * 128 ^ k) :: u32) = unat v + x * 128 ^ k"
    using bd(2) by (subst unat_of_nat) simp
  ultimately have v': "unat (v + ucast (b AND 0x7F) * of_nat (128 ^ k)) = unat v + x * 128 ^ k"
    by simp
  show ?case
  proof (cases "b AND 0x80 = 0")
    case True
    with Suc.prems(1) v' bd(2) show ?thesis by (auto simp: s)
  next
    case False
    with Suc.prems(1) have "readVarIntLoop i (v + ucast (b AND 0x7F) * of_nat (128 ^ k))
        (of_nat (128 ^ Suc k)) s' = (Inr n, t)"
      by (simp add: s mult.commute)
    then show ?thesis by (rule Suc.IH) (use v' bd Suc.prems(3) in simp_all)
  qed
qed

lemma readVarInt_bound: "readVarInt s = (Inr n, t) \<Longrightarrow> unat n < 2 ^ 28"
  using readVarIntLoop_bound [of 4 0 0 s n t] by (simp add: readVarInt_def)

lemma readVarIntFromReader_bound: "readVarIntFromReader s = (Inr n, t) \<Longrightarrow> unat n < 2 ^ 28"
  using readVarIntLoop_bound [of 4 0 0 s n t] by (simp add: readVarIntFromReader_def)

text \<open>A five-byte encoding is refused by the reader.\<close>

lemma readVarIntLoop_vbi_long:
  "128 ^ i \<le> n \<Longrightarrow> fst (readVarIntLoop i val m (vbi n @ s)) = Inl ErrVarIntTooLong"
proof (induction i arbitrary: n val m)
  case 0
  then show ?case by simp
next
  case (Suc i)
  then have "128 * 128 ^ i \<le> n" by simp
  moreover have "(1::nat) \<le> 128 ^ i" by simp
  ultimately have big: "\<not> n < 128" by linarith
  from \<open>128 * 128 ^ i \<le> n\<close> have "128 ^ i \<le> n div 128" by (simp add: less_eq_div_iff_mult_less_eq mult.commute)
  with big Suc.IH show ?case by (simp add: vbi.simps [of n] vbi_digit)
qed

lemma vbi_not_Nil [simp]: "vbi n \<noteq> []"
  by (simp add: vbi.simps)

lemma length_vbi: "n < 128 ^ k \<Longrightarrow> 0 < k \<Longrightarrow> length (vbi n) \<le> k"
proof (induction k arbitrary: n)
  case (Suc k)
  show ?case
  proof (cases "n < 128")
    case False
    with Suc.prems have "n div 128 < 128 ^ k" "0 < k"
      by (auto simp: less_mult_imp_div_less mult.commute intro: ccontr)
    with Suc.IH [of "n div 128"] False show ?thesis by (simp add: vbi.simps [of n])
  qed (simp add: vbi.simps)
qed simp

lemma length_vbi_lower: "128 ^ k \<le> n \<Longrightarrow> k < length (vbi n)"
proof (induction k arbitrary: n)
  case (Suc k)
  then have "128 * 128 ^ k \<le> n" by simp
  moreover have "(1::nat) \<le> 128 ^ k" by simp
  ultimately have "\<not> n < 128" "128 ^ k \<le> n div 128"
    by (linarith, simp add: less_eq_div_iff_mult_less_eq mult.commute)
  with Suc.IH [of "n div 128"] show ?case by (simp add: vbi.simps [of n])
qed (simp add: vbi.simps)

lemma readVarInt_writeVarInt:
  "fst (readVarInt (writeVarInt v @ s)) = (if unat v < 2 ^ 28 then Inr v else Inl ErrVarIntTooLong)"
  using readVarIntLoop_vbi_long [of 4 "unat v" 0 1 s] readVarInt_write [of v s]
  by (cases "unat v < 2 ^ 28") (simp_all add: readVarInt_def writeVarInt_eq_vbi)

lemma length_writeVarInt_le_4: "length (writeVarInt v) \<le> 4 \<longleftrightarrow> unat v < 2 ^ 28"
  using length_vbi [of "unat v" 4] length_vbi_lower [of 4 "unat v"]
  by (cases "unat v < 2 ^ 28") (simp_all add: writeVarInt_eq_vbi)

section \<open>Strings and binary data\<close>

text \<open>\<^verbatim>\<open>int(lenBuf[0])<<8 | int(lenBuf[1])\<close>.\<close>

definition be16 :: "byte \<Rightarrow> byte \<Rightarrow> nat" where
  "be16 b0 b1 = unat b0 * 256 + unat b1"

definition readStringBounded :: "nat \<Rightarrow> gostring rd" where
  "readStringBounded maxLen =
     rthen (readFull 2) (\<lambda>lenBuf.
       let len = unat (Uint16 lenBuf)
       in if len = 0 then rret []
          else if maxLen < len then rfail ErrMalformedPacket
          else rthen (readFull len) (\<lambda>s.
            rthen (rlift (validateUTF8 s)) (\<lambda>_. rret s)))"

definition readString :: "gostring rd" where
  "readString = readStringBounded 65535"

definition readStringFromReader :: "gostring rd" where
  "readStringFromReader =
     rthen ReadByte (\<lambda>b0. rthen ReadByte (\<lambda>b1.
       let len = be16 b0 b1
       in if len = 0 then rret []
          else rthen (readFull len) (\<lambda>s.
            rthen (rlift (validateUTF8 s)) (\<lambda>_. rret s))))"

text \<open>\<open>None\<close> is the nil slice, which a zero-length field decodes to.\<close>

definition readBinaryDataFromReader :: "byte list option rd" where
  "readBinaryDataFromReader =
     rthen ReadByte (\<lambda>b0. rthen ReadByte (\<lambda>b1.
       let len = be16 b0 b1
       in if len = 0 then rret None
          else rthen (readFull len) (\<lambda>bs. rret (Some bs))))"

definition writeString :: "gostring \<Rightarrow> byte list res" where
  "writeString s =
     (if 65535 < length s then Inl ErrStringTooLong
      else if 0 < length s \<and> validateUTF8 s \<noteq> Inr () then rbind (validateUTF8 s) (\<lambda>_. Inr [])
      else Inr (PutUint16 (of_nat (length s)) @ s))"

text \<open>The length bytes are \<^verbatim>\<open>byte(len >> 8)\<close> and \<^verbatim>\<open>byte(len)\<close>: no range check.\<close>

definition writeBinaryData :: "byte list \<Rightarrow> byte list" where
  "writeBinaryData d = of_nat (length d div 256) # of_nat (length d) # d"

subsection \<open>Round trips\<close>

lemma unat_of_nat_u16: "n \<le> 65535 \<Longrightarrow> unat (of_nat n :: u16) = n"
  by (simp add: unat_of_nat)

lemma PutUint16_of_nat:
  assumes "n \<le> 65535"
  shows "PutUint16 (of_nat n) = [of_nat (n div 256), of_nat n]"
proof -
  have "unat (drop_bit 8 (of_nat n :: u16)) = drop_bit 8 (unat (of_nat n :: u16))"
    by (rule unat_drop_bit_eq)
  also have "\<dots> = n div 256"
    by (simp only: unat_of_nat_u16 [OF assms] drop_bit_eq_div) simp
  finally have "unat (drop_bit 8 (of_nat n :: u16)) = n div 256" .
  then have "(ucast (drop_bit 8 (of_nat n :: u16)) :: byte) = of_nat (n div 256)"
    by (metis of_nat_unat)
  moreover have "(ucast (of_nat n :: u16) :: byte) = of_nat n"
    using assms by (metis of_nat_unat unat_of_nat_u16)
  ultimately show ?thesis by (simp add: PutUint16_def)
qed

lemma two_byte_length:
  assumes "n \<le> 65535"
  shows "be16 (of_nat (n div 256)) (of_nat n) = n"
proof -
  from assms have "n div 256 < 256" by auto
  then have "unat (of_nat (n div 256) :: byte) = n div 256" by (simp add: unat_of_nat)
  moreover have "unat (of_nat n :: byte) = n mod 256" by (simp add: unat_of_nat)
  ultimately show ?thesis by (simp add: be16_def)
qed

lemma writeString_eq_Inr:
  "writeString x = Inr bs \<longleftrightarrow>
   length x \<le> 65535 \<and> validateUTF8 x = Inr () \<and> bs = PutUint16 (of_nat (length x)) @ x"
  by (cases "validateUTF8 x"; cases x) (auto simp: writeString_def)

lemma length_writeString: "writeString x = Inr bs \<Longrightarrow> length bs = 2 + length x"
  by (auto simp: writeString_eq_Inr)

lemma readStringBounded_write:
  "writeString x = Inr bs \<Longrightarrow> length x \<le> maxLen \<Longrightarrow> readStringBounded maxLen (bs @ s) = (Inr x, s)"
  by (cases "x = []") (auto simp: writeString_eq_Inr readStringBounded_def Let_def unat_of_nat_u16)

lemma readString_write [simp, rd_simps]:
  "writeString x = Inr bs \<Longrightarrow> readString (bs @ s) = (Inr x, s)"
  unfolding readString_def by (rule readStringBounded_write) (auto simp: writeString_eq_Inr)

lemma readStringFromReader_write [simp, rd_simps]:
  "writeString x = Inr bs \<Longrightarrow> readStringFromReader (bs @ s) = (Inr x, s)"
  by (cases "x = []")
     (auto simp: writeString_eq_Inr readStringFromReader_def PutUint16_of_nat [of "length x"]
        two_byte_length [of "length x"] PutUint16_of_nat [of 0, simplified]
        two_byte_length [of 0, simplified] Let_def)

lemma readBinaryDataFromReader_write [simp, rd_simps]:
  "length d \<le> 65535 \<Longrightarrow>
   readBinaryDataFromReader (writeBinaryData d @ s) = (Inr (if d = [] then None else Some d), s)"
  by (auto simp: readBinaryDataFromReader_def writeBinaryData_def two_byte_length Let_def)

lemma readString_eq_Inr:
  assumes "readStringBounded m s = (Inr x, t)"
  shows "2 + length x \<le> length s" "t = drop (2 + length x) s" "length x \<le> 65535"
    "x \<noteq> [] \<longrightarrow> length x \<le> m" "validateUTF8 x = Inr ()"
proof -
  from assms obtain lb u where lb: "s = lb @ u" "length lb = 2"
    and r: "(let len = unat (Uint16 lb)
       in if len = 0 then rret []
          else if m < len then rfail ErrMalformedPacket
          else rthen (readFull len) (\<lambda>s.
            rthen (rlift (validateUTF8 s)) (\<lambda>_. rret s))) u = (Inr x, t)"
    by (auto simp: readStringBounded_def rthen_eq_Inr readFull_eq_Inr)
  have "unat (Uint16 lb) < 2 ^ LENGTH(16)" by (rule unsigned_less)
  then have lt: "unat (Uint16 lb) \<le> 65535" by simp
  have "u = x @ t \<and> length x \<le> 65535 \<and> (x \<noteq> [] \<longrightarrow> length x \<le> m) \<and> validateUTF8 x = Inr ()"
    using r lt
    by (auto simp: Let_def rthen_eq_Inr readFull_eq_Inr split: if_splits)
  with lb show "2 + length x \<le> length s" "t = drop (2 + length x) s" "length x \<le> 65535"
    "x \<noteq> [] \<longrightarrow> length x \<le> m" "validateUTF8 x = Inr ()"
    by auto
qed

lemma reads_le_readStringBounded [rd_wf]: "reads_le (2 + m) (readStringBounded m)"
  unfolding readStringBounded_def Let_def
proof (rule reads_le_rthen_fixed [where m = 2 and h = m, OF reads_le_readFull reads_eq_readFull])
  fix lb :: "byte list"
  have "reads_le m (rthen (readFull (unat (Uint16 lb)))
      (\<lambda>s. rthen (rlift (validateUTF8 s)) (\<lambda>_. rret s)))" if "\<not> m < unat (Uint16 lb)"
    using that
    by (intro reads_le_rthen_fixed [where m = "unat (Uint16 lb)" and h = 0]
          reads_le_rthen_fixed [where m = 0 and h = 0] rd_wf) auto
  then show "reads_le m (if unat (Uint16 lb) = 0 then rret []
      else if m < unat (Uint16 lb) then rfail ErrMalformedPacket
      else rthen (readFull (unat (Uint16 lb)))
        (\<lambda>s. rthen (rlift (validateUTF8 s)) (\<lambda>_. rret s)))"
    by (auto intro: rd_wf)
qed simp

lemma PutUint16_Uint16: "length bs = 2 \<Longrightarrow> PutUint16 (Uint16 bs) = bs"
proof -
  assume "length bs = 2"
  then obtain a b where bs: "bs = [a, b]" by (auto simp: numeral_2_eq_2 length_Suc_conv)
  have "(ucast (drop_bit 8 (push_bit 8 (ucast a) OR ucast b :: u16)) :: byte) = a"
    by (rule byte_eqI) (auto simp: bit_simps dest: bit_imp_le_length)
  moreover have "(ucast (push_bit 8 (ucast a) OR ucast b :: u16) :: byte) = b"
    by (rule byte_eqI) (auto simp: bit_simps dest: bit_imp_le_length)
  ultimately show ?thesis by (simp add: bs PutUint16_def Uint16_def)
qed

lemma readString_iff: "readString s = (Inr x, t) \<longleftrightarrow> (\<exists>bs. writeString x = Inr bs \<and> s = bs @ t)"
proof
  assume "readString s = (Inr x, t)"
  then obtain lb u where lb: "s = lb @ u" "length lb = 2"
    and r: "(if unat (Uint16 lb) = 0 then rret []
          else if 65535 < unat (Uint16 lb) then rfail ErrMalformedPacket
          else rthen (readFull (unat (Uint16 lb))) (\<lambda>s. rthen (rlift (validateUTF8 s)) (\<lambda>_. rret s))) u = (Inr x, t)"
    unfolding readString_def readStringBounded_def rthen_eq_Inr [of "readFull 2"] readFull_eq_Inr Let_def by blast
  define n where "n = unat (Uint16 lb)"
  have n: "length x = n" "u = x @ t" "validateUTF8 x = Inr ()"
    using r unfolding n_def [symmetric] by (auto simp: rthen_eq_Inr readFull_eq_Inr split: if_splits)
  have "unat (Uint16 lb) < 2 ^ LENGTH(16)" by (rule unsigned_less)
  moreover have "PutUint16 (of_nat (length x)) = lb" using n(1) PutUint16_Uint16 [OF lb(2)] by (simp add: n_def)
  ultimately show "\<exists>bs. writeString x = Inr bs \<and> s = bs @ t"
    using n lb(1) by (intro exI [of _ "lb @ x"]) (simp add: writeString_eq_Inr n_def)
qed (auto simp: readString_write)
subsection \<open>Consumption\<close>

lemma shrinks_readVarIntLoop: "shrinks (readVarIntLoop i v m)"
proof -
  have "\<exists>k. snd (readVarIntLoop i v m s) = drop k s" for s
  proof (induction i v m s rule: readVarIntLoop.induct)
    case (3 i v m b s)
    show ?case
    proof (cases "b AND 0x80 = 0")
      case True
      then show ?thesis by (auto intro: exI [of _ 1])
    next
      case False
      with 3 obtain k where
        "snd (readVarIntLoop i (v + ucast (b AND 0x7F) * m) (m * 128) s) = drop k s" by auto
      with False show ?thesis by (auto intro: exI [of _ "Suc k"])
    qed
  qed (auto intro: exI [of _ 0])
  then show ?thesis by (simp add: shrinks_def)
qed

lemma shrinks_readers [rd_shrinks]:
  "shrinks readVarInt" "shrinks readVarIntFromReader" "shrinks readUint16" "shrinks readByte"
  "shrinks readUint16FromReader" "shrinks readUint32FromReader" "shrinks (readStringBounded m)"
  "shrinks readString" "shrinks readStringFromReader" "shrinks readBinaryDataFromReader"
  unfolding readVarInt_def readVarIntFromReader_def readUint16_def readUint16FromReader_def
    readUint32FromReader_def readString_def readStringBounded_def readStringFromReader_def
    readBinaryDataFromReader_def readByte_def Let_def
  by (intro rd_shrinks shrinks_readVarIntLoop)+

end
