(* ===== verification/Properties.thy ===== *)
theory Properties
  imports Wire
begin

text \<open>
  MQTT 5.0 property sections, \<^verbatim>\<open>src/protocol/properties.go\<close>: the property set of a packet,
  the table of packet types each identifier is valid in, the encoder with its value and locus
  checks, and the decoder with its repeat check. Lemmas: what the encoder writes the decoder
  reads back, no accepted section holds an identifier foreign to its packet type, and the
  decoder never reads past the declared length.
\<close>

section \<open>The property set\<close>

record UserProperty =
  up_Key :: gostring
  up_Value :: gostring

text \<open>
  A Go pointer field is an option, a slice whose nil-ness is tested is an option of a list, and
  a string, whose zero value means absent, is a list.
\<close>

record Properties =
  PayloadFormat :: "byte option"
  MessageExpiryInterval :: "u32 option"
  ContentType :: gostring
  ResponseTopic :: gostring
  CorrelationData :: "byte list option"
  SubscriptionIdentifier :: "u32 list"
  SessionExpiryInterval :: "u32 option"
  AssignedClientID :: gostring
  ServerKeepAlive :: "u16 option"
  AuthenticationMethod :: gostring
  AuthenticationData :: "byte list option"
  RequestProblemInfo :: "byte option"
  WillDelayInterval :: "u32 option"
  RequestResponseInfo :: "byte option"
  ResponseInfo :: gostring
  ServerReference :: gostring
  ReceiveMaximum :: "u16 option"
  TopicAliasMaximum :: "u16 option"
  TopicAlias :: "u16 option"
  MaximumQoS :: "byte option"
  RetainAvailable :: "byte option"
  UserProperties :: "UserProperty list"
  MaximumPacketSize :: "u32 option"
  WildcardSubAvailable :: "byte option"
  SubIDAvailable :: "byte option"
  SharedSubAvailable :: "byte option"
  ReasonString :: gostring

definition emptyProperties :: Properties where
  "emptyProperties =
     \<lparr> PayloadFormat = None, MessageExpiryInterval = None, ContentType = [], ResponseTopic = [],
       CorrelationData = None, SubscriptionIdentifier = [], SessionExpiryInterval = None,
       AssignedClientID = [], ServerKeepAlive = None, AuthenticationMethod = [],
       AuthenticationData = None, RequestProblemInfo = None, WillDelayInterval = None,
       RequestResponseInfo = None, ResponseInfo = [], ServerReference = [],
       ReceiveMaximum = None, TopicAliasMaximum = None, TopicAlias = None, MaximumQoS = None,
       RetainAvailable = None, UserProperties = [], MaximumPacketSize = None,
       WildcardSubAvailable = None, SubIDAvailable = None, SharedSubAvailable = None,
       ReasonString = [] \<rparr>"

text \<open>Property identifiers.\<close>

abbreviation (input) "PropPayloadFormat \<equiv> 0x01 :: byte"
abbreviation (input) "PropMessageExpiryInterval \<equiv> 0x02 :: byte"
abbreviation (input) "PropContentType \<equiv> 0x03 :: byte"
abbreviation (input) "PropResponseTopic \<equiv> 0x08 :: byte"
abbreviation (input) "PropCorrelationData \<equiv> 0x09 :: byte"
abbreviation (input) "PropSubscriptionIdentifier \<equiv> 0x0B :: byte"
abbreviation (input) "PropSessionExpiryInterval \<equiv> 0x11 :: byte"
abbreviation (input) "PropAssignedClientID \<equiv> 0x12 :: byte"
abbreviation (input) "PropServerKeepAlive \<equiv> 0x13 :: byte"
abbreviation (input) "PropAuthMethod \<equiv> 0x15 :: byte"
abbreviation (input) "PropAuthData \<equiv> 0x16 :: byte"
abbreviation (input) "PropRequestProblemInfo \<equiv> 0x17 :: byte"
abbreviation (input) "PropWillDelayInterval \<equiv> 0x18 :: byte"
abbreviation (input) "PropRequestResponseInfo \<equiv> 0x19 :: byte"
abbreviation (input) "PropResponseInfo \<equiv> 0x1A :: byte"
abbreviation (input) "PropServerReference \<equiv> 0x1C :: byte"
abbreviation (input) "PropReasonString \<equiv> 0x1F :: byte"
abbreviation (input) "PropReceiveMaximum \<equiv> 0x21 :: byte"
abbreviation (input) "PropTopicAliasMax \<equiv> 0x22 :: byte"
abbreviation (input) "PropTopicAlias \<equiv> 0x23 :: byte"
abbreviation (input) "PropMaximumQoS \<equiv> 0x24 :: byte"
abbreviation (input) "PropRetainAvailable \<equiv> 0x25 :: byte"
abbreviation (input) "PropUserProperty \<equiv> 0x26 :: byte"
abbreviation (input) "PropMaximumPacketSize \<equiv> 0x27 :: byte"
abbreviation (input) "PropWildcardSubAvailable \<equiv> 0x28 :: byte"
abbreviation (input) "PropSubIDAvailable \<equiv> 0x29 :: byte"
abbreviation (input) "PropSharedSubAvailable \<equiv> 0x2A :: byte"

section \<open>Which packet types an identifier is valid in\<close>

datatype propertyLocus =
    locusConnect | locusWill | locusConnAck | locusPublish | locusAck | locusSubscribe
  | locusSubAck | locusUnsubscribe | locusUnsubAck | locusDisconnect | locusAuth

text \<open>The Go bit set over the eleven loci is the list of its members.\<close>

definition allLoci :: "propertyLocus list" where
  "allLoci = [locusConnect, locusWill, locusConnAck, locusPublish, locusAck, locusSubscribe,
              locusSubAck, locusUnsubscribe, locusUnsubAck, locusDisconnect, locusAuth]"

definition propertyLoci :: "byte \<Rightarrow> propertyLocus list option" where
  "propertyLoci = map_of
    [(PropPayloadFormat, [locusPublish, locusWill]),
     (PropMessageExpiryInterval, [locusPublish, locusWill]),
     (PropContentType, [locusPublish, locusWill]),
     (PropResponseTopic, [locusPublish, locusWill]),
     (PropCorrelationData, [locusPublish, locusWill]),
     (PropSubscriptionIdentifier, [locusPublish, locusSubscribe]),
     (PropSessionExpiryInterval, [locusConnect, locusConnAck, locusDisconnect]),
     (PropAssignedClientID, [locusConnAck]),
     (PropServerKeepAlive, [locusConnAck]),
     (PropAuthMethod, [locusConnect, locusConnAck, locusAuth]),
     (PropAuthData, [locusConnect, locusConnAck, locusAuth]),
     (PropRequestProblemInfo, [locusConnect]),
     (PropWillDelayInterval, [locusWill]),
     (PropRequestResponseInfo, [locusConnect]),
     (PropResponseInfo, [locusConnAck]),
     (PropServerReference, [locusConnAck, locusDisconnect]),
     (PropReasonString, [locusConnAck, locusAck, locusSubAck, locusUnsubAck, locusDisconnect,
        locusAuth]),
     (PropReceiveMaximum, [locusConnect, locusConnAck]),
     (PropTopicAliasMax, [locusConnect, locusConnAck]),
     (PropTopicAlias, [locusPublish]),
     (PropMaximumQoS, [locusConnAck]),
     (PropRetainAvailable, [locusConnAck]),
     (PropUserProperty, allLoci),
     (PropMaximumPacketSize, [locusConnect, locusConnAck]),
     (PropWildcardSubAvailable, [locusConnAck]),
     (PropSubIDAvailable, [locusConnAck]),
     (PropSharedSubAvailable, [locusConnAck])]"

definition propAllowed :: "byte \<Rightarrow> propertyLocus \<Rightarrow> bool" where
  "propAllowed t l = (case propertyLoci t of None \<Rightarrow> False | Some ls \<Rightarrow> l \<in> set ls)"

text \<open>Which identifiers a set would put on the wire.\<close>

definition propertyProbes :: "(byte \<times> (Properties \<Rightarrow> bool)) list" where
  "propertyProbes =
    [(PropPayloadFormat, \<lambda>p. PayloadFormat p \<noteq> None),
     (PropMessageExpiryInterval, \<lambda>p. MessageExpiryInterval p \<noteq> None),
     (PropContentType, \<lambda>p. ContentType p \<noteq> []),
     (PropResponseTopic, \<lambda>p. ResponseTopic p \<noteq> []),
     (PropCorrelationData, \<lambda>p. CorrelationData p \<noteq> None),
     (PropSubscriptionIdentifier, \<lambda>p. SubscriptionIdentifier p \<noteq> []),
     (PropSessionExpiryInterval, \<lambda>p. SessionExpiryInterval p \<noteq> None),
     (PropAssignedClientID, \<lambda>p. AssignedClientID p \<noteq> []),
     (PropServerKeepAlive, \<lambda>p. ServerKeepAlive p \<noteq> None),
     (PropAuthMethod, \<lambda>p. AuthenticationMethod p \<noteq> []),
     (PropAuthData, \<lambda>p. AuthenticationData p \<noteq> None),
     (PropRequestProblemInfo, \<lambda>p. RequestProblemInfo p \<noteq> None),
     (PropWillDelayInterval, \<lambda>p. WillDelayInterval p \<noteq> None),
     (PropRequestResponseInfo, \<lambda>p. RequestResponseInfo p \<noteq> None),
     (PropResponseInfo, \<lambda>p. ResponseInfo p \<noteq> []),
     (PropServerReference, \<lambda>p. ServerReference p \<noteq> []),
     (PropReceiveMaximum, \<lambda>p. ReceiveMaximum p \<noteq> None),
     (PropTopicAliasMax, \<lambda>p. TopicAliasMaximum p \<noteq> None),
     (PropTopicAlias, \<lambda>p. TopicAlias p \<noteq> None),
     (PropMaximumQoS, \<lambda>p. MaximumQoS p \<noteq> None),
     (PropRetainAvailable, \<lambda>p. RetainAvailable p \<noteq> None),
     (PropUserProperty, \<lambda>p. UserProperties p \<noteq> []),
     (PropMaximumPacketSize, \<lambda>p. MaximumPacketSize p \<noteq> None),
     (PropWildcardSubAvailable, \<lambda>p. WildcardSubAvailable p \<noteq> None),
     (PropSubIDAvailable, \<lambda>p. SubIDAvailable p \<noteq> None),
     (PropSharedSubAvailable, \<lambda>p. SharedSubAvailable p \<noteq> None),
     (PropReasonString, \<lambda>p. ReasonString p \<noteq> [])]"

fun probeLoop :: "(byte \<times> (Properties \<Rightarrow> bool)) list \<Rightarrow> Properties \<Rightarrow> propertyLocus \<Rightarrow> unit res" where
  "probeLoop [] props locus = Inr ()"
| "probeLoop ((t, isset) # probes) props locus =
     (if \<not> isset props then probeLoop probes props locus
      else if \<not> propAllowed t locus then Inl ErrMalformedPacket
      else probeLoop probes props locus)"

definition validatePropertyLoci :: "Properties option \<Rightarrow> propertyLocus \<Rightarrow> unit res" where
  "validatePropertyLoci props locus =
     (case props of None \<Rightarrow> Inr () | Some p \<Rightarrow> probeLoop propertyProbes p locus)"

definition propertyMayRepeat :: "propertyLocus \<Rightarrow> byte \<Rightarrow> bool" where
  "propertyMayRepeat locus propID \<longleftrightarrow>
     (if propID = PropUserProperty then True
      else propID = PropSubscriptionIdentifier \<and> locus = locusPublish)"

text \<open>The value rules of the encoder, in source order, then the locus rule.\<close>

definition someGt1 :: "byte option \<Rightarrow> bool" where
  "someGt1 v \<longleftrightarrow> (case v of None \<Rightarrow> False | Some b \<Rightarrow> 1 < b)"

definition validateProperties :: "Properties option \<Rightarrow> propertyLocus \<Rightarrow> unit res" where
  "validateProperties props locus =
     (case props of None \<Rightarrow> Inr ()
      | Some p \<Rightarrow>
          if someGt1 (PayloadFormat p) then Inl ErrMalformedPacket
          else if 0 \<in> set (SubscriptionIdentifier p) then Inl ErrMalformedPacket
          else if someGt1 (RequestProblemInfo p) then Inl ErrMalformedPacket
          else if someGt1 (RequestResponseInfo p) then Inl ErrMalformedPacket
          else if ReceiveMaximum p = Some 0 then Inl ErrMalformedPacket
          else if TopicAlias p = Some 0 then Inl ErrMalformedPacket
          else if someGt1 (MaximumQoS p) then Inl ErrMalformedPacket
          else if someGt1 (RetainAvailable p) then Inl ErrMalformedPacket
          else if MaximumPacketSize p = Some 0 then Inl ErrMalformedPacket
          else if someGt1 (WildcardSubAvailable p) then Inl ErrMalformedPacket
          else if someGt1 (SubIDAvailable p) then Inl ErrMalformedPacket
          else if someGt1 (SharedSubAvailable p) then Inl ErrMalformedPacket
          else validatePropertyLoci props locus)"

section \<open>Encoding\<close>

definition putByte :: "byte \<Rightarrow> byte option \<Rightarrow> byte list res" where
  "putByte t v = (case v of None \<Rightarrow> Inr [] | Some b \<Rightarrow> Inr [t, b])"

definition putUint16 :: "byte \<Rightarrow> u16 option \<Rightarrow> byte list res" where
  "putUint16 t v = (case v of None \<Rightarrow> Inr [] | Some n \<Rightarrow> Inr (t # writeUint16 n))"

definition putUint32 :: "byte \<Rightarrow> u32 option \<Rightarrow> byte list res" where
  "putUint32 t v = (case v of None \<Rightarrow> Inr [] | Some n \<Rightarrow> Inr (t # writeUint32ToWriter n))"

definition putString :: "byte \<Rightarrow> gostring \<Rightarrow> byte list res" where
  "putString t s = (if s = [] then Inr [] else rbind (writeString s) (\<lambda>b. Inr (t # b)))"

definition putBinary :: "byte \<Rightarrow> byte list option \<Rightarrow> byte list res" where
  "putBinary t v = (case v of None \<Rightarrow> Inr [] | Some d \<Rightarrow> Inr (t # writeBinaryData d))"

definition putSubscriptionIdentifiers :: "u32 list \<Rightarrow> byte list res" where
  "putSubscriptionIdentifiers ids = wseq (map (\<lambda>n. Inr (PropSubscriptionIdentifier # writeVarInt n)) ids)"

definition putUserProperties :: "UserProperty list \<Rightarrow> byte list res" where
  "putUserProperties ups = wseq (map (\<lambda>up.
      rbind (writeString (up_Key up)) (\<lambda>k. rbind (writeString (up_Value up)) (\<lambda>v.
        Inr (PropUserProperty # k @ v)))) ups)"

text \<open>The body of the section, first half and second half of the source's list of writes.\<close>

definition encodePropsHead :: "Properties \<Rightarrow> byte list res list" where
  "encodePropsHead p =
    [putByte PropPayloadFormat (PayloadFormat p),
     putUint32 PropMessageExpiryInterval (MessageExpiryInterval p),
     putString PropContentType (ContentType p),
     putString PropResponseTopic (ResponseTopic p),
     putBinary PropCorrelationData (CorrelationData p),
     putSubscriptionIdentifiers (SubscriptionIdentifier p),
     putUint32 PropSessionExpiryInterval (SessionExpiryInterval p),
     putString PropAssignedClientID (AssignedClientID p),
     putUint16 PropServerKeepAlive (ServerKeepAlive p),
     putString PropAuthMethod (AuthenticationMethod p),
     putBinary PropAuthData (AuthenticationData p),
     putByte PropRequestProblemInfo (RequestProblemInfo p),
     putUint32 PropWillDelayInterval (WillDelayInterval p),
     putByte PropRequestResponseInfo (RequestResponseInfo p)]"

definition encodePropsTail :: "Properties \<Rightarrow> byte list res list" where
  "encodePropsTail p =
    [putString PropResponseInfo (ResponseInfo p),
     putString PropServerReference (ServerReference p),
     putUint16 PropReceiveMaximum (ReceiveMaximum p),
     putUint16 PropTopicAliasMax (TopicAliasMaximum p),
     putUint16 PropTopicAlias (TopicAlias p),
     putByte PropMaximumQoS (MaximumQoS p),
     putByte PropRetainAvailable (RetainAvailable p),
     putUserProperties (UserProperties p),
     putUint32 PropMaximumPacketSize (MaximumPacketSize p),
     putByte PropWildcardSubAvailable (WildcardSubAvailable p),
     putByte PropSubIDAvailable (SubIDAvailable p),
     putByte PropSharedSubAvailable (SharedSubAvailable p),
     putString PropReasonString (ReasonString p)]"

definition encodeProperties :: "Properties \<Rightarrow> propertyLocus \<Rightarrow> byte list res" where
  "encodeProperties props locus =
     rbind (validateProperties (Some props) locus) (\<lambda>_.
     rbind (wseq (encodePropsHead props @ encodePropsTail props)) (\<lambda>data.
       if data = [] then Inr (writeVarInt 0)
       else Inr (writeVarInt (of_nat (length data)) @ data)))"

section \<open>Decoding\<close>

text \<open>A one-byte flag (0 or 1), a non-zero two-byte or four-byte value.\<close>

definition getFlag :: "(byte \<Rightarrow> Properties) \<Rightarrow> Properties rd" where
  "getFlag k = rthen ReadByte (\<lambda>v. if 1 < v then rfail ErrMalformedPacket else rret (k v))"

text \<open>The switch of \<open>decodeProperties\<close>: the value of one property stored into the set.\<close>

definition decodePropHigh :: "byte \<Rightarrow> Properties \<Rightarrow> Properties rd" where
  "decodePropHigh t p =
    (if t = PropReceiveMaximum then
       rthen readUint16FromReader (\<lambda>v. if v = 0 then rfail ErrMalformedPacket
         else rret (p\<lparr>ReceiveMaximum := Some v\<rparr>))
     else if t = PropTopicAliasMax then
       rthen readUint16FromReader (\<lambda>v. rret (p\<lparr>TopicAliasMaximum := Some v\<rparr>))
     else if t = PropTopicAlias then
       rthen readUint16FromReader (\<lambda>v. if v = 0 then rfail ErrMalformedPacket
         else rret (p\<lparr>TopicAlias := Some v\<rparr>))
     else if t = PropMaximumQoS then getFlag (\<lambda>v. p\<lparr>MaximumQoS := Some v\<rparr>)
     else if t = PropRetainAvailable then getFlag (\<lambda>v. p\<lparr>RetainAvailable := Some v\<rparr>)
     else if t = PropUserProperty then
       (if 100 \<le> length (UserProperties p) then rfail ErrMalformedPacket
        else rthen readStringFromReader (\<lambda>k. rthen readStringFromReader (\<lambda>v.
          rret (p\<lparr>UserProperties := UserProperties p @ [\<lparr>up_Key = k, up_Value = v\<rparr>]\<rparr>))))
     else if t = PropMaximumPacketSize then
       rthen readUint32FromReader (\<lambda>v. if v = 0 then rfail ErrMalformedPacket
         else rret (p\<lparr>MaximumPacketSize := Some v\<rparr>))
     else if t = PropWildcardSubAvailable then getFlag (\<lambda>v. p\<lparr>WildcardSubAvailable := Some v\<rparr>)
     else if t = PropSubIDAvailable then getFlag (\<lambda>v. p\<lparr>SubIDAvailable := Some v\<rparr>)
     else if t = PropSharedSubAvailable then getFlag (\<lambda>v. p\<lparr>SharedSubAvailable := Some v\<rparr>)
     else if t = PropReasonString then
       rthen readStringFromReader (\<lambda>v. rret (p\<lparr>ReasonString := v\<rparr>))
     else rfail ErrMalformedPacket)"

definition decodePropLow :: "byte \<Rightarrow> Properties \<Rightarrow> Properties rd" where
  "decodePropLow t p =
    (if t = PropPayloadFormat then getFlag (\<lambda>v. p\<lparr>PayloadFormat := Some v\<rparr>)
     else if t = PropMessageExpiryInterval then
       rthen readUint32FromReader (\<lambda>v. rret (p\<lparr>MessageExpiryInterval := Some v\<rparr>))
     else if t = PropContentType then
       rthen readStringFromReader (\<lambda>v. rret (p\<lparr>ContentType := v\<rparr>))
     else if t = PropResponseTopic then
       rthen readStringFromReader (\<lambda>v. rret (p\<lparr>ResponseTopic := v\<rparr>))
     else if t = PropCorrelationData then
       rthen readBinaryDataFromReader (\<lambda>v. rret (p\<lparr>CorrelationData := v\<rparr>))
     else if t = PropSubscriptionIdentifier then
       rthen readVarIntFromReader (\<lambda>v. if v = 0 then rfail ErrMalformedPacket
         else rret (p\<lparr>SubscriptionIdentifier := SubscriptionIdentifier p @ [v]\<rparr>))
     else if t = PropSessionExpiryInterval then
       rthen readUint32FromReader (\<lambda>v. rret (p\<lparr>SessionExpiryInterval := Some v\<rparr>))
     else if t = PropAssignedClientID then
       rthen readStringFromReader (\<lambda>v. rret (p\<lparr>AssignedClientID := v\<rparr>))
     else if t = PropServerKeepAlive then
       rthen readUint16FromReader (\<lambda>v. rret (p\<lparr>ServerKeepAlive := Some v\<rparr>))
     else if t = PropAuthMethod then
       rthen readStringFromReader (\<lambda>v. rret (p\<lparr>AuthenticationMethod := v\<rparr>))
     else if t = PropAuthData then
       rthen readBinaryDataFromReader (\<lambda>v. rret (p\<lparr>AuthenticationData := v\<rparr>))
     else if t = PropRequestProblemInfo then getFlag (\<lambda>v. p\<lparr>RequestProblemInfo := Some v\<rparr>)
     else if t = PropWillDelayInterval then
       rthen readUint32FromReader (\<lambda>v. rret (p\<lparr>WillDelayInterval := Some v\<rparr>))
     else if t = PropRequestResponseInfo then getFlag (\<lambda>v. p\<lparr>RequestResponseInfo := Some v\<rparr>)
     else if t = PropResponseInfo then
       rthen readStringFromReader (\<lambda>v. rret (p\<lparr>ResponseInfo := v\<rparr>))
     else if t = PropServerReference then
       rthen readStringFromReader (\<lambda>v. rret (p\<lparr>ServerReference := v\<rparr>))
     else decodePropHigh t p)"

lemma shrinks_decodeProp [rd_shrinks]: "shrinks (decodePropHigh t p)" "shrinks (decodePropLow t p)"
proof -
  show "shrinks (decodePropHigh t p)" for t p
    unfolding decodePropHigh_def getFlag_def by (intro rd_shrinks)
  then show "shrinks (decodePropLow t p)"
    unfolding decodePropLow_def getFlag_def by (intro rd_shrinks)
qed

text \<open>
  The loop over the section. \<open>seen\<close> is the occurrence array; the \<open>propertyLoci\<close> lookup before
  it is what keeps its index in range.
\<close>

function decodePropsLoop :: "propertyLocus \<Rightarrow> (byte \<Rightarrow> bool) \<Rightarrow> Properties \<Rightarrow> Properties rd" where
  "decodePropsLoop locus seen props [] = (Inr props, [])"
| "decodePropsLoop locus seen props (t # s) =
     (case propertyLoci t of
        None \<Rightarrow> (Inl ErrMalformedPacket, s)
      | Some allowed \<Rightarrow>
          if locus \<notin> set allowed then (Inl ErrMalformedPacket, s)
          else if seen t \<and> \<not> propertyMayRepeat locus t then (Inl ErrProtocolError, s)
          else case decodePropLow t props s of
              (Inl e, s') \<Rightarrow> (Inl e, s')
            | (Inr props', s') \<Rightarrow> decodePropsLoop locus (seen(t := True)) props' s')"
  by pat_completeness auto
termination
  by (relation "measure (\<lambda>(l, seen, p, s). length s)")
     (auto simp: less_Suc_eq_le intro: shrinks_length [OF shrinks_decodeProp(2) sym])

text \<open>
  Every caller hands \<open>decodeProperties\<close> a \<^verbatim>\<open>bytes.Reader\<close> over the packet body, so the
  declared length is compared with what that reader still holds. \<open>None\<close> is the nil set of an
  empty section.
\<close>

definition decodeProperties :: "propertyLocus \<Rightarrow> Properties option rd" where
  "decodeProperties locus =
     rthen readVarInt (\<lambda>propLen.
       if propLen = 0 then rret None
       else (\<lambda>s. if of_nat (length s) < propLen then (Inl ErrMalformedPacket, s)
         else rthen (readFull (unat propLen)) (\<lambda>buf.
           rlift (rbind (fst (decodePropsLoop locus (\<lambda>_. False) emptyProperties buf)) (\<lambda>p.
             Inr (Some p)))) s))"

lemma shrinks_decodeProperties [rd_shrinks]: "shrinks (decodeProperties locus)"
proof -
  have *: "shrinks (\<lambda>s. if of_nat (length s) < n then (Inl ErrMalformedPacket, s) else p s)"
    if "shrinks p" for n :: u32 and p :: "Properties option rd"
    using that by (auto simp: shrinks_def intro: exI [of _ 0])
  show ?thesis unfolding decodeProperties_def by (intro rd_shrinks *)
qed

section \<open>What the encoder accepts\<close>

lemma probeLoop_ok:
  "probeLoop probes p l = Inr () \<longleftrightarrow> (\<forall>(t, isset) \<in> set probes. isset p \<longrightarrow> propAllowed t l)"
  by (induction probes) (auto split: if_splits)

text \<open>Every field a set carries is allowed in the packet type: the encoder's half of Table 2-4.\<close>

lemmas probe_simps = validatePropertyLoci_def probeLoop_ok propertyProbes_def

lemma validateProperties_ok:
  "validateProperties (Some p) l = Inr () \<longleftrightarrow>
     \<not> someGt1 (PayloadFormat p) \<and> 0 \<notin> set (SubscriptionIdentifier p) \<and>
     \<not> someGt1 (RequestProblemInfo p) \<and> \<not> someGt1 (RequestResponseInfo p) \<and>
     ReceiveMaximum p \<noteq> Some 0 \<and> TopicAlias p \<noteq> Some 0 \<and> \<not> someGt1 (MaximumQoS p) \<and>
     \<not> someGt1 (RetainAvailable p) \<and> MaximumPacketSize p \<noteq> Some 0 \<and>
     \<not> someGt1 (WildcardSubAvailable p) \<and> \<not> someGt1 (SubIDAvailable p) \<and>
     \<not> someGt1 (SharedSubAvailable p) \<and> validatePropertyLoci (Some p) l = Inr ()"
  by (simp add: validateProperties_def)

section \<open>Reading back one chunk\<close>

text \<open>
  \<open>chunk l A q ch B q'\<close>: the decoder loop, having seen only identifiers of \<open>A\<close> and holding the
  set \<open>q\<close>, consumes \<open>ch\<close> and goes on holding \<open>q'\<close>, having seen only identifiers of \<open>B\<close>.
\<close>

definition chunk ::
  "propertyLocus \<Rightarrow> byte set \<Rightarrow> Properties \<Rightarrow> byte list \<Rightarrow> byte set \<Rightarrow> Properties \<Rightarrow> bool" where
  "chunk l A q ch B q' \<longleftrightarrow>
     (\<forall>seen s. (\<forall>t. seen t \<longrightarrow> t \<in> A) \<longrightarrow>
        (\<exists>seen'. (\<forall>t. seen' t \<longrightarrow> t \<in> B) \<and>
           decodePropsLoop l seen q (ch @ s) = decodePropsLoop l seen' q' s))"

named_theorems prop_chunks \<open>one property, encoded, is read back into its field\<close>

lemma chunk_Nil: "A \<subseteq> B \<Longrightarrow> chunk l A q [] B q"
  by (auto simp: chunk_def)

lemma chunk_append: "chunk l A q c B q' \<Longrightarrow> chunk l B q' c' C q'' \<Longrightarrow> chunk l A q (c @ c') C q''"
  unfolding chunk_def by (metis append.assoc)

lemma chunk_wseq:
  assumes "wseq (w # ws) = Inr data"
    and "\<And>c. w = Inr c \<Longrightarrow> chunk l A q c B q'"
    and "\<And>d. wseq ws = Inr d \<Longrightarrow> chunk l B q' d C q''"
  shows "chunk l A q data C q''"
  using assms by (auto simp: rbind_eq_Inr intro: chunk_append)

lemma chunk_one:
  assumes "propAllowed t l" "t \<notin> A \<or> propertyMayRepeat l t"
    and "\<And>s. decodePropLow t q (b @ s) = (Inr q', s)"
  shows "chunk l A q (t # b) (insert t A) q'"
  unfolding chunk_def
proof (intro allI impI)
  fix seen s assume A: "\<forall>t. seen t \<longrightarrow> t \<in> A"
  have "decodePropsLoop l seen q ((t # b) @ s) = decodePropsLoop l (seen(t := True)) q' s"
    using assms A by (auto simp: propAllowed_def split: option.splits)
  with A show "\<exists>seen'. (\<forall>u. seen' u \<longrightarrow> u \<in> insert t A) \<and>
      decodePropsLoop l seen q ((t # b) @ s) = decodePropsLoop l seen' q' s"
    by (intro exI [of _ "seen(t := True)"]) auto
qed

lemmas decode_defs = decodePropLow_def decodePropHigh_def getFlag_def

lemma chunk_flags [prop_chunks]:
  "\<lbrakk>putByte 0x01 v = Inr c; \<not> someGt1 v; v \<noteq> None \<longrightarrow> propAllowed 0x01 l; 0x01 \<notin> A; PayloadFormat q = None\<rbrakk>
      \<Longrightarrow> chunk l A q c (insert 0x01 A) (q\<lparr>PayloadFormat := v\<rparr>)"
  "\<lbrakk>putByte 0x17 v = Inr c; \<not> someGt1 v; v \<noteq> None \<longrightarrow> propAllowed 0x17 l; 0x17 \<notin> A; RequestProblemInfo q = None\<rbrakk>
      \<Longrightarrow> chunk l A q c (insert 0x17 A) (q\<lparr>RequestProblemInfo := v\<rparr>)"
  "\<lbrakk>putByte 0x19 v = Inr c; \<not> someGt1 v; v \<noteq> None \<longrightarrow> propAllowed 0x19 l; 0x19 \<notin> A; RequestResponseInfo q = None\<rbrakk>
      \<Longrightarrow> chunk l A q c (insert 0x19 A) (q\<lparr>RequestResponseInfo := v\<rparr>)"
  "\<lbrakk>putByte 0x24 v = Inr c; \<not> someGt1 v; v \<noteq> None \<longrightarrow> propAllowed 0x24 l; 0x24 \<notin> A; MaximumQoS q = None\<rbrakk>
      \<Longrightarrow> chunk l A q c (insert 0x24 A) (q\<lparr>MaximumQoS := v\<rparr>)"
  "\<lbrakk>putByte 0x25 v = Inr c; \<not> someGt1 v; v \<noteq> None \<longrightarrow> propAllowed 0x25 l; 0x25 \<notin> A; RetainAvailable q = None\<rbrakk>
      \<Longrightarrow> chunk l A q c (insert 0x25 A) (q\<lparr>RetainAvailable := v\<rparr>)"
  "\<lbrakk>putByte 0x28 v = Inr c; \<not> someGt1 v; v \<noteq> None \<longrightarrow> propAllowed 0x28 l; 0x28 \<notin> A; WildcardSubAvailable q = None\<rbrakk>
      \<Longrightarrow> chunk l A q c (insert 0x28 A) (q\<lparr>WildcardSubAvailable := v\<rparr>)"
  "\<lbrakk>putByte 0x29 v = Inr c; \<not> someGt1 v; v \<noteq> None \<longrightarrow> propAllowed 0x29 l; 0x29 \<notin> A; SubIDAvailable q = None\<rbrakk>
      \<Longrightarrow> chunk l A q c (insert 0x29 A) (q\<lparr>SubIDAvailable := v\<rparr>)"
  "\<lbrakk>putByte 0x2A v = Inr c; \<not> someGt1 v; v \<noteq> None \<longrightarrow> propAllowed 0x2A l; 0x2A \<notin> A; SharedSubAvailable q = None\<rbrakk>
      \<Longrightarrow> chunk l A q c (insert 0x2A A) (q\<lparr>SharedSubAvailable := v\<rparr>)"
  by (cases v; cases q; force simp: putByte_def someGt1_def decode_defs intro!: chunk_one chunk_Nil)+

lemma chunk_uint16 [prop_chunks]:
  "\<lbrakk>putUint16 0x13 v = Inr c; v \<noteq> None \<longrightarrow> propAllowed 0x13 l; 0x13 \<notin> A; ServerKeepAlive q = None\<rbrakk>
      \<Longrightarrow> chunk l A q c (insert 0x13 A) (q\<lparr>ServerKeepAlive := v\<rparr>)"
  "\<lbrakk>putUint16 0x22 v = Inr c; v \<noteq> None \<longrightarrow> propAllowed 0x22 l; 0x22 \<notin> A; TopicAliasMaximum q = None\<rbrakk>
      \<Longrightarrow> chunk l A q c (insert 0x22 A) (q\<lparr>TopicAliasMaximum := v\<rparr>)"
  by (cases v; cases q; force simp: putUint16_def decode_defs intro!: chunk_one chunk_Nil)+

lemma chunk_uint16_nonzero [prop_chunks]:
  "\<lbrakk>putUint16 0x21 v = Inr c; v \<noteq> Some 0; v \<noteq> None \<longrightarrow> propAllowed 0x21 l; 0x21 \<notin> A; ReceiveMaximum q = None\<rbrakk>
      \<Longrightarrow> chunk l A q c (insert 0x21 A) (q\<lparr>ReceiveMaximum := v\<rparr>)"
  "\<lbrakk>putUint16 0x23 v = Inr c; v \<noteq> Some 0; v \<noteq> None \<longrightarrow> propAllowed 0x23 l; 0x23 \<notin> A; TopicAlias q = None\<rbrakk>
      \<Longrightarrow> chunk l A q c (insert 0x23 A) (q\<lparr>TopicAlias := v\<rparr>)"
  by (cases v; cases q; force simp: putUint16_def decode_defs intro!: chunk_one chunk_Nil)+

lemma chunk_uint32 [prop_chunks]:
  "\<lbrakk>putUint32 0x02 v = Inr c; v \<noteq> None \<longrightarrow> propAllowed 0x02 l; 0x02 \<notin> A; MessageExpiryInterval q = None\<rbrakk>
      \<Longrightarrow> chunk l A q c (insert 0x02 A) (q\<lparr>MessageExpiryInterval := v\<rparr>)"
  "\<lbrakk>putUint32 0x11 v = Inr c; v \<noteq> None \<longrightarrow> propAllowed 0x11 l; 0x11 \<notin> A; SessionExpiryInterval q = None\<rbrakk>
      \<Longrightarrow> chunk l A q c (insert 0x11 A) (q\<lparr>SessionExpiryInterval := v\<rparr>)"
  "\<lbrakk>putUint32 0x18 v = Inr c; v \<noteq> None \<longrightarrow> propAllowed 0x18 l; 0x18 \<notin> A; WillDelayInterval q = None\<rbrakk>
      \<Longrightarrow> chunk l A q c (insert 0x18 A) (q\<lparr>WillDelayInterval := v\<rparr>)"
  by (cases v; cases q; force simp: putUint32_def decode_defs intro!: chunk_one chunk_Nil)+

lemma chunk_uint32_nonzero [prop_chunks]:
  "\<lbrakk>putUint32 0x27 v = Inr c; v \<noteq> Some 0; v \<noteq> None \<longrightarrow> propAllowed 0x27 l; 0x27 \<notin> A; MaximumPacketSize q = None\<rbrakk>
      \<Longrightarrow> chunk l A q c (insert 0x27 A) (q\<lparr>MaximumPacketSize := v\<rparr>)"
  by (cases v; cases q; force simp: putUint32_def decode_defs intro!: chunk_one chunk_Nil)+

lemma chunk_strings [prop_chunks]:
  "\<lbrakk>putString 0x03 v = Inr c; v \<noteq> [] \<longrightarrow> propAllowed 0x03 l; 0x03 \<notin> A; ContentType q = []\<rbrakk>
      \<Longrightarrow> chunk l A q c (insert 0x03 A) (q\<lparr>ContentType := v\<rparr>)"
  "\<lbrakk>putString 0x08 v = Inr c; v \<noteq> [] \<longrightarrow> propAllowed 0x08 l; 0x08 \<notin> A; ResponseTopic q = []\<rbrakk>
      \<Longrightarrow> chunk l A q c (insert 0x08 A) (q\<lparr>ResponseTopic := v\<rparr>)"
  "\<lbrakk>putString 0x12 v = Inr c; v \<noteq> [] \<longrightarrow> propAllowed 0x12 l; 0x12 \<notin> A; AssignedClientID q = []\<rbrakk>
      \<Longrightarrow> chunk l A q c (insert 0x12 A) (q\<lparr>AssignedClientID := v\<rparr>)"
  "\<lbrakk>putString 0x15 v = Inr c; v \<noteq> [] \<longrightarrow> propAllowed 0x15 l; 0x15 \<notin> A; AuthenticationMethod q = []\<rbrakk>
      \<Longrightarrow> chunk l A q c (insert 0x15 A) (q\<lparr>AuthenticationMethod := v\<rparr>)"
  "\<lbrakk>putString 0x1A v = Inr c; v \<noteq> [] \<longrightarrow> propAllowed 0x1A l; 0x1A \<notin> A; ResponseInfo q = []\<rbrakk>
      \<Longrightarrow> chunk l A q c (insert 0x1A A) (q\<lparr>ResponseInfo := v\<rparr>)"
  "\<lbrakk>putString 0x1C v = Inr c; v \<noteq> [] \<longrightarrow> propAllowed 0x1C l; 0x1C \<notin> A; ServerReference q = []\<rbrakk>
      \<Longrightarrow> chunk l A q c (insert 0x1C A) (q\<lparr>ServerReference := v\<rparr>)"
  "\<lbrakk>putString 0x1F v = Inr c; v \<noteq> [] \<longrightarrow> propAllowed 0x1F l; 0x1F \<notin> A; ReasonString q = []\<rbrakk>
      \<Longrightarrow> chunk l A q c (insert 0x1F A) (q\<lparr>ReasonString := v\<rparr>)"
  by (cases q; cases "v = []"; force simp: putString_def rbind_eq_Inr decode_defs intro!: chunk_one chunk_Nil)+

text \<open>A present but empty binary value decodes to the nil slice.\<close>

definition normBinary :: "byte list option \<Rightarrow> byte list option" where
  "normBinary v = (if v = Some [] then None else v)"

lemma chunk_binary [prop_chunks]:
  "\<lbrakk>putBinary 0x09 v = Inr c; (\<forall>d. v = Some d \<longrightarrow> length d \<le> 65535); v \<noteq> None \<longrightarrow> propAllowed 0x09 l; 0x09 \<notin> A; CorrelationData q = None\<rbrakk>
      \<Longrightarrow> chunk l A q c (insert 0x09 A) (q\<lparr>CorrelationData := normBinary v\<rparr>)"
  "\<lbrakk>putBinary 0x16 v = Inr c; (\<forall>d. v = Some d \<longrightarrow> length d \<le> 65535); v \<noteq> None \<longrightarrow> propAllowed 0x16 l; 0x16 \<notin> A; AuthenticationData q = None\<rbrakk>
      \<Longrightarrow> chunk l A q c (insert 0x16 A) (q\<lparr>AuthenticationData := normBinary v\<rparr>)"
  by (cases v; cases q; force simp: putBinary_def normBinary_def decode_defs intro!: chunk_one chunk_Nil)+

lemma chunk_subscription_identifiers [prop_chunks]:
  "\<lbrakk>putSubscriptionIdentifiers ids = Inr c; \<forall>n \<in> set ids. n \<noteq> 0 \<and> unat n < 2 ^ 28;
    ids \<noteq> [] \<longrightarrow> propAllowed 0x0B l; length ids \<le> 1 \<or> l = locusPublish; 0x0B \<notin> A;
    SubscriptionIdentifier q = []\<rbrakk>
   \<Longrightarrow> chunk l A q c (insert 0x0B A) (q\<lparr>SubscriptionIdentifier := ids\<rparr>)"
proof -
  have step: "chunk l B r (0x0B # writeVarInt n) (insert 0x0B B)
      (r\<lparr>SubscriptionIdentifier := SubscriptionIdentifier r @ [n]\<rparr>)"
    if "propAllowed 0x0B l" "0x0B \<notin> B \<or> l = locusPublish" "n \<noteq> 0" "unat n < 2 ^ 28" for B r n
    using that by (intro chunk_one) (auto simp: decode_defs propertyMayRepeat_def)
  have many: "chunk l B r (concat (map (\<lambda>n. 0x0B # writeVarInt n) ns)) (insert 0x0B B)
      (r\<lparr>SubscriptionIdentifier := SubscriptionIdentifier r @ ns\<rparr>)"
    if "ns \<noteq> [] \<longrightarrow> propAllowed 0x0B l" "length ns \<le> 1 \<and> 0x0B \<notin> B \<or> l = locusPublish"
      "\<forall>n \<in> set ns. n \<noteq> 0 \<and> unat n < 2 ^ 28" for ns B r
    using that
  proof (induction ns arbitrary: B r)
    case Nil
    then show ?case by (auto intro: chunk_Nil)
  next
    case (Cons n ns)
    let ?r = "r\<lparr>SubscriptionIdentifier := SubscriptionIdentifier r @ [n]\<rparr>"
    from Cons.prems have "chunk l B r (0x0B # writeVarInt n) (insert 0x0B B) ?r"
      by (intro step) auto
    moreover have "chunk l (insert 0x0B B) ?r (concat (map (\<lambda>n. 0x0B # writeVarInt n) ns))
        (insert 0x0B B) (?r\<lparr>SubscriptionIdentifier := SubscriptionIdentifier ?r @ ns\<rparr>)"
      using Cons.IH [of "insert 0x0B B" ?r] Cons.prems by (cases ns) (auto intro: chunk_Nil)
    ultimately show ?case using chunk_append by fastforce
  qed
  assume "putSubscriptionIdentifiers ids = Inr c" "\<forall>n \<in> set ids. n \<noteq> 0 \<and> unat n < 2 ^ 28"
    "ids \<noteq> [] \<longrightarrow> propAllowed 0x0B l" "length ids \<le> 1 \<or> l = locusPublish" "0x0B \<notin> A"
    "SubscriptionIdentifier q = []"
  with many [of ids A q] show "chunk l A q c (insert 0x0B A) (q\<lparr>SubscriptionIdentifier := ids\<rparr>)"
    by (auto simp: putSubscriptionIdentifiers_def)
qed

lemma chunk_user_properties [prop_chunks]:
  "\<lbrakk>putUserProperties ups = Inr c; ups \<noteq> [] \<longrightarrow> propAllowed 0x26 l; length ups \<le> 100; UserProperties q = []\<rbrakk>
   \<Longrightarrow> chunk l A q c (insert 0x26 A) (q\<lparr>UserProperties := ups\<rparr>)"
proof -
  have many: "chunk l B r c (insert 0x26 B) (r\<lparr>UserProperties := UserProperties r @ xs\<rparr>)"
    if "putUserProperties xs = Inr c" "xs \<noteq> [] \<longrightarrow> propAllowed 0x26 l"
      "length (UserProperties r) + length xs \<le> 100" for xs B r c
    using that
  proof (induction xs arbitrary: B r c)
    case Nil
    then show ?case by (auto simp: putUserProperties_def intro: chunk_Nil)
  next
    case (Cons x xs)
    let ?r = "r\<lparr>UserProperties := UserProperties r @ [x]\<rparr>"
    from Cons.prems(1) obtain k v d where kv: "writeString (up_Key x) = Inr k"
        "writeString (up_Value x) = Inr v" and d: "putUserProperties xs = Inr d"
      and c: "c = (0x26 # k @ v) @ d"
      by (auto simp: putUserProperties_def rbind_eq_Inr)
    have "chunk l B r (0x26 # k @ v) (insert 0x26 B) ?r"
      using Cons.prems kv
      by (intro chunk_one) (auto simp: decode_defs propertyMayRepeat_def)
    moreover have "chunk l (insert 0x26 B) ?r d (insert 0x26 (insert 0x26 B))
        (?r\<lparr>UserProperties := UserProperties ?r @ xs\<rparr>)"
      using Cons.prems by (intro Cons.IH [OF d]) auto
    ultimately show ?case unfolding c using chunk_append by fastforce
  qed
  from many [where xs = ups and r = q and c = c and B = A] show "\<lbrakk>putUserProperties ups = Inr c; ups \<noteq> [] \<longrightarrow> propAllowed 0x26 l;
      length ups \<le> 100; UserProperties q = []\<rbrakk>
    \<Longrightarrow> chunk l A q c (insert 0x26 A) (q\<lparr>UserProperties := ups\<rparr>)"
    by simp
qed

section \<open>Round trip\<close>

text \<open>
  What survives the wire: the length field of binary data is two bytes, a Subscription
  Identifier is a four-byte variable integer and repeats in a PUBLISH only, and the decoder
  stops at 100 user properties. The encoder checks none of the four.
\<close>

definition binaryFits :: "byte list option \<Rightarrow> bool" where
  "binaryFits v \<longleftrightarrow> (case v of None \<Rightarrow> True | Some d \<Rightarrow> length d \<le> 65535)"

definition wireable :: "propertyLocus \<Rightarrow> Properties \<Rightarrow> bool" where
  "wireable l p \<longleftrightarrow>
     binaryFits (CorrelationData p) \<and> binaryFits (AuthenticationData p) \<and>
     (\<forall>n \<in> set (SubscriptionIdentifier p). unat n < 2 ^ 28) \<and>
     (length (SubscriptionIdentifier p) \<le> 1 \<or> l = locusPublish) \<and>
     length (UserProperties p) \<le> 100"

definition normProperties :: "Properties \<Rightarrow> Properties" where
  "normProperties p = p\<lparr>CorrelationData := normBinary (CorrelationData p),
                       AuthenticationData := normBinary (AuthenticationData p)\<rparr>"

lemma binaryFitsD: "binaryFits v \<Longrightarrow> \<forall>d. v = Some d \<longrightarrow> length d \<le> 65535"
  by (auto simp: binaryFits_def)

lemma encodeProps_chunk:
  assumes "wseq (encodePropsHead p @ encodePropsTail p) = Inr data"
    and v: "validateProperties (Some p) l = Inr ()" and w: "wireable l p"
  shows "chunk l {} emptyProperties data UNIV (normProperties p)"
proof -
  note value_rules = v [unfolded validateProperties_ok]
  from value_rules have "probeLoop propertyProbes p l = Inr ()" by (simp add: validatePropertyLoci_def)
  note locus_rules = this [unfolded probeLoop_ok propertyProbes_def, simplified]
  from w have wire_rules: "\<forall>d. CorrelationData p = Some d \<longrightarrow> length d \<le> 65535"
    "\<forall>d. AuthenticationData p = Some d \<longrightarrow> length d \<le> 65535"
    "\<forall>n \<in> set (SubscriptionIdentifier p). n \<noteq> 0 \<and> unat n < 2 ^ 28"
    "length (SubscriptionIdentifier p) \<le> 1 \<or> l = locusPublish" "length (UserProperties p) \<le> 100"
    using value_rules by (auto simp: wireable_def binaryFits_def)
  note [simp del] = wseq.simps
  from assms(1) show ?thesis
    unfolding encodePropsHead_def encodePropsTail_def append.simps
    by - ((erule chunk_wseq, erule prop_chunks,
         (simp add: emptyProperties_def value_rules locus_rules wire_rules [simplified]; fail)+)+,
         cases p, simp add: wseq.simps emptyProperties_def normProperties_def chunk_Nil)
qed

lemma wseq_eq_Nil: "wseq ws = Inr [] \<longleftrightarrow> (\<forall>w \<in> set ws. w = Inr [])"
  by (induction ws) (auto simp: rbind_eq_Inr)

lemma put_eq_Nil [simp]:
  "putByte t v = Inr [] \<longleftrightarrow> v = None" "putUint16 t n = Inr [] \<longleftrightarrow> n = None"
  "putUint32 t m = Inr [] \<longleftrightarrow> m = None" "putBinary t d = Inr [] \<longleftrightarrow> d = None"
  "putString t x = Inr [] \<longleftrightarrow> x = []" "putSubscriptionIdentifiers ids = Inr [] \<longleftrightarrow> ids = []"
  "putUserProperties ups = Inr [] \<longleftrightarrow> ups = []"
  by (auto simp: putByte_def putUint16_def putUint32_def putBinary_def putString_def rbind_eq_Inr
      putSubscriptionIdentifiers_def putUserProperties_def wseq_eq_Nil split: option.splits)

lemma encodeProps_empty:
  "wseq (encodePropsHead p @ encodePropsTail p) = Inr [] \<longleftrightarrow> p = emptyProperties"
  by (cases p) (simp add: wseq_eq_Nil encodePropsHead_def encodePropsTail_def emptyProperties_def
      del: wseq.simps)

text \<open>An empty section decodes to the nil set.\<close>

definition decodedProperties :: "Properties \<Rightarrow> Properties option" where
  "decodedProperties p = (if p = emptyProperties then None else Some (normProperties p))"

lemma decodePropsLoop_encoded:
  assumes "wseq (encodePropsHead p @ encodePropsTail p) = Inr data"
    and "validateProperties (Some p) l = Inr ()" "wireable l p"
  shows "decodePropsLoop l (\<lambda>_. False) emptyProperties data = (Inr (normProperties p), [])"
  using encodeProps_chunk [OF assms, unfolded chunk_def, rule_format, of "\<lambda>_. False" "[]"]
  by auto

lemma decodeProperties_encode [rd_simps]:
  assumes e: "encodeProperties p l = Inr bs" and w: "wireable l p"
    and n: "length bs < 2 ^ 28" "length (bs @ s) < 2 ^ 32"
  shows "decodeProperties l (bs @ s) = (Inr (decodedProperties p), s)"
proof -
  from e obtain u data where v': "validateProperties (Some p) l = Inr u"
    and d: "wseq (encodePropsHead p @ encodePropsTail p) = Inr data"
    and bs': "(if data = [] then Inr (writeVarInt 0)
      else Inr (writeVarInt (of_nat (length data)) @ data)) = (Inr bs :: byte list res)"
    unfolding encodeProperties_def rbind_eq_Inr by blast
  from v' have v: "validateProperties (Some p) l = Inr ()" by simp
  from bs' have bs: "bs = (if data = [] then writeVarInt 0
      else writeVarInt (of_nat (length data)) @ data)" by (simp split: if_splits)
  show ?thesis
  proof (cases "data = []")
    case True
    then have "p = emptyProperties" using d encodeProps_empty by simp
    with True bs show ?thesis by (simp add: decodeProperties_def decodedProperties_def)
  next
    case False
    then have ne: "p \<noteq> emptyProperties" using d encodeProps_empty [of p] by auto
    have len: "length data < 2 ^ 28" "length (data @ s) < 2 ^ 32" using n bs False by simp_all
    then have u: "unat (of_nat (length data) :: u32) = length data" by (simp add: unat_of_nat)
    have nz: "(of_nat (length data) :: u32) \<noteq> 0"
      using u False by (metis length_0_conv unat_0)
    have le: "\<not> (of_nat (length (data @ s)) :: u32) < of_nat (length data)"
      by (rule of_nat_u32_not_less) (use len in auto)
    show ?thesis
      using False ne len u nz le decodePropsLoop_encoded [OF d v w]
      by (simp add: bs decodeProperties_def decodedProperties_def)
  qed
qed

section \<open>What the decoder accepts\<close>

text \<open>
  The invariant of the decoder loop: every value and locus rule the encoder checks holds, the
  set is one the wire can carry, and every string is a legal MQTT string.
\<close>

definition stringFits :: "gostring \<Rightarrow> bool" where
  "stringFits x \<longleftrightarrow> length x \<le> 65535 \<and> validateUTF8 x = Inr ()"

definition stringsFit :: "Properties \<Rightarrow> bool" where
  "stringsFit p \<longleftrightarrow>
     stringFits (ContentType p) \<and> stringFits (ResponseTopic p) \<and> stringFits (AssignedClientID p) \<and>
     stringFits (AuthenticationMethod p) \<and> stringFits (ResponseInfo p) \<and>
     stringFits (ServerReference p) \<and> stringFits (ReasonString p) \<and>
     (\<forall>up \<in> set (UserProperties p). stringFits (up_Key up) \<and> stringFits (up_Value up))"

definition canonicalBinary :: "byte list option \<Rightarrow> bool" where
  "canonicalBinary v \<longleftrightarrow> binaryFits v \<and> v \<noteq> Some []"

definition decodedInv :: "propertyLocus \<Rightarrow> Properties \<Rightarrow> bool" where
  "decodedInv l p \<longleftrightarrow>
     validateProperties (Some p) l = Inr () \<and> stringsFit p \<and>
     canonicalBinary (CorrelationData p) \<and> canonicalBinary (AuthenticationData p) \<and>
     (\<forall>n \<in> set (SubscriptionIdentifier p). unat n < 2 ^ 28) \<and> length (UserProperties p) \<le> 100"

lemma readStringFromReader_fits:
  assumes "readStringFromReader s = (Inr x, t)"
  shows "stringFits x"
proof -
  have "be16 b0 b1 \<le> 65535" for b0 b1 by (simp only: be16_def be_bound)
  with assms show ?thesis
    by (auto simp: readStringFromReader_def rthen_eq_Inr readFull_eq_Inr Let_def stringFits_def
        split: if_splits)
qed

lemma readBinaryDataFromReader_fits:
  assumes "readBinaryDataFromReader s = (Inr v, t)"
  shows "canonicalBinary v"
proof -
  have "be16 b0 b1 \<le> 65535" for b0 b1 by (simp only: be16_def be_bound)
  with assms show ?thesis
    by (auto simp: readBinaryDataFromReader_def rthen_eq_Inr readFull_eq_Inr Let_def
        canonicalBinary_def binaryFits_def split: if_splits)
qed

lemma locus_ok:
  "validatePropertyLoci (Some p) l = Inr () \<longleftrightarrow> (\<forall>(t, isset) \<in> set propertyProbes. isset p \<longrightarrow> propAllowed t l)"
  by (simp add: validatePropertyLoci_def probeLoop_ok)

lemmas decodedInv_simps = decodedInv_def validateProperties_ok locus_ok propertyProbes_def
  stringsFit_def someGt1_def

text \<open>Storing one accepted value keeps the invariant, one fact per identifier.\<close>

named_theorems decoded_inv \<open>an accepted value keeps the decoder's invariant\<close>

lemma decodedInv_flags [decoded_inv]:
  "\<lbrakk>decodedInv l p; propAllowed 0x01 l; \<not> 1 < v\<rbrakk> \<Longrightarrow> decodedInv l (p\<lparr>PayloadFormat := Some v\<rparr>)"
  "\<lbrakk>decodedInv l p; propAllowed 0x17 l; \<not> 1 < v\<rbrakk> \<Longrightarrow> decodedInv l (p\<lparr>RequestProblemInfo := Some v\<rparr>)"
  "\<lbrakk>decodedInv l p; propAllowed 0x19 l; \<not> 1 < v\<rbrakk> \<Longrightarrow> decodedInv l (p\<lparr>RequestResponseInfo := Some v\<rparr>)"
  "\<lbrakk>decodedInv l p; propAllowed 0x24 l; \<not> 1 < v\<rbrakk> \<Longrightarrow> decodedInv l (p\<lparr>MaximumQoS := Some v\<rparr>)"
  "\<lbrakk>decodedInv l p; propAllowed 0x25 l; \<not> 1 < v\<rbrakk> \<Longrightarrow> decodedInv l (p\<lparr>RetainAvailable := Some v\<rparr>)"
  "\<lbrakk>decodedInv l p; propAllowed 0x28 l; \<not> 1 < v\<rbrakk> \<Longrightarrow> decodedInv l (p\<lparr>WildcardSubAvailable := Some v\<rparr>)"
  "\<lbrakk>decodedInv l p; propAllowed 0x29 l; \<not> 1 < v\<rbrakk> \<Longrightarrow> decodedInv l (p\<lparr>SubIDAvailable := Some v\<rparr>)"
  "\<lbrakk>decodedInv l p; propAllowed 0x2A l; \<not> 1 < v\<rbrakk> \<Longrightarrow> decodedInv l (p\<lparr>SharedSubAvailable := Some v\<rparr>)"
  by (simp_all add: decodedInv_simps)

lemma decodedInv_integers [decoded_inv]:
  "\<lbrakk>decodedInv l p; propAllowed 0x13 l\<rbrakk> \<Longrightarrow> decodedInv l (p\<lparr>ServerKeepAlive := Some v\<rparr>)"
  "\<lbrakk>decodedInv l p; propAllowed 0x22 l\<rbrakk> \<Longrightarrow> decodedInv l (p\<lparr>TopicAliasMaximum := Some v\<rparr>)"
  "\<lbrakk>decodedInv l p; propAllowed 0x02 l\<rbrakk> \<Longrightarrow> decodedInv l (p\<lparr>MessageExpiryInterval := Some w\<rparr>)"
  "\<lbrakk>decodedInv l p; propAllowed 0x11 l\<rbrakk> \<Longrightarrow> decodedInv l (p\<lparr>SessionExpiryInterval := Some w\<rparr>)"
  "\<lbrakk>decodedInv l p; propAllowed 0x18 l\<rbrakk> \<Longrightarrow> decodedInv l (p\<lparr>WillDelayInterval := Some w\<rparr>)"
  "\<lbrakk>decodedInv l p; propAllowed 0x21 l; v \<noteq> 0\<rbrakk> \<Longrightarrow> decodedInv l (p\<lparr>ReceiveMaximum := Some v\<rparr>)"
  "\<lbrakk>decodedInv l p; propAllowed 0x23 l; v \<noteq> 0\<rbrakk> \<Longrightarrow> decodedInv l (p\<lparr>TopicAlias := Some v\<rparr>)"
  "\<lbrakk>decodedInv l p; propAllowed 0x27 l; w \<noteq> 0\<rbrakk> \<Longrightarrow> decodedInv l (p\<lparr>MaximumPacketSize := Some w\<rparr>)"
  by (simp_all add: decodedInv_simps)

lemma decodedInv_strings [decoded_inv]:
  "\<lbrakk>decodedInv l p; propAllowed 0x03 l; stringFits v\<rbrakk> \<Longrightarrow> decodedInv l (p\<lparr>ContentType := v\<rparr>)"
  "\<lbrakk>decodedInv l p; propAllowed 0x08 l; stringFits v\<rbrakk> \<Longrightarrow> decodedInv l (p\<lparr>ResponseTopic := v\<rparr>)"
  "\<lbrakk>decodedInv l p; propAllowed 0x12 l; stringFits v\<rbrakk> \<Longrightarrow> decodedInv l (p\<lparr>AssignedClientID := v\<rparr>)"
  "\<lbrakk>decodedInv l p; propAllowed 0x15 l; stringFits v\<rbrakk> \<Longrightarrow> decodedInv l (p\<lparr>AuthenticationMethod := v\<rparr>)"
  "\<lbrakk>decodedInv l p; propAllowed 0x1A l; stringFits v\<rbrakk> \<Longrightarrow> decodedInv l (p\<lparr>ResponseInfo := v\<rparr>)"
  "\<lbrakk>decodedInv l p; propAllowed 0x1C l; stringFits v\<rbrakk> \<Longrightarrow> decodedInv l (p\<lparr>ServerReference := v\<rparr>)"
  "\<lbrakk>decodedInv l p; propAllowed 0x1F l; stringFits v\<rbrakk> \<Longrightarrow> decodedInv l (p\<lparr>ReasonString := v\<rparr>)"
  by (simp_all add: decodedInv_simps)

lemma decodedInv_binary [decoded_inv]:
  "\<lbrakk>decodedInv l p; propAllowed 0x09 l; canonicalBinary v\<rbrakk> \<Longrightarrow> decodedInv l (p\<lparr>CorrelationData := v\<rparr>)"
  "\<lbrakk>decodedInv l p; propAllowed 0x16 l; canonicalBinary v\<rbrakk> \<Longrightarrow> decodedInv l (p\<lparr>AuthenticationData := v\<rparr>)"
  by (simp_all add: decodedInv_simps)

lemma decodedInv_lists [decoded_inv]:
  "\<lbrakk>decodedInv l p; propAllowed 0x0B l; n \<noteq> 0; unat n < 2 ^ 28\<rbrakk>
     \<Longrightarrow> decodedInv l (p\<lparr>SubscriptionIdentifier := SubscriptionIdentifier p @ [n]\<rparr>)"
  "\<lbrakk>decodedInv l p; propAllowed 0x26 l; length (UserProperties p) < 100; stringFits k; stringFits v\<rbrakk>
     \<Longrightarrow> decodedInv l (p\<lparr>UserProperties := UserProperties p @ [\<lparr>up_Key = k, up_Value = v\<rparr>]\<rparr>)"
  by (auto simp: decodedInv_simps)

lemma decodePropHigh_inv:
  assumes "decodePropHigh t p s = (Inr p', s')" "propAllowed t l" "decodedInv l p"
  shows "decodedInv l p'"
  using assms unfolding decodePropHigh_def getFlag_def
  by (auto simp: rthen_eq_Inr not_le intro!: decoded_inv intro: readStringFromReader_fits
      split: if_split_asm)

lemma decodePropLow_inv:
  assumes "decodePropLow t p s = (Inr p', s')" "propAllowed t l" "decodedInv l p"
  shows "decodedInv l p'"
  using assms decodePropHigh_inv [of t p s p' s' l] unfolding decodePropLow_def getFlag_def
  by (auto simp: rthen_eq_Inr intro!: decoded_inv split: if_split_asm
      dest: readStringFromReader_fits readBinaryDataFromReader_fits readVarIntFromReader_bound)

lemma decodePropsLoop_inv:
  "decodePropsLoop l seen p s = (Inr p', s') \<Longrightarrow> decodedInv l p \<Longrightarrow> decodedInv l p' \<and> s' = []"
proof (induction l seen p s rule: decodePropsLoop.induct)
  case (1 l seen p)
  then show ?case by simp
next
  case (2 l seen p t s)
  from "2.prems"(1) obtain ls p1 s1 where ls: "propertyLoci t = Some ls" "l \<in> set ls"
    "\<not> (seen t \<and> \<not> propertyMayRepeat l t)" and d: "decodePropLow t p s = (Inr p1, s1)"
    and r: "decodePropsLoop l (seen(t := True)) p1 s1 = (Inr p', s')"
    by (auto split: option.splits if_splits prod.splits sum.splits)
  have "decodedInv l p1"
    using decodePropLow_inv [OF d _ "2.prems"(2)] ls by (simp add: propAllowed_def)
  then show ?case using "2.IH" [OF ls(1) _ ls(3) d [symmetric] refl r] ls(2) by simp
qed

lemma decodedInv_empty: "decodedInv l emptyProperties"
proof -
  have "validateUTF8 [] = Inr ()" by code_simp
  then show ?thesis
    by (simp add: decodedInv_simps emptyProperties_def stringFits_def canonicalBinary_def binaryFits_def)
qed

text \<open>At most one Subscription Identifier outside PUBLISH: the occurrence array counts it.\<close>

lemma decodePropHigh_ids:
  "decodePropHigh t p s = (Inr p', s') \<Longrightarrow> SubscriptionIdentifier p' = SubscriptionIdentifier p"
  unfolding decodePropHigh_def getFlag_def by (auto simp: rthen_eq_Inr split: if_split_asm)

lemma decodePropLow_ids:
  "decodePropLow t p s = (Inr p', s') \<Longrightarrow> t \<noteq> 0x0B \<Longrightarrow> SubscriptionIdentifier p' = SubscriptionIdentifier p"
  using decodePropHigh_ids [of t p s p' s'] unfolding decodePropLow_def getFlag_def
  by (auto simp: rthen_eq_Inr split: if_split_asm)

lemma decodePropLow_one_id:
  "decodePropLow 0x0B p s = (Inr p', s') \<Longrightarrow>
   length (SubscriptionIdentifier p') = Suc (length (SubscriptionIdentifier p))"
  unfolding decodePropLow_def getFlag_def by (auto simp: rthen_eq_Inr split: if_split_asm)

definition idsSeen :: "(byte \<Rightarrow> bool) \<Rightarrow> Properties \<Rightarrow> bool" where
  "idsSeen seen p \<longleftrightarrow> length (SubscriptionIdentifier p) \<le> (if seen 0x0B then 1 else 0)"

lemma decodePropLow_idsSeen:
  assumes d: "decodePropLow t p s = (Inr p', s')" and i: "idsSeen seen p"
    and r: "\<not> (seen t \<and> \<not> propertyMayRepeat l t)" "l \<noteq> locusPublish"
  shows "idsSeen (seen(t := True)) p'"
proof (cases "t = 0x0B")
  case True
  then have "\<not> seen 0x0B" using r by (auto simp: propertyMayRepeat_def)
  with decodePropLow_one_id [OF d [unfolded True]] i True show ?thesis by (simp add: idsSeen_def)
next
  case False
  with decodePropLow_ids [OF d] i show ?thesis by (simp add: idsSeen_def)
qed

lemma decodePropsLoop_ids:
  "decodePropsLoop l seen p s = (Inr p', s') \<Longrightarrow> idsSeen seen p \<Longrightarrow> l \<noteq> locusPublish \<Longrightarrow>
   length (SubscriptionIdentifier p') \<le> 1"
proof (induction l seen p s rule: decodePropsLoop.induct)
  case (1 l seen p)
  then show ?case by (simp add: idsSeen_def split: if_splits)
next
  case (2 l seen p t s)
  from "2.prems"(1) obtain ls p1 s1 where ls: "propertyLoci t = Some ls" "l \<in> set ls"
    "\<not> (seen t \<and> \<not> propertyMayRepeat l t)" and d: "decodePropLow t p s = (Inr p1, s1)"
    and r: "decodePropsLoop l (seen(t := True)) p1 s1 = (Inr p', s')"
    by (auto split: option.splits if_splits prod.splits sum.splits)
  have "idsSeen (seen(t := True)) p1"
    by (rule decodePropLow_idsSeen [OF d "2.prems"(2) ls(3) "2.prems"(3)])
  then show ?case using "2.IH" [OF ls(1) _ ls(3) d [symmetric] refl r] ls(2) "2.prems"(3) by (simp add: fun_upd_def)
qed

lemma decodeProperties_inv:
  assumes "decodeProperties l s = (Inr (Some p), t)"
  shows "decodedInv l p" "wireable l p"
proof -
  from assms obtain buf r where d: "decodePropsLoop l (\<lambda>_. False) emptyProperties buf = (Inr p, r)"
    by (auto simp: decodeProperties_def rthen_eq_Inr rbind_eq_Inr split: if_splits)
       (metis prod.collapse)
  show *: "decodedInv l p" using decodePropsLoop_inv [OF d decodedInv_empty] by simp
  have "idsSeen (\<lambda>_. False) emptyProperties" by (simp add: idsSeen_def emptyProperties_def)
  from decodePropsLoop_ids [OF d this] * show "wireable l p"
    by (auto simp: wireable_def decodedInv_def canonicalBinary_def)
qed

text \<open>A decoded set passes the encoder and is its own normal form.\<close>

lemma writeString_fits: "stringFits x \<Longrightarrow> \<exists>b. writeString x = Inr b"
  by (auto simp: writeString_def stringFits_def)

lemma wseq_ok: "(\<And>w. w \<in> set ws \<Longrightarrow> \<exists>b. w = Inr b) \<Longrightarrow> \<exists>bs. wseq ws = Inr bs"
proof (induction ws)
  case (Cons w ws)
  from Cons.prems obtain b where "w = Inr b" by auto
  moreover from Cons obtain bs where "wseq ws = Inr bs" by auto
  ultimately show ?case by simp
qed simp

lemma put_ok:
  "\<exists>b. putByte t v = Inr b" "\<exists>b. putUint16 t n = Inr b" "\<exists>b. putUint32 t m = Inr b"
  "\<exists>b. putBinary t d = Inr b" "stringFits x \<Longrightarrow> \<exists>b. putString t x = Inr b"
  "\<exists>b. putSubscriptionIdentifiers ids = Inr b"
  using writeString_fits [of x]
  by (auto simp: putByte_def putUint16_def putUint32_def putBinary_def putString_def
      putSubscriptionIdentifiers_def split: option.splits)

lemma putUserProperties_ok:
  "\<forall>up \<in> set ups. stringFits (up_Key up) \<and> stringFits (up_Value up) \<Longrightarrow> \<exists>b. putUserProperties ups = Inr b"
  unfolding putUserProperties_def by (rule wseq_ok) (fastforce dest: writeString_fits)

lemma decodedInv_encodes:
  assumes "decodedInv l p"
  shows "\<exists>bs. encodeProperties p l = Inr bs"
proof -
  from assms have s: "stringsFit p" and v: "validateProperties (Some p) l = Inr ()"
    by (simp_all add: decodedInv_def)
  have "\<exists>data. wseq (encodePropsHead p @ encodePropsTail p) = Inr data"
    using s by (intro wseq_ok)
      (auto simp: encodePropsHead_def encodePropsTail_def stringsFit_def intro: put_ok putUserProperties_ok)
  then show ?thesis by (auto simp: encodeProperties_def v)
qed

lemma decodedInv_norm: "decodedInv l p \<Longrightarrow> normProperties p = p"
  by (cases p) (auto simp: decodedInv_def normProperties_def canonicalBinary_def normBinary_def)

end
