(* ===== verification/Packets.thy ===== *)
theory Packets
  imports Properties
begin

text \<open>
  The packet data of \<^verbatim>\<open>src/protocol/packets.go\<close>, the per-version capability tables of
  \<^verbatim>\<open>src/protocol/spec.go\<close>, the state of a codec and the fixed header of
  \<^verbatim>\<open>src/protocol/codec.go\<close>. Lemmas: the fixed header survives the wire, its Remaining
  Length is minimal, below 2 to the 28 and at most four bytes, and the cached capability table
  of a codec is always the one of its version.
\<close>

section \<open>Protocol versions\<close>

abbreviation (input) "Version31 \<equiv> 3 :: byte"
abbreviation (input) "Version311 \<equiv> 4 :: byte"
abbreviation (input) "Version50 \<equiv> 5 :: byte"

definition ProtocolNameMQTT :: gostring where
  "ProtocolNameMQTT = [0x4D, 0x51, 0x54, 0x54]"

definition ProtocolNameMQIsdp :: gostring where
  "ProtocolNameMQIsdp = [0x4D, 0x51, 0x49, 0x73, 0x64, 0x70]"

record Spec =
  sp_Version :: byte
  sp_Name :: gostring
  sp_AllowEmptyID :: bool
  sp_MaxClientIDLen :: nat
  sp_ConnAckSessionPresent :: bool
  sp_ConnAckHasReasonCode :: bool
  sp_SubAckFailureSupported :: bool
  sp_Properties :: bool
  sp_ReasonCodes :: bool
  sp_ServerDisconnect :: bool
  sp_TopicAlias :: bool
  sp_AuthPacket :: bool
  sp_RetransmitUnacked :: bool

definition zeroSpec :: Spec where
  "zeroSpec = \<lparr> sp_Version = 0, sp_Name = [], sp_AllowEmptyID = False, sp_MaxClientIDLen = 0,
     sp_ConnAckSessionPresent = False, sp_ConnAckHasReasonCode = False,
     sp_SubAckFailureSupported = False, sp_Properties = False, sp_ReasonCodes = False,
     sp_ServerDisconnect = False, sp_TopicAlias = False, sp_AuthPacket = False,
     sp_RetransmitUnacked = False \<rparr>"

definition specV31 :: Spec where
  "specV31 = zeroSpec\<lparr> sp_Version := Version31, sp_Name := ProtocolNameMQIsdp,
     sp_AllowEmptyID := False, sp_MaxClientIDLen := 23, sp_RetransmitUnacked := True \<rparr>"

definition specV311 :: Spec where
  "specV311 = zeroSpec\<lparr> sp_Version := Version311, sp_Name := ProtocolNameMQTT,
     sp_AllowEmptyID := True, sp_MaxClientIDLen := 0, sp_ConnAckSessionPresent := True,
     sp_SubAckFailureSupported := True, sp_RetransmitUnacked := True \<rparr>"

definition specV50 :: Spec where
  "specV50 = zeroSpec\<lparr> sp_Version := Version50, sp_Name := ProtocolNameMQTT,
     sp_AllowEmptyID := True, sp_MaxClientIDLen := 0, sp_ConnAckSessionPresent := True,
     sp_ConnAckHasReasonCode := True, sp_SubAckFailureSupported := True, sp_Properties := True,
     sp_ReasonCodes := True, sp_ServerDisconnect := True, sp_TopicAlias := True,
     sp_AuthPacket := True, sp_RetransmitUnacked := False \<rparr>"

definition SpecOf :: "byte \<Rightarrow> Spec \<times> bool" where
  "SpecOf v =
     (if v = Version31 then (specV31, True)
      else if v = Version311 then (specV311, True)
      else if v = Version50 then (specV50, True)
      else (zeroSpec, False))"

section \<open>The codec\<close>

text \<open>
  The buffer pool of a Go codec only supplies transient buffers of the requested length, so it
  is not part of the state. \<open>outboundMax\<close> is never negative after its setter.
\<close>

record Codec =
  maxPacketSize :: nat
  protocolVersion :: byte
  spec :: Spec
  outboundMax :: nat

definition syncSpec :: "Codec \<Rightarrow> Codec" where
  "syncSpec c =
     (if sp_Version (spec c) = protocolVersion c then c
      else case SpecOf (protocolVersion c) of
          (sp, True) \<Rightarrow> c\<lparr>spec := sp\<rparr>
        | (_, False) \<Rightarrow> c\<lparr>spec := fst (SpecOf Version311)\<rparr>)"

definition setVersion :: "Codec \<Rightarrow> byte \<Rightarrow> Codec" where
  "setVersion c v = syncSpec (c\<lparr>protocolVersion := v\<rparr>)"

definition NewCodec :: "int \<Rightarrow> Codec" where
  "NewCodec n = setVersion
     \<lparr> maxPacketSize = (if n \<le> 0 then 256 * 1024 else nat n), protocolVersion = 0,
       spec = zeroSpec, outboundMax = 0 \<rparr> Version311"

definition NewCodecForVersion :: "int \<Rightarrow> byte \<Rightarrow> Codec" where
  "NewCodecForVersion n v = setVersion (NewCodec n) v"

definition Codec_Spec :: "Codec \<Rightarrow> Spec \<times> Codec" where
  "Codec_Spec c = (spec (syncSpec c), syncSpec c)"

definition SetOutboundMaxPacketSize :: "Codec \<Rightarrow> int \<Rightarrow> Codec" where
  "SetOutboundMaxPacketSize c n = c\<lparr>outboundMax := nat (if n < 0 then 0 else n)\<rparr>"

section \<open>Packets\<close>

abbreviation (input) "PacketTypeConnect \<equiv> 1 :: byte"
abbreviation (input) "PacketTypeConnAck \<equiv> 2 :: byte"
abbreviation (input) "PacketTypePublish \<equiv> 3 :: byte"
abbreviation (input) "PacketTypePubAck \<equiv> 4 :: byte"
abbreviation (input) "PacketTypePubRec \<equiv> 5 :: byte"
abbreviation (input) "PacketTypePubRel \<equiv> 6 :: byte"
abbreviation (input) "PacketTypePubComp \<equiv> 7 :: byte"
abbreviation (input) "PacketTypeSubscribe \<equiv> 8 :: byte"
abbreviation (input) "PacketTypeSubAck \<equiv> 9 :: byte"
abbreviation (input) "PacketTypeUnsubscribe \<equiv> 10 :: byte"
abbreviation (input) "PacketTypeUnsubAck \<equiv> 11 :: byte"
abbreviation (input) "PacketTypePingReq \<equiv> 12 :: byte"
abbreviation (input) "PacketTypePingResp \<equiv> 13 :: byte"
abbreviation (input) "PacketTypeDisconnect \<equiv> 14 :: byte"
abbreviation (input) "PacketTypeAuth \<equiv> 15 :: byte"

record FixedHeader =
  fh_PacketType :: byte
  fh_Dup :: bool
  fh_QoS :: byte
  fh_Retain :: bool
  fh_RemainingLength :: nat
  fh_HeaderSize :: nat

record ConnectFlags =
  cf_UsernameFlag :: bool
  cf_PasswordFlag :: bool
  cf_WillRetain :: bool
  cf_WillQoS :: byte
  cf_WillFlag :: bool
  cf_WillTopicFlag :: bool
  cf_CleanSession :: bool
  cf_Reserved :: bool

text \<open>
  A \<open>[]byte\<close> field of a packet is only ever measured and copied by the codec, never compared
  with nil, so nil and the empty slice are both the empty list; \<open>*Properties\<close> is compared with
  nil and is an option.
\<close>

record ConnectPacket =
  cp_fh :: FixedHeader
  cp_ProtocolName :: gostring
  cp_ProtocolVersion :: byte
  cp_Flags :: ConnectFlags
  cp_KeepAlive :: u16
  cp_ClientID :: gostring
  cp_WillTopic :: gostring
  cp_WillMessage :: "byte list"
  cp_Username :: gostring
  cp_Password :: "byte list"
  cp_Properties :: "Properties option"
  cp_WillProperties :: "Properties option"

record ConnAckPacket =
  ca_fh :: FixedHeader
  ca_ReasonCode :: byte
  ca_SessionPresent :: bool
  ca_Properties :: "Properties option"

record PublishPacket =
  pp_fh :: FixedHeader
  pp_PacketID :: u16
  pp_Topic :: gostring
  pp_Payload :: "byte list"
  pp_Properties :: "Properties option"

text \<open>PUBACK, PUBREC, PUBREL and PUBCOMP have the same fields; so have SUBACK and UNSUBACK.\<close>

record AckPacket =
  ak_fh :: FixedHeader
  ak_PacketID :: u16
  ak_ReasonCode :: byte
  ak_Properties :: "Properties option"

record TopicFilter =
  tf_Topic :: gostring
  tf_QoS :: byte
  tf_NoLocal :: bool
  tf_RetainAsPublished :: bool
  tf_RetainHandling :: byte
  tf_SubscriptionIdentifier :: "u32 option"

record SubscribePacket =
  sb_fh :: FixedHeader
  sb_PacketID :: u16
  sb_Topics :: "TopicFilter list"
  sb_Properties :: "Properties option"

record SubAckPacket =
  sa_fh :: FixedHeader
  sa_PacketID :: u16
  sa_ReasonCodes :: "byte list"
  sa_Properties :: "Properties option"

record UnsubscribePacket =
  us_fh :: FixedHeader
  us_PacketID :: u16
  us_Topics :: "gostring list"
  us_Properties :: "Properties option"

record PingPacket =
  pg_fh :: FixedHeader

text \<open>DISCONNECT and AUTH have the same fields.\<close>

record ReasonPacket =
  rp_fh :: FixedHeader
  rp_ReasonCode :: byte
  rp_Properties :: "Properties option"

datatype Packet =
    Connect ConnectPacket
  | ConnAck ConnAckPacket
  | Publish PublishPacket
  | PubAck AckPacket
  | PubRec AckPacket
  | PubRel AckPacket
  | PubComp AckPacket
  | Subscribe SubscribePacket
  | SubAck SubAckPacket
  | Unsubscribe UnsubscribePacket
  | UnsubAck SubAckPacket
  | PingReq PingPacket
  | PingResp PingPacket
  | Disconnect ReasonPacket
  | Auth ReasonPacket

fun GetFixedHeader :: "Packet \<Rightarrow> FixedHeader" where
  "GetFixedHeader (Connect p) = cp_fh p"
| "GetFixedHeader (ConnAck p) = ca_fh p"
| "GetFixedHeader (Publish p) = pp_fh p"
| "GetFixedHeader (PubAck p) = ak_fh p"
| "GetFixedHeader (PubRec p) = ak_fh p"
| "GetFixedHeader (PubRel p) = ak_fh p"
| "GetFixedHeader (PubComp p) = ak_fh p"
| "GetFixedHeader (Subscribe p) = sb_fh p"
| "GetFixedHeader (SubAck p) = sa_fh p"
| "GetFixedHeader (Unsubscribe p) = us_fh p"
| "GetFixedHeader (UnsubAck p) = sa_fh p"
| "GetFixedHeader (PingReq p) = pg_fh p"
| "GetFixedHeader (PingResp p) = pg_fh p"
| "GetFixedHeader (Disconnect p) = rp_fh p"
| "GetFixedHeader (Auth p) = rp_fh p"

section \<open>The fixed header\<close>

definition validateFixedHeaderFlags :: "FixedHeader \<Rightarrow> unit res" where
  "validateFixedHeaderFlags fh =
     (if fh_PacketType fh = PacketTypePublish then
        (if fh_QoS fh = 3 then Inl ErrInvalidPacket else Inr ())
      else if fh_PacketType fh \<in> {PacketTypePubRel, PacketTypeSubscribe, PacketTypeUnsubscribe} then
        (if fh_QoS fh \<noteq> 1 \<or> fh_Retain fh then Inl ErrInvalidPacket else Inr ())
      else
        (if fh_Dup fh \<or> fh_QoS fh \<noteq> 0 \<or> fh_Retain fh then Inl ErrInvalidPacket else Inr ()))"

text \<open>The Remaining Length loop: \<open>n\<close> counts the bytes read so far.\<close>

fun remLenLoop :: "nat \<Rightarrow> nat \<Rightarrow> FixedHeader \<Rightarrow> FixedHeader rd" where
  "remLenLoop multiplier n fh [] = (Inl EOF, [])"
| "remLenLoop multiplier n fh (encodedByte # s) =
     (let n' = n + 1;
          fh' = fh\<lparr>fh_RemainingLength := fh_RemainingLength fh + unat (encodedByte AND 0x7F) * multiplier,
                   fh_HeaderSize := fh_HeaderSize fh + 1\<rparr>;
          multiplier' = multiplier * 128
      in if encodedByte AND 0x80 = 0 then
           (if 1 < n' \<and> encodedByte AND 0x7F = 0 then (Inl ErrInvalidPacket, s) else (Inr fh', s))
         else if 128 * 128 * 128 < multiplier' then (Inl ErrInvalidPacket, s)
         else remLenLoop multiplier' n' fh' s)"

text \<open>The header the first byte stands for, with the length fields given.\<close>

definition headerOf :: "byte \<Rightarrow> nat \<Rightarrow> nat \<Rightarrow> FixedHeader" where
  "headerOf b len hsize =
     \<lparr> fh_PacketType = drop_bit 4 b AND 0x0F, fh_Dup = (b AND 0x08 \<noteq> 0),
       fh_QoS = drop_bit 1 b AND 0x03, fh_Retain = (b AND 0x01 \<noteq> 0),
       fh_RemainingLength = len, fh_HeaderSize = hsize \<rparr>"

definition decodeFixedHeader :: "FixedHeader rd" where
  "decodeFixedHeader = rthen (readFull 1) (\<lambda>buf. remLenLoop 1 0 (headerOf (buf ! 0) 0 1))"

fun encodeRemLen :: "nat \<Rightarrow> byte list" where
  "encodeRemLen n =
     (let encodedByte = (of_nat (n mod 128) :: byte); n' = n div 128
      in if 0 < n' then (encodedByte OR 0x80) # encodeRemLen n' else [encodedByte])"

declare encodeRemLen.simps [simp del]

definition firstByte :: "FixedHeader \<Rightarrow> byte" where
  "firstByte fh =
     (push_bit 4 (fh_PacketType fh) OR (if fh_Dup fh then 0x08 else 0) OR
      push_bit 1 (fh_QoS fh AND 0x03) OR (if fh_Retain fh then 0x01 else 0))"

definition encodeFixedHeader :: "FixedHeader \<Rightarrow> byte list" where
  "encodeFixedHeader fh = firstByte fh # encodeRemLen (fh_RemainingLength fh)"

section \<open>Versions\<close>

text \<open>The capability table a version is bound to: 3.1.1 for one the table does not list.\<close>

definition specFor :: "byte \<Rightarrow> Spec" where
  "specFor v = (if snd (SpecOf v) then fst (SpecOf v) else specV311)"

definition codecWf :: "Codec \<Rightarrow> bool" where
  "codecWf c \<longleftrightarrow> spec c = specFor (protocolVersion c)"

lemmas spec_simps = specFor_def SpecOf_def specV31_def specV311_def specV50_def zeroSpec_def

lemma specFor_version: "sp_Version (specFor v) = w \<Longrightarrow> specFor w = specFor v"
  by (auto simp: spec_simps split: if_splits)

lemma syncSpec_wf: "codecWf c \<Longrightarrow> syncSpec c = c"
  by (cases c) (auto simp: syncSpec_def codecWf_def spec_simps)

lemma setVersion_wf: "codecWf c \<Longrightarrow> setVersion c v = c\<lparr>protocolVersion := v, spec := specFor v\<rparr>"
  by (cases c) (auto simp: setVersion_def syncSpec_def codecWf_def spec_simps split: if_splits)

lemma codecWf_ops:
  "codecWf (NewCodec n)" "codecWf c \<Longrightarrow> codecWf (setVersion c v)"
  "codecWf c \<Longrightarrow> codecWf (SetOutboundMaxPacketSize c k)" "codecWf (NewCodecForVersion n v)"
proof -
  show n: "codecWf (NewCodec n)" by (simp add: NewCodec_def setVersion_def syncSpec_def codecWf_def spec_simps)
  show s: "codecWf c \<Longrightarrow> codecWf (setVersion c v)" for c v by (simp add: setVersion_wf codecWf_def)
  show "codecWf c \<Longrightarrow> codecWf (SetOutboundMaxPacketSize c k)"
    by (simp add: SetOutboundMaxPacketSize_def codecWf_def)
  show "codecWf (NewCodecForVersion n v)" unfolding NewCodecForVersion_def by (rule s [OF n])
qed

section \<open>The fixed header on the wire\<close>

lemma firstByte_bit: "n < 8 \<Longrightarrow> bit (firstByte fh) n = (if 4 \<le> n then bit (fh_PacketType fh) (n - 4)
   else if n = 3 then fh_Dup fh else if n = 0 then fh_Retain fh else bit (fh_QoS fh) (n - 1))"
  unfolding firstByte_def masks bit_or_iff bit_push_bit_iff bit_take_bit_iff if_bit byte_const_bits
  by auto

lemma firstByte_inverse: "firstByte (headerOf b n k) = b"
proof (rule byte_eqI)
  fix m :: nat assume m: "m < 8"
  show "bit (firstByte (headerOf b n k)) m = bit b m"
  unfolding firstByte_bit [OF m] headerOf_def masks byte_bits using m
  by (auto simp: bit_drop_bit_eq bit_take_bit_iff)
qed

lemma headerOf_firstByte:
  assumes "fh_PacketType fh < 16" "fh_QoS fh < 4"
  shows "headerOf (firstByte fh) n k = fh\<lparr>fh_RemainingLength := n, fh_HeaderSize := k\<rparr>"
proof -
  from assms have u: "unat (fh_PacketType fh) < 2 ^ 4" "unat (fh_QoS fh) < 2 ^ 2"
    by (simp_all add: word_less_nat_alt)
  have "take_bit 4 (drop_bit 4 (firstByte fh)) = fh_PacketType fh"
    using bit_small [OF u(1)]
    by (intro byte_eqI) (auto simp: bit_take_bit_iff bit_drop_bit_eq firstByte_bit)
  moreover have "take_bit 2 (drop_bit 1 (firstByte fh)) = fh_QoS fh"
  proof (rule byte_eqI)
    fix n :: nat
    show "bit (take_bit 2 (drop_bit 1 (firstByte fh))) n = bit (fh_QoS fh) n"
      using bit_small [OF u(2), of n]
      by (cases "n < 2") (auto simp: bit_take_bit_iff bit_drop_bit_eq firstByte_bit)
  qed
  ultimately show ?thesis
    unfolding headerOf_def masks byte_bits by (cases fh) (simp add: firstByte_bit)
qed

lemma headerOf_range: "drop_bit 4 b AND 0x0F < (16 :: byte)" "drop_bit 1 b AND 0x03 < (4 :: byte)"
  using take_bit_less [of 4 "drop_bit 4 b"] take_bit_less [of 2 "drop_bit 1 b"]
  by (simp_all add: masks word_less_nat_alt)

lemma encodeRemLen_eq_vbi: "encodeRemLen n = vbi n"
proof (induction n rule: encodeRemLen.induct)
  case (1 n)
  then show ?case
    by (cases "n < 128") (simp_all add: encodeRemLen.simps [of n] vbi.simps [of n] div_greater_zero_iff)
qed

lemma remLenLoop_vbi:
  "m < 128 ^ i \<Longrightarrow> i + n = 4 \<Longrightarrow> 0 < m \<or> n = 0 \<Longrightarrow> 0 < i \<Longrightarrow>
   remLenLoop (128 ^ n) n fh (vbi m @ s) =
     (Inr (fh\<lparr>fh_RemainingLength := fh_RemainingLength fh + m * 128 ^ n,
              fh_HeaderSize := fh_HeaderSize fh + length (vbi m)\<rparr>), s)"
proof (induction i arbitrary: m n fh)
  case (Suc i)
  show ?case
  proof (cases "m < 128")
    case True
    have "n = 0 \<or> 0 < m" using Suc.prems(3) by blast
    with True vbi_digit [of m] vbi_digit_zero [of m] show ?thesis
      by (simp add: vbi.simps [of m] Let_def del: of_nat_eq_0_iff)
  next
    case False
    with Suc.prems have i: "m div 128 < 128 ^ i" "0 < i"
      by (auto simp: less_mult_imp_div_less mult.commute intro: ccontr)
    have "n \<le> 2" using Suc.prems(2) i(2) by simp
    then have "(128::nat) ^ Suc n \<le> 128 ^ 3" by (intro power_increasing) auto
    then have "remLenLoop (128 ^ n) n fh (vbi m @ s) = remLenLoop (128 ^ Suc n) (Suc n)
        (fh\<lparr>fh_RemainingLength := fh_RemainingLength fh + (m mod 128) * 128 ^ n,
            fh_HeaderSize := fh_HeaderSize fh + 1\<rparr>) (vbi (m div 128) @ s)"
      using False by (simp add: vbi.simps [of m] vbi_digit Let_def mult.commute unat_of_nat)
    moreover have "m * 128 ^ n = (m mod 128) * 128 ^ n + (m div 128) * 128 ^ Suc n"
      by (simp only: power_Suc mult.assoc [symmetric] add_mult_distrib [symmetric]) simp
    ultimately show ?thesis
      using Suc.IH [of "m div 128" "Suc n"] i Suc.prems False
      by (simp add: vbi.simps [of m] div_greater_zero_iff)
  qed
qed simp

lemma remLenLoop_canonical:
  "remLenLoop (128 ^ n) n fh s = (Inr fh', t) \<Longrightarrow> n < 4 \<Longrightarrow>
   \<exists>m. s = vbi m @ t \<and> m < 128 ^ (4 - n) \<and> (0 < m \<or> n = 0) \<and>
     fh' = fh\<lparr>fh_RemainingLength := fh_RemainingLength fh + m * 128 ^ n,
              fh_HeaderSize := fh_HeaderSize fh + length (vbi m)\<rparr>"
proof (induction s arbitrary: n fh)
  case (Cons b s)
  define x where "x = unat (b AND 0x7F)"
  have x: "x < 128" unfolding x_def by (rule unat_and_7F)
  show ?case
  proof (cases "b AND 0x80 = 0")
    case True
    have "(128::nat) \<le> 128 ^ (4 - n)"
      using Cons.prems(2) power_increasing [of 1 "4 - n" "128::nat"] by simp
    with x have xb: "x < 128 ^ (4 - n)" by linarith
    have "of_nat x = b" unfolding x_def by (simp add: byte_split(1) [OF True])
    with x have v: "vbi x = [b]" by (simp add: vbi.simps [of x])
    have "0 < x \<or> n = 0" using Cons.prems(1) True unat_and_7F_0 [of b] unfolding x_def
      by (auto simp: Let_def split: if_splits)
    with Cons.prems(1) True xb v show ?thesis
      by (intro exI [of _ x]) (auto simp: Let_def x_def split: if_splits)
  next
    case False
    let ?fh = "fh\<lparr>fh_RemainingLength := fh_RemainingLength fh + x * 128 ^ n, fh_HeaderSize := fh_HeaderSize fh + 1\<rparr>"
    from False Cons.prems(1) have le: "(128::nat) ^ Suc n \<le> 128 ^ 3"
      and r: "remLenLoop (128 ^ Suc n) (Suc n) ?fh s = (Inr fh', t)"
      by (auto simp: Let_def x_def mult.commute split: if_splits)
    from le have "Suc n \<le> 3" by (rule power_le_imp_le_exp [rotated]) simp
    with Cons.IH [OF r] obtain m where m: "s = vbi m @ t" "m < 128 ^ (4 - Suc n)" "0 < m"
      "fh' = ?fh\<lparr>fh_RemainingLength := fh_RemainingLength ?fh + m * 128 ^ Suc n,
              fh_HeaderSize := fh_HeaderSize ?fh + length (vbi m)\<rparr>" by auto
    have "4 - n = Suc (4 - Suc n)" using Cons.prems(2) by simp
    with m(2) x have b: "x + m * 128 < 128 ^ (4 - n)" by simp
    have "of_nat x OR 0x80 = b" unfolding x_def by (simp add: byte_split(2) [OF False])
    with x m(3) have v: "vbi (x + m * 128) = b # vbi m" by (simp add: vbi.simps [of "x + m * 128"])
    show ?thesis using b v m by (intro exI [of _ "x + m * 128"]) (simp add: algebra_simps)
  qed
qed simp

definition wfHeader :: "FixedHeader \<Rightarrow> bool" where
  "wfHeader fh \<longleftrightarrow> fh_PacketType fh < 16 \<and> fh_QoS fh < 4 \<and> fh_RemainingLength fh < 2 ^ 28 \<and>
     fh_HeaderSize fh = length (encodeFixedHeader fh)"

text \<open>
  The decoder accepts exactly the encoder's output: a Remaining Length in the minimal number of
  bytes, at most four of them.
\<close>

lemma decodeFixedHeader_Cons: "decodeFixedHeader (b # s) = remLenLoop 1 0 (headerOf b 0 1) s"
  by (simp add: decodeFixedHeader_def rthen_def readFull_def)

lemma headerOf_simps [simp]:
  "fh_PacketType (headerOf b n k) = drop_bit 4 b AND 0x0F" "fh_QoS (headerOf b n k) = drop_bit 1 b AND 0x03"
  "fh_RemainingLength (headerOf b n k) = n" "fh_HeaderSize (headerOf b n k) = k"
  "(headerOf b n k)\<lparr>fh_RemainingLength := n', fh_HeaderSize := k'\<rparr> = headerOf b n' k'"
  by (simp_all add: headerOf_def)

lemma decodeFixedHeader_encode:
  assumes "fh_PacketType fh < 16" "fh_QoS fh < 4" "fh_RemainingLength fh < 2 ^ 28"
  shows "decodeFixedHeader (encodeFixedHeader fh @ s) =
     (Inr (fh\<lparr>fh_HeaderSize := length (encodeFixedHeader fh)\<rparr>), s)"
proof -
  have "fh_RemainingLength fh < 128 ^ 4" using assms(3) by simp
  from remLenLoop_vbi [of _ 4 0, OF this, where s = s and fh = "headerOf (firstByte fh) 0 1"] show ?thesis
    using assms by (simp add: encodeFixedHeader_def decodeFixedHeader_Cons encodeRemLen_eq_vbi headerOf_firstByte)
qed

lemma decodeFixedHeader_iff:
  "decodeFixedHeader s = (Inr fh, t) \<longleftrightarrow> s = encodeFixedHeader fh @ t \<and> wfHeader fh"
proof
  assume d: "decodeFixedHeader s = (Inr fh, t)"
  then obtain b u where s: "s = b # u"
    by (cases s) (auto simp: decodeFixedHeader_def rthen_def readFull_def)
  with d have "remLenLoop (128 ^ 0) 0 (headerOf b 0 1) u = (Inr fh, t)"
    by (simp add: decodeFixedHeader_Cons)
  from remLenLoop_canonical [OF this] obtain m where m: "u = vbi m @ t" "m < 128 ^ 4"
    and fh: "fh = headerOf b m (1 + length (vbi m))" by auto
  have e: "encodeFixedHeader fh = b # vbi m"
    by (simp add: encodeFixedHeader_def fh firstByte_inverse encodeRemLen_eq_vbi)
  then show "s = encodeFixedHeader fh @ t \<and> wfHeader fh"
    using m s headerOf_range [of b] by (simp add: wfHeader_def e) (simp add: fh)
next
  assume "s = encodeFixedHeader fh @ t \<and> wfHeader fh"
  then show "decodeFixedHeader s = (Inr fh, t)"
    using decodeFixedHeader_encode [of fh t] by (simp add: wfHeader_def)
qed

end
