(* ===== verification/Topic.thy ===== *)
theory Topic
  imports Prelude
begin

text \<open>
  Topic names and topic filters, \<^verbatim>\<open>src/protocol/topic.go\<close>: splitting into levels, the legality
  of a PUBLISH topic and of a subscription filter, and wildcard matching. Lemmas: the
  hand-written splitter computes \<^verbatim>\<open>strings.Split\<close> and is inverted by joining, the byte-wise
  filter check is the level-wise rule of the MQTT specification, and matching is the
  specification's relation on levels.
\<close>

abbreviation (input) "slashc \<equiv> 0x2F :: byte"
abbreviation (input) "hashc \<equiv> 0x23 :: byte"
abbreviation (input) "plusc \<equiv> 0x2B :: byte"

type_synonym level = gostring

section \<open>Definitions\<close>

fun noWildcard :: "gostring \<Rightarrow> bool" where
  "noWildcard [] = True"
| "noWildcard (b # s) = (if b = hashc \<or> b = plusc then False else noWildcard s)"

definition ValidatePublishTopic :: "gostring \<Rightarrow> bool" where
  "ValidatePublishTopic topic = (if length topic = 0 then False else noWildcard topic)"

text \<open>\<^verbatim>\<open>strings.Split(s, "/")\<close>: always at least one level.\<close>

fun Split :: "gostring \<Rightarrow> level list" where
  "Split [] = [[]]"
| "Split (b # s) = (if b = slashc then [] # Split s
                    else case Split s of l # ls \<Rightarrow> (b # l) # ls | [] \<Rightarrow> [[b]])"

text \<open>The index loop of \<open>SplitTopic\<close>, from position \<open>i\<close> with the current level starting at \<open>start\<close>.\<close>

function splitLoop :: "gostring \<Rightarrow> nat \<Rightarrow> nat \<Rightarrow> level list \<Rightarrow> level list" where
  "splitLoop topic start i parts =
     (if length topic < i then parts
      else if i = length topic \<or> topic ! i = slashc then
        splitLoop topic (i + 1) (i + 1) (parts @ [take (i - start) (drop start topic)])
      else splitLoop topic start (i + 1) parts)"
  by pat_completeness auto
termination by (relation "measure (\<lambda>(topic, start, i, parts). Suc (length topic) - i)") auto

declare splitLoop.simps [simp del]

definition SplitTopic :: "gostring \<Rightarrow> level list" where
  "SplitTopic topic = splitLoop topic 0 0 []"

text \<open>The loop of \<open>matchLevels\<close> at index \<open>i\<close>, the final length comparison included.\<close>

function matchLoop :: "level list \<Rightarrow> level list \<Rightarrow> nat \<Rightarrow> bool" where
  "matchLoop patternLevels topicLevels i =
     (if i < length patternLevels then
        (let pattern = patternLevels ! i
         in if pattern = [hashc] then True
            else if length topicLevels \<le> i then False
            else if pattern = [plusc] then matchLoop patternLevels topicLevels (i + 1)
            else if pattern \<noteq> topicLevels ! i then False
            else matchLoop patternLevels topicLevels (i + 1))
      else length patternLevels = length topicLevels)"
  by pat_completeness auto
termination by (relation "measure (\<lambda>(ps, ts, i). length ps - i)") auto

declare matchLoop.simps [simp del]

definition matchLevels :: "level list \<Rightarrow> level list \<Rightarrow> bool" where
  "matchLevels patternLevels topicLevels = matchLoop patternLevels topicLevels 0"

definition MatchTopic :: "gostring \<Rightarrow> gostring \<Rightarrow> bool" where
  "MatchTopic pattern topic = matchLevels (Split pattern) (Split topic)"

text \<open>The switch of \<open>ValidateTopicFilter\<close> at position \<open>i\<close>, and its loop.\<close>

definition filterByteOk :: "gostring \<Rightarrow> nat \<Rightarrow> bool" where
  "filterByteOk flt i =
     (if flt ! i = hashc then
        (if i \<noteq> length flt - 1 then False
         else if 0 < i \<and> flt ! (i - 1) \<noteq> slashc then False else True)
      else if flt ! i = plusc then
        (if 0 < i \<and> flt ! (i - 1) \<noteq> slashc then False
         else if i < length flt - 1 \<and> flt ! (i + 1) \<noteq> slashc then False else True)
      else True)"

definition ValidateTopicFilter :: "gostring \<Rightarrow> bool" where
  "ValidateTopicFilter flt =
     (if length flt = 0 then False else list_all (filterByteOk flt) [0..<length flt])"

section \<open>Splitting\<close>

text \<open>\<^verbatim>\<open>strings.Join(levels, "/")\<close>, the specification of a split.\<close>

fun joinLevels :: "level list \<Rightarrow> gostring" where
  "joinLevels [] = []"
| "joinLevels [l] = l"
| "joinLevels (l # ls) = l @ slashc # joinLevels ls"

lemma Split_not_Nil [simp]: "Split s \<noteq> []"
  by (induction s) (auto split: list.splits)

lemma Split_Cons: "b \<noteq> slashc \<Longrightarrow> Split (b # s) = (b # hd (Split s)) # tl (Split s)"
  using Split_not_Nil [of s] by (cases "Split s") simp_all

lemma Split_slash: "Split (slashc # s) = [] # Split s"
  by simp

lemma joinLevels_Cons: "ls \<noteq> [] \<Longrightarrow> joinLevels (l # ls) = l @ slashc # joinLevels ls"
  by (cases ls) simp_all

lemma joinLevels_Split: "joinLevels (Split s) = s"
proof (induction s)
  case (Cons b s)
  then show ?case
    by (cases "b = slashc"; cases "Split s"; cases "tl (Split s)") (auto simp: joinLevels_Cons)
qed simp

lemma Split_levels: "l \<in> set (Split s) \<Longrightarrow> slashc \<notin> set l"
  by (induction s arbitrary: l) (auto split: if_splits list.splits)

lemma Split_append: "slashc \<notin> set l \<Longrightarrow> Split (l @ s) = (l @ hd (Split s)) # tl (Split s)"
  by (induction l) (auto simp: Split_Cons simp del: Split.simps(2))

lemma Split_joinLevels: "ls \<noteq> [] \<Longrightarrow> \<forall>l \<in> set ls. slashc \<notin> set l \<Longrightarrow> Split (joinLevels ls) = ls"
proof (induction ls rule: joinLevels.induct)
  case (2 l)
  then show ?case using Split_append [of l "[]"] by simp
next
  case (3 l l' ls)
  then show ?case using Split_append [of l "slashc # joinLevels (l' # ls)"] by simp
qed simp

lemma splitLoop_Split:
  "start \<le> i \<Longrightarrow> i \<le> length s \<Longrightarrow> slashc \<notin> set (take (i - start) (drop start s)) \<Longrightarrow>
   splitLoop s start i parts = parts @ Split (drop start s)"
proof (induction s start i parts rule: splitLoop.induct)
  case (1 s start i parts)
  let ?cur = "take (i - start) (drop start s)"
  have cur: "drop start s = ?cur @ drop i s"
    using "1.prems"(1) by (metis append_take_drop_id drop_drop le_add_diff_inverse2)
  have split: "Split (drop start s) = (?cur @ hd (Split (drop i s))) # tl (Split (drop i s))"
    using Split_append [OF "1.prems"(3), of "drop i s"] cur by simp
  consider (fin) "i = length s" | (sep) "i < length s" "s ! i = slashc" | (go) "i < length s" "s ! i \<noteq> slashc"
    using "1.prems"(2) by fastforce
  then show ?case
  proof cases
    case fin
    then show ?thesis using split by (simp add: splitLoop.simps [of s start]
        splitLoop.simps [of s "Suc (length s)"])
  next
    case sep
    have d: "drop i s = slashc # drop (Suc i) s" using sep by (metis Cons_nth_drop_Suc)
    have "splitLoop s start i parts = (parts @ [?cur]) @ Split (drop (Suc i) s)"
      using sep "1.IH"(1) by (simp add: splitLoop.simps [of s start])
    then show ?thesis using split d by simp
  next
    case go
    have "take (Suc i - start) (drop start s) = ?cur @ [s ! i]"
      using go "1.prems"(1) by (simp add: Suc_diff_le take_Suc_conv_app_nth)
    then show ?thesis using go "1.IH"(2) "1.prems" by (simp add: splitLoop.simps [of s start])
  qed
qed

lemma SplitTopic_eq_Split: "SplitTopic s = Split s"
  using splitLoop_Split [of 0 0 s "[]"] by (simp add: SplitTopic_def)

section \<open>Filter legality\<close>

text \<open>The scan as a recursion: \<open>st\<close> says that the position starts a level.\<close>

fun scan :: "bool \<Rightarrow> gostring \<Rightarrow> bool" where
  "scan st [] = True"
| "scan st (b # s) =
     ((if b = hashc then s = [] \<and> st
       else if b = plusc then st \<and> (s = [] \<or> hd s = slashc) else True) \<and> scan (b = slashc) s)"

lemma filterByteOk_scan:
  "(\<forall>i < length s. filterByteOk (pre @ s) (length pre + i)) \<longleftrightarrow> scan (pre = [] \<or> last pre = slashc) s"
proof (induction s arbitrary: pre)
  case (Cons b s)
  have prev: "(pre @ b # s) ! (length pre - 1) = last pre" if "pre \<noteq> []"
    using that by (simp add: nth_append last_conv_nth)
  have nxt: "(pre @ b # s) ! Suc (length pre) = hd s" if "s \<noteq> []"
    using that by (simp add: nth_append hd_conv_nth)
  have "(\<forall>i < length (b # s). filterByteOk (pre @ b # s) (length pre + i)) \<longleftrightarrow>
      filterByteOk (pre @ b # s) (length pre) \<and>
      (\<forall>i < length s. filterByteOk ((pre @ [b]) @ s) (length (pre @ [b]) + i))"
    by (auto simp: less_Suc_eq_0_disj)
  also have "\<dots> \<longleftrightarrow> filterByteOk (pre @ b # s) (length pre) \<and> scan (b = slashc) s"
    using Cons.IH [of "pre @ [b]"] by simp
  also have "\<dots> \<longleftrightarrow> scan (pre = [] \<or> last pre = slashc) (b # s)"
    using prev nxt by (cases "pre = []"; cases "s = []") (auto simp: filterByteOk_def)
  finally show ?case .
qed simp

text \<open>The rule of the specification on levels: a level is \<open>+\<close>, or the last one is \<open>#\<close>, or no wildcard.\<close>

fun levelsOk :: "level list \<Rightarrow> bool" where
  "levelsOk [] = True"
| "levelsOk (l # ls) = ((l = [plusc] \<or> l = [hashc] \<and> ls = [] \<or> noWildcard l) \<and> levelsOk ls)"

lemma noWildcard_iff: "noWildcard s \<longleftrightarrow> hashc \<notin> set s \<and> plusc \<notin> set s"
  by (induction s) auto

lemma Split_eq_Nil: "tl (Split s) = [] \<and> hd (Split s) = [] \<longleftrightarrow> s = []"
  by (cases s; cases "hd s = slashc") (auto simp: Split_Cons Split_slash simp del: Split.simps(2))

lemma hd_Split_Nil: "hd (Split s) = [] \<longleftrightarrow> s = [] \<or> hd s = slashc"
  by (cases s; cases "hd s = slashc") (auto simp: Split_Cons Split_slash simp del: Split.simps(2))

lemma scan_levels:
  "scan st s \<longleftrightarrow> (let l = hd (Split s); ls = tl (Split s) in
     (if st then l = [plusc] \<or> l = [hashc] \<and> ls = [] \<or> noWildcard l else noWildcard l) \<and> levelsOk ls)"
proof (induction s arbitrary: st)
  case (Cons b s)
  show ?case
  proof (cases "b = slashc")
    case True
    then show ?thesis using Cons.IH [of True] by (cases "Split s") (auto simp: Let_def)
  next
    case False
    show ?thesis using Cons.IH [of False] False hd_Split_Nil [of s] Split_eq_Nil [of s]
      by (auto simp: Split_Cons Let_def simp del: Split.simps(2) split: if_splits)
  qed
qed simp

lemma ValidateTopicFilter_levels:
  "ValidateTopicFilter f \<longleftrightarrow> f \<noteq> [] \<and> levelsOk (Split f)"
proof -
  have "list_all (filterByteOk f) [0..<length f] \<longleftrightarrow> scan True f"
    using filterByteOk_scan [of f "[]"] by (auto simp: list_all_iff)
  moreover have "Split f = hd (Split f) # tl (Split f)" by simp
  ultimately show ?thesis using scan_levels [of True f]
    by (metis ValidateTopicFilter_def length_0_conv levelsOk.simps(2))
qed

section \<open>Matching\<close>

text \<open>
  The relation of MQTT 3.1.1 and 5.0, section 4.7: a literal level matches itself, \<open>+\<close> any one
  level, a final \<open>#\<close> any number of levels, the parent included.
\<close>

inductive tmatch :: "level list \<Rightarrow> level list \<Rightarrow> bool" where
  tm_end: "tmatch [] []"
| tm_hash: "tmatch [[hashc]] ts"
| tm_plus: "tmatch ps ts \<Longrightarrow> tmatch ([plusc] # ps) (t # ts)"
| tm_level: "noWildcard p \<Longrightarrow> tmatch ps ts \<Longrightarrow> tmatch (p # ps) (p # ts)"

inductive_simps tmatch_Nil [simp]: "tmatch [] ts"
inductive_simps tmatch_Cons: "tmatch (p # ps) ts"

fun matchRec :: "level list \<Rightarrow> level list \<Rightarrow> bool" where
  "matchRec [] ts \<longleftrightarrow> ts = []"
| "matchRec (p # ps) ts \<longleftrightarrow> p = [hashc] \<or>
     (case ts of [] \<Rightarrow> False | t # ts' \<Rightarrow> (p = [plusc] \<or> p = t) \<and> matchRec ps ts')"

lemma matchLoop_rec:
  "i \<le> length ps \<Longrightarrow> i \<le> length ts \<Longrightarrow> matchLoop ps ts i \<longleftrightarrow> matchRec (drop i ps) (drop i ts)"
proof (induction ps ts i rule: matchLoop.induct)
  case (1 ps ts i)
  show ?case
  proof (cases "i < length ps")
    case True
    then have ps: "drop i ps = ps ! i # drop (Suc i) ps" by (simp add: Cons_nth_drop_Suc)
    show ?thesis
    proof (cases "i < length ts")
      case ts: True
      then have "drop i ts = ts ! i # drop (Suc i) ts" by (simp add: Cons_nth_drop_Suc)
      then show ?thesis using True ts ps 1 by (auto simp: matchLoop.simps [of ps ts i] Let_def)
    next
      case False
      then have "drop i ts = []" "length ts \<le> i" by simp_all
      with True ps show ?thesis unfolding matchLoop.simps [of ps ts i] Let_def by simp
    qed
  next
    case False
    with "1.prems" show ?thesis unfolding matchLoop.simps [of ps ts i] by auto
  qed
qed

lemma matchLevels_rec: "matchLevels ps ts \<longleftrightarrow> matchRec ps ts"
  using matchLoop_rec [of 0 ps ts] by (simp add: matchLevels_def)

lemma matchRec_tmatch: "levelsOk ps \<Longrightarrow> matchRec ps ts \<longleftrightarrow> tmatch ps ts"
proof (induction ps arbitrary: ts)
  case (Cons p ps)
  from Cons.prems consider "p = [plusc]" | "p = [hashc]" "ps = []" | "noWildcard p" by auto
  then show ?case
  proof cases
    case 3
    then have "p \<noteq> [hashc]" "p \<noteq> [plusc]" by auto
    with 3 Cons show ?thesis by (cases ts) (simp_all add: tmatch_Cons eq_commute [of p])
  qed (use Cons in \<open>cases ts; simp add: tmatch_Cons\<close>)+
qed simp

lemma MatchTopic_tmatch: "ValidateTopicFilter f \<Longrightarrow> MatchTopic f t \<longleftrightarrow> tmatch (Split f) (Split t)"
  by (simp add: MatchTopic_def matchLevels_rec ValidateTopicFilter_levels matchRec_tmatch)

lemma matchRec_refl: "matchRec ts ts"
  by (induction ts) auto

end
