(* ===== verification/Codec.thy ===== *)
theory Codec
  imports Packets Topic
begin

text \<open>
  Encoding and decoding of every packet type, \<^verbatim>\<open>src/protocol/publish.go\<close>,
  \<^verbatim>\<open>src/protocol/connect.go\<close>, \<^verbatim>\<open>src/protocol/subscribe.go\<close> and the dispatchers
  \<^verbatim>\<open>Decode\<close> and \<^verbatim>\<open>Encode\<close> of \<^verbatim>\<open>src/protocol/codec.go\<close>, the rules of
  \<^verbatim>\<open>ValidateConnect\<close> and the handshake of \<^verbatim>\<open>src/protocol/mqtt_adapter.go\<close>. This theory
  holds the definitions; the theorems on them are in CodecFrames and CodecRoundTrip.
\<close>

section \<open>Shared shapes\<close>

text \<open>Read \<open>n\<close> bytes off the connection, then parse them with a reader of their own.\<close>

definition within :: "nat \<Rightarrow> 'a rd \<Rightarrow> 'a rd" where
  "within n p = rthen (readFull n) (\<lambda>buf. rlift (fst (p buf)))"

text \<open>\<^verbatim>\<open>if reader.Len() > 0\<close>.\<close>

definition ifMore :: "'a rd \<Rightarrow> 'a rd \<Rightarrow> 'a rd" where
  "ifMore p q s = (if s \<noteq> [] then p s else q s)"

text \<open>The rest of the reader: \<^verbatim>\<open>make([]byte, reader.Len())\<close> and a full read.\<close>

definition readRest :: "byte list rd" where
  "readRest s = (Inr s, [])"

text \<open>A section and nothing after it.\<close>

definition lastProperties :: "propertyLocus \<Rightarrow> Properties option rd" where
  "lastProperties l = rthen (decodeProperties l) (\<lambda>props. ifMore (rfail ErrMalformedPacket) (rret props))"

text \<open>
  The end of every encoder: Remaining Length is stored into the packet, then header and body are
  written. On an error nothing is written and the packet is as it was.
\<close>

definition emit :: "byte list res \<Rightarrow> FixedHeader \<Rightarrow> Packet \<Rightarrow> (FixedHeader \<Rightarrow> Packet) \<Rightarrow> byte list res \<times> Packet" where
  "emit body fh pkt upd =
     (case body of
        Inl e \<Rightarrow> (Inl e, pkt)
      | Inr buf \<Rightarrow> (let fh' = fh\<lparr>fh_RemainingLength := length buf\<rparr>
                   in (Inr (encodeFixedHeader fh' @ buf), upd fh')))"

definition rejectPreV5Properties :: "Properties option \<Rightarrow> byte list res" where
  "rejectPreV5Properties props = (case props of None \<Rightarrow> Inr [] | Some _ \<Rightarrow> Inl ErrUnsupportedVersion)"

definition writePropertySection :: "Codec \<Rightarrow> Properties option \<Rightarrow> propertyLocus \<Rightarrow> byte list res" where
  "writePropertySection c props locus =
     (if \<not> sp_Properties (spec c) then rejectPreV5Properties props
      else case props of None \<Rightarrow> Inr (writeVarInt 0) | Some p \<Rightarrow> encodeProperties p locus)"

definition guard :: "bool \<Rightarrow> perr \<Rightarrow> byte list res" where
  "guard b e = (if b then Inl e else Inr [])"

section \<open>PUBLISH\<close>

definition aliasPresent :: "Properties option \<Rightarrow> bool" where
  "aliasPresent props \<longleftrightarrow>
     (case props of None \<Rightarrow> False
      | Some p \<Rightarrow> (case TopicAlias p of None \<Rightarrow> False | Some a \<Rightarrow> a \<noteq> 0))"

definition publishTopicOk :: "Codec \<Rightarrow> gostring \<Rightarrow> Properties option \<Rightarrow> bool" where
  "publishTopicOk c topic props =
     (if length topic = 0 then sp_TopicAlias (spec c) \<and> aliasPresent props
      else ValidatePublishTopic topic)"

definition decodePublishBody :: "Codec \<Rightarrow> nat \<Rightarrow> (Properties option \<times> byte list) rd" where
  "decodePublishBody c remaining =
     (if sp_Properties (spec c) then
        within remaining (rthen (decodeProperties locusPublish) (\<lambda>props.
          rthen readRest (\<lambda>payload. rret (props, payload))))
      else rthen (readFull remaining) (\<lambda>payload. rret (None, payload)))"

definition decodePublishID :: "FixedHeader \<Rightarrow> nat \<Rightarrow> u16 rd" where
  "decodePublishID fh headerBytes =
     (if 0 < fh_QoS fh then
        (if fh_RemainingLength fh < headerBytes + 2 then rfail ErrMalformedPacket
         else rthen readUint16 (\<lambda>packetID.
           if packetID = 0 then rfail ErrMalformedPacket else rret packetID))
      else rret 0)"

definition decodePublish :: "Codec \<Rightarrow> FixedHeader \<Rightarrow> Packet rd" where
  "decodePublish c fh =
     (if fh_RemainingLength fh < 2 then rfail ErrMalformedPacket
      else rthen (readStringBounded (fh_RemainingLength fh - 2)) (\<lambda>topic.
        rthen (decodePublishID fh (2 + length topic)) (\<lambda>packetID.
          let headerBytes = 2 + length topic + (if 0 < fh_QoS fh then 2 else 0)
          in if fh_RemainingLength fh < headerBytes then rfail ErrMalformedPacket
             else rthen (decodePublishBody c (fh_RemainingLength fh - headerBytes)) (\<lambda>(props, payload).
               if \<not> publishTopicOk c topic props then rfail ErrMalformedPacket
               else rret (Publish \<lparr> pp_fh = fh, pp_PacketID = packetID, pp_Topic = topic,
                                    pp_Payload = payload, pp_Properties = props \<rparr>)))))"

definition encodePublishBody :: "Codec \<Rightarrow> PublishPacket \<Rightarrow> byte list res" where
  "encodePublishBody c pkt = wseq
     [guard (\<not> publishTopicOk c (pp_Topic pkt) (pp_Properties pkt)) ErrMalformedPacket,
      guard (fh_QoS (pp_fh pkt) = 0 \<and> pp_PacketID pkt \<noteq> 0) ErrMalformedPacket,
      guard (0 < fh_QoS (pp_fh pkt) \<and> pp_PacketID pkt = 0) ErrMalformedPacket,
      writeString (pp_Topic pkt),
      (if 0 < fh_QoS (pp_fh pkt) then Inr (writeUint16 (pp_PacketID pkt)) else Inr []),
      writePropertySection c (pp_Properties pkt) locusPublish,
      Inr (pp_Payload pkt)]"

definition encodePublish :: "Codec \<Rightarrow> PublishPacket \<Rightarrow> byte list res \<times> Packet" where
  "encodePublish c pkt =
     emit (encodePublishBody c pkt) (pp_fh pkt) (Publish pkt) (\<lambda>fh. Publish (pkt\<lparr>pp_fh := fh\<rparr>))"

section \<open>PUBACK, PUBREC, PUBREL, PUBCOMP\<close>

definition ackFields :: "FixedHeader \<Rightarrow> AckPacket rd" where
  "ackFields fh =
     rthen readUint16FromReader (\<lambda>packetID.
       if packetID = 0 then rfail ErrMalformedPacket
       else rthen (ifMore readByte (rret 0)) (\<lambda>reasonCode.
         rthen (ifMore (lastProperties locusAck) (rret None)) (\<lambda>props.
           rret \<lparr> ak_fh = fh, ak_PacketID = packetID, ak_ReasonCode = reasonCode,
                  ak_Properties = props \<rparr>)))"

definition decodeAckFields :: "Codec \<Rightarrow> FixedHeader \<Rightarrow> AckPacket rd" where
  "decodeAckFields c fh =
     (if fh_RemainingLength fh < 2 then rfail ErrMalformedPacket
      else if \<not> sp_ReasonCodes (spec c) \<and> fh_RemainingLength fh \<noteq> 2 then rfail ErrMalformedPacket
      else within (fh_RemainingLength fh) (ackFields fh))"

definition encodeAckFields :: "Codec \<Rightarrow> u16 \<Rightarrow> byte \<Rightarrow> Properties option \<Rightarrow> byte list res" where
  "encodeAckFields c packetID reasonCode props =
     (if packetID = 0 then Inl ErrMalformedPacket
      else if \<not> sp_ReasonCodes (spec c) \<and> (reasonCode \<noteq> 0 \<or> props \<noteq> None) then Inl ErrMalformedPacket
      else wseq
        [Inr (writeUint16 packetID),
         (if reasonCode \<noteq> 0 \<or> props \<noteq> None then Inr [reasonCode] else Inr []),
         (case props of None \<Rightarrow> Inr [] | Some p \<Rightarrow> encodeProperties p locusAck)])"

definition encodeAckBody :: "Codec \<Rightarrow> AckPacket \<Rightarrow> byte list res" where
  "encodeAckBody c pkt = encodeAckFields c (ak_PacketID pkt) (ak_ReasonCode pkt) (ak_Properties pkt)"

definition decodePubAck :: "Codec \<Rightarrow> FixedHeader \<Rightarrow> Packet rd" where
  "decodePubAck c fh = rthen (decodeAckFields c fh) (\<lambda>a. rret (PubAck a))"

definition decodePubRec :: "Codec \<Rightarrow> FixedHeader \<Rightarrow> Packet rd" where
  "decodePubRec c fh = rthen (decodeAckFields c fh) (\<lambda>a. rret (PubRec a))"

definition decodePubRel :: "Codec \<Rightarrow> FixedHeader \<Rightarrow> Packet rd" where
  "decodePubRel c fh = rthen (decodeAckFields c fh) (\<lambda>a. rret (PubRel a))"

definition decodePubComp :: "Codec \<Rightarrow> FixedHeader \<Rightarrow> Packet rd" where
  "decodePubComp c fh = rthen (decodeAckFields c fh) (\<lambda>a. rret (PubComp a))"

definition encodePubAck :: "Codec \<Rightarrow> AckPacket \<Rightarrow> byte list res \<times> Packet" where
  "encodePubAck c pkt =
     emit (encodeAckBody c pkt) (ak_fh pkt) (PubAck pkt) (\<lambda>fh. PubAck (pkt\<lparr>ak_fh := fh\<rparr>))"

definition encodePubRec :: "Codec \<Rightarrow> AckPacket \<Rightarrow> byte list res \<times> Packet" where
  "encodePubRec c pkt =
     emit (encodeAckBody c pkt) (ak_fh pkt) (PubRec pkt) (\<lambda>fh. PubRec (pkt\<lparr>ak_fh := fh\<rparr>))"

definition encodePubRel :: "Codec \<Rightarrow> AckPacket \<Rightarrow> byte list res \<times> Packet" where
  "encodePubRel c pkt =
     emit (encodeAckBody c pkt) ((ak_fh pkt)\<lparr>fh_QoS := 1, fh_Retain := False\<rparr>) (PubRel pkt)
       (\<lambda>fh. PubRel (pkt\<lparr>ak_fh := fh\<rparr>))"

definition encodePubComp :: "Codec \<Rightarrow> AckPacket \<Rightarrow> byte list res \<times> Packet" where
  "encodePubComp c pkt =
     emit (encodeAckBody c pkt) (ak_fh pkt) (PubComp pkt) (\<lambda>fh. PubComp (pkt\<lparr>ak_fh := fh\<rparr>))"

section \<open>CONNECT\<close>

definition connectFlagsOf :: "byte \<Rightarrow> ConnectFlags" where
  "connectFlagsOf b =
     \<lparr> cf_UsernameFlag = (b AND 0x80 \<noteq> 0), cf_PasswordFlag = (b AND 0x40 \<noteq> 0),
       cf_WillRetain = (b AND 0x20 \<noteq> 0), cf_WillQoS = drop_bit 3 b AND 0x03,
       cf_WillFlag = (b AND 0x04 \<noteq> 0), cf_WillTopicFlag = (b AND 0x04 \<noteq> 0),
       cf_CleanSession = (b AND 0x02 \<noteq> 0), cf_Reserved = (b AND 0x01 \<noteq> 0) \<rparr>"

text \<open>A two-byte length and that many bytes.\<close>

definition readBlob :: "byte list rd" where
  "readBlob = rthen readUint16 (\<lambda>n. readFull (unat n))"

definition sectionIf :: "bool \<Rightarrow> propertyLocus \<Rightarrow> Properties option rd" where
  "sectionIf b l = (if b then decodeProperties l else rret None)"

definition decodeWill :: "Codec \<Rightarrow> ConnectFlags \<Rightarrow> (Properties option \<times> gostring \<times> byte list) rd" where
  "decodeWill c flags =
     (if cf_WillFlag flags then
        rthen (sectionIf (sp_Properties (spec c)) locusWill) (\<lambda>willProps.
        rthen readString (\<lambda>willTopic.
        rthen readBlob (\<lambda>willMessage. rret (willProps, willTopic, willMessage))))
      else rret (None, [], []))"

text \<open>The fields after the version byte, decoded with the codec of that version.\<close>

definition connectFields :: "Codec \<Rightarrow> FixedHeader \<Rightarrow> gostring \<Rightarrow> byte \<Rightarrow> Packet rd" where
  "connectFields c fh protoName protoVer =
     rthen ReadByte (\<lambda>connectFlags. let flags = connectFlagsOf connectFlags in
     rthen readUint16 (\<lambda>keepAlive.
     rthen (sectionIf (sp_Properties (spec c)) locusConnect) (\<lambda>props.
     rthen readString (\<lambda>clientID.
     rthen (decodeWill c flags) (\<lambda>(willProps, willTopic, willMessage).
     rthen (if cf_UsernameFlag flags then readString else rret []) (\<lambda>username.
     rthen (if cf_PasswordFlag flags then readBlob else rret []) (\<lambda>password.
     ifMore (rfail ErrMalformedPacket)
       (rret (Connect \<lparr> cp_fh = fh, cp_ProtocolName = protoName, cp_ProtocolVersion = protoVer,
          cp_Flags = flags, cp_KeepAlive = keepAlive, cp_ClientID = clientID,
          cp_WillTopic = willTopic, cp_WillMessage = willMessage, cp_Username = username,
          cp_Password = password, cp_Properties = props, cp_WillProperties = willProps \<rparr>)))))))))"

definition connectBody :: "Codec \<Rightarrow> FixedHeader \<Rightarrow> byte list \<Rightarrow> Packet res \<times> Codec" where
  "connectBody c fh buf =
     (case rthen readString (\<lambda>protoName. rthen ReadByte (\<lambda>protoVer. rret (protoName, protoVer))) buf of
        (Inl e, _) \<Rightarrow> (Inl e, c)
      | (Inr (protoName, protoVer), rest) \<Rightarrow>
          (let c' = setVersion c protoVer in (fst (connectFields c' fh protoName protoVer rest), c')))"

definition decodeConnect :: "Codec \<Rightarrow> FixedHeader \<Rightarrow> byte list \<Rightarrow> Packet res \<times> byte list \<times> Codec" where
  "decodeConnect c fh s =
     (case readFull (fh_RemainingLength fh) s of
        (Inl e, s') \<Rightarrow> (Inl e, s', c)
      | (Inr buf, s') \<Rightarrow> (case connectBody c fh buf of (r, c') \<Rightarrow> (r, s', c')))"

definition flagsByte :: "ConnectFlags \<Rightarrow> byte" where
  "flagsByte f =
     (if cf_UsernameFlag f then 0x80 else 0) OR (if cf_PasswordFlag f then 0x40 else 0) OR
     (if cf_WillRetain f then 0x20 else 0) OR
     (if cf_WillFlag f then 0x04 OR push_bit 3 (cf_WillQoS f AND 0x03) else 0) OR
     (if cf_CleanSession f then 0x02 else 0)"

definition writeBlob :: "byte list \<Rightarrow> perr \<Rightarrow> byte list res" where
  "writeBlob d e = (if 65535 < length d then Inl e else Inr (writeUint16 (of_nat (length d)) @ d))"

definition encodeConnectBody :: "Codec \<Rightarrow> ConnectPacket \<Rightarrow> byte list res" where
  "encodeConnectBody c pkt = (let f = cp_Flags pkt in wseq
     ([writeString (cp_ProtocolName pkt),
       Inr [cp_ProtocolVersion pkt],
       Inr [flagsByte f],
       Inr (writeUint16 (cp_KeepAlive pkt)),
       writePropertySection c (cp_Properties pkt) locusConnect,
       writeString (cp_ClientID pkt)] @
      (if cf_WillFlag f then
         [writePropertySection c (cp_WillProperties pkt) locusWill,
          writeString (cp_WillTopic pkt),
          writeBlob (cp_WillMessage pkt) ErrWillMessageTooLong] else []) @
      (if cf_UsernameFlag f then [writeString (cp_Username pkt)] else []) @
      (if cf_PasswordFlag f then [writeBlob (cp_Password pkt) ErrPasswordTooLong] else [])))"

definition encodeConnect :: "Codec \<Rightarrow> ConnectPacket \<Rightarrow> byte list res \<times> Packet \<times> Codec" where
  "encodeConnect c pkt =
     (let c' = setVersion c (cp_ProtocolVersion pkt) in
      case emit (encodeConnectBody c' pkt) ((cp_fh pkt)\<lparr>fh_PacketType := PacketTypeConnect\<rparr>) (Connect pkt)
          (\<lambda>fh. Connect (pkt\<lparr>cp_fh := fh\<rparr>)) of
        (r, pkt') \<Rightarrow> (r, pkt', c'))"

text \<open>\<open>ValidateConnect\<close>: one constructor per message, checked in source order.\<close>

datatype connectViolation =
    InvalidProtocolName | UnsupportedProtocolVersion | NameVersionMismatch | ReservedFlagSet
  | InvalidWillQoS | WillQoSWithoutWill | WillRetainWithoutWill | PasswordWithoutUsername
  | EmptyClientIDForbidden | EmptyClientIDNeedsCleanSession | ClientIDTooLong | EmptyWillTopic

definition ValidateConnect :: "ConnectPacket \<Rightarrow> connectViolation option" where
  "ValidateConnect pkt =
     (let f = cp_Flags pkt; v = cp_ProtocolVersion pkt; sp = fst (SpecOf v) in
      if cp_ProtocolName pkt \<noteq> ProtocolNameMQTT \<and> cp_ProtocolName pkt \<noteq> ProtocolNameMQIsdp
        then Some InvalidProtocolName
      else if v \<noteq> Version31 \<and> v \<noteq> Version311 \<and> v \<noteq> Version50 then Some UnsupportedProtocolVersion
      else if v = Version31 \<and> cp_ProtocolName pkt \<noteq> ProtocolNameMQIsdp then Some NameVersionMismatch
      else if (v = Version311 \<or> v = Version50) \<and> cp_ProtocolName pkt \<noteq> ProtocolNameMQTT
        then Some NameVersionMismatch
      else if cf_Reserved f then Some ReservedFlagSet
      else if cf_WillFlag f \<and> 2 < cf_WillQoS f then Some InvalidWillQoS
      else if \<not> cf_WillFlag f \<and> cf_WillQoS f \<noteq> 0 then Some WillQoSWithoutWill
      else if \<not> cf_WillFlag f \<and> cf_WillRetain f then Some WillRetainWithoutWill
      else if cf_PasswordFlag f \<and> \<not> cf_UsernameFlag f then Some PasswordWithoutUsername
      else if length (cp_ClientID pkt) = 0 \<and> \<not> sp_AllowEmptyID sp then Some EmptyClientIDForbidden
      else if length (cp_ClientID pkt) = 0 \<and> \<not> cf_CleanSession f then Some EmptyClientIDNeedsCleanSession
      else if 0 < sp_MaxClientIDLen sp \<and> sp_MaxClientIDLen sp < length (cp_ClientID pkt)
        then Some ClientIDTooLong
      else if cf_WillFlag f \<and> length (cp_WillTopic pkt) = 0 then Some EmptyWillTopic
      else None)"

section \<open>CONNACK\<close>

definition connAckFields :: "Codec \<Rightarrow> FixedHeader \<Rightarrow> Packet rd" where
  "connAckFields c fh =
     rthen ReadByte (\<lambda>spFlag. rthen ReadByte (\<lambda>reasonCode.
       if \<not> sp_Properties (spec c) \<and> fh_RemainingLength fh \<noteq> 2 then rfail ErrMalformedPacket
       else rthen (if sp_Properties (spec c) \<and> 2 < fh_RemainingLength fh
                   then lastProperties locusConnAck else rret None) (\<lambda>props.
         rret (ConnAck \<lparr> ca_fh = fh, ca_ReasonCode = reasonCode,
           ca_SessionPresent = (spFlag AND 0x01 \<noteq> 0), ca_Properties = props \<rparr>))))"

definition decodeConnAck :: "Codec \<Rightarrow> FixedHeader \<Rightarrow> Packet rd" where
  "decodeConnAck c fh = within (fh_RemainingLength fh) (connAckFields c fh)"

definition encodeConnAckBody :: "Codec \<Rightarrow> ConnAckPacket \<Rightarrow> byte list res" where
  "encodeConnAckBody c pkt = wseq
     [Inr [if ca_SessionPresent pkt \<and> sp_ConnAckSessionPresent (spec c) then 0x01 else 0],
      Inr [ca_ReasonCode pkt],
      writePropertySection c (ca_Properties pkt) locusConnAck]"

definition encodeConnAck :: "Codec \<Rightarrow> ConnAckPacket \<Rightarrow> byte list res \<times> Packet" where
  "encodeConnAck c pkt =
     emit (encodeConnAckBody c pkt) (ca_fh pkt) (ConnAck pkt) (\<lambda>fh. ConnAck (pkt\<lparr>ca_fh := fh\<rparr>))"

section \<open>SUBSCRIBE and UNSUBSCRIBE\<close>

definition topicFilterOf :: "gostring \<Rightarrow> byte \<Rightarrow> u32 option \<Rightarrow> TopicFilter" where
  "topicFilterOf topic opts subID =
     \<lparr> tf_Topic = topic, tf_QoS = opts AND 0x03, tf_NoLocal = (opts AND 0x04 \<noteq> 0),
       tf_RetainAsPublished = (opts AND 0x08 \<noteq> 0), tf_RetainHandling = drop_bit 4 opts AND 0x03,
       tf_SubscriptionIdentifier = subID \<rparr>"

definition optionsOk :: "Codec \<Rightarrow> byte \<Rightarrow> bool" where
  "optionsOk c opts =
     (if \<not> sp_Properties (spec c) \<and> opts AND 0xFC \<noteq> 0 then False
      else if opts AND 0xC0 \<noteq> 0 \<or> opts AND 0x03 = 3 \<or> drop_bit 4 opts AND 0x03 = 3 then False
      else True)"

definition readTopicFilter :: "Codec \<Rightarrow> u32 option \<Rightarrow> TopicFilter rd" where
  "readTopicFilter c subID =
     rthen readStringFromReader (\<lambda>topic. rthen ReadByte (\<lambda>optsByte.
       if \<not> optionsOk c optsByte then rfail ErrMalformedPacket
       else rret (topicFilterOf topic optsByte subID)))"

text \<open>
  \<^verbatim>\<open>for reader.Len() > 0\<close>: every round reads a length-prefixed string first, so the
  reader shrinks.
\<close>

lemma readStringFromReader_shorter:
  "readStringFromReader s = (Inr x, t) \<Longrightarrow> length t < length s"
  by (auto simp: readStringFromReader_def rthen_eq_Inr ReadByte_eq_Inr readFull_eq_Inr Let_def
      split: if_splits)

lemma readTopicFilter_shorter: "readTopicFilter c i s = (Inr x, t) \<Longrightarrow> length t < length s"
  by (auto simp: readTopicFilter_def rthen_eq_Inr ReadByte_eq_Inr split: if_splits
      dest!: readStringFromReader_shorter)

function subscribeLoop :: "Codec \<Rightarrow> u32 option \<Rightarrow> TopicFilter list \<Rightarrow> TopicFilter list rd" where
  "subscribeLoop c subID topics s =
     (if s = [] then (Inr topics, [])
      else case readTopicFilter c subID s of
          (Inl e, s') \<Rightarrow> (Inl e, s')
        | (Inr tf, s') \<Rightarrow> subscribeLoop c subID (topics @ [tf]) s')"
  by pat_completeness auto
termination
  by (relation "measure (\<lambda>(c, i, ts, s). length s)") (auto intro: readTopicFilter_shorter [OF sym])

declare subscribeLoop.simps [simp del]

definition firstSubID :: "Properties option \<Rightarrow> u32 option" where
  "firstSubID props =
     (case props of None \<Rightarrow> None
      | Some p \<Rightarrow> (case SubscriptionIdentifier p of [] \<Rightarrow> None | n # _ \<Rightarrow> Some n))"

definition subscribeFields :: "Codec \<Rightarrow> FixedHeader \<Rightarrow> u16 \<Rightarrow> Packet rd" where
  "subscribeFields c fh packetID =
     rthen (sectionIf (sp_Properties (spec c)) locusSubscribe) (\<lambda>props.
     rthen (subscribeLoop c (firstSubID props) []) (\<lambda>topics.
       if length topics = 0 then rfail ErrMalformedPacket
       else rret (Subscribe \<lparr> sb_fh = fh, sb_PacketID = packetID, sb_Topics = topics,
                              sb_Properties = props \<rparr>)))"

text \<open>The packet identifier straight off the connection, then the rest of the body.\<close>

definition idThenBody :: "FixedHeader \<Rightarrow> (u16 \<Rightarrow> Packet rd) \<Rightarrow> Packet rd" where
  "idThenBody fh body =
     (if fh_RemainingLength fh < 2 then rfail ErrMalformedPacket
      else rthen readUint16 (\<lambda>packetID.
        if packetID = 0 then rfail ErrMalformedPacket
        else within (fh_RemainingLength fh - 2) (body packetID)))"

definition decodeSubscribe :: "Codec \<Rightarrow> FixedHeader \<Rightarrow> Packet rd" where
  "decodeSubscribe c fh = idThenBody fh (subscribeFields c fh)"

definition optionsByte :: "TopicFilter \<Rightarrow> byte" where
  "optionsByte t =
     (tf_QoS t AND 0x03) OR (if tf_NoLocal t then 0x04 else 0) OR
     (if tf_RetainAsPublished t then 0x08 else 0) OR push_bit 4 (tf_RetainHandling t AND 0x03)"

definition writeTopicFilter :: "TopicFilter \<Rightarrow> byte list res" where
  "writeTopicFilter t =
     (if 2 < tf_QoS t \<or> 2 < tf_RetainHandling t then Inl ErrMalformedPacket
      else rbind (writeString (tf_Topic t)) (\<lambda>b. Inr (b @ [optionsByte t])))"

definition encodeSubscribeBody :: "Codec \<Rightarrow> SubscribePacket \<Rightarrow> byte list res" where
  "encodeSubscribeBody c pkt = wseq
     ([guard (sb_PacketID pkt = 0) ErrMalformedPacket,
       Inr (writeUint16 (sb_PacketID pkt)),
       writePropertySection c (sb_Properties pkt) locusSubscribe] @
      map writeTopicFilter (sb_Topics pkt) @
      [guard (length (sb_Topics pkt) = 0) ErrMalformedPacket])"

definition encodeSubscribe :: "Codec \<Rightarrow> SubscribePacket \<Rightarrow> byte list res \<times> Packet" where
  "encodeSubscribe c pkt =
     emit (encodeSubscribeBody c pkt) ((sb_fh pkt)\<lparr>fh_QoS := 1, fh_Retain := False\<rparr>) (Subscribe pkt)
       (\<lambda>fh. Subscribe (pkt\<lparr>sb_fh := fh\<rparr>))"

function unsubscribeLoop :: "gostring list \<Rightarrow> gostring list rd" where
  "unsubscribeLoop topics s =
     (if s = [] then (Inr topics, [])
      else case readStringFromReader s of
          (Inl e, s') \<Rightarrow> (Inl e, s')
        | (Inr t, s') \<Rightarrow> unsubscribeLoop (topics @ [t]) s')"
  by pat_completeness auto
termination
  by (relation "measure (\<lambda>(ts, s). length s)") (auto intro: readStringFromReader_shorter [OF sym])

declare unsubscribeLoop.simps [simp del]

definition unsubscribeFields :: "Codec \<Rightarrow> FixedHeader \<Rightarrow> u16 \<Rightarrow> Packet rd" where
  "unsubscribeFields c fh packetID =
     rthen (sectionIf (sp_Properties (spec c)) locusUnsubscribe) (\<lambda>props.
     rthen (unsubscribeLoop []) (\<lambda>topics.
       if length topics = 0 then rfail ErrMalformedPacket
       else rret (Unsubscribe \<lparr> us_fh = fh, us_PacketID = packetID, us_Topics = topics,
                                us_Properties = props \<rparr>)))"

definition decodeUnsubscribe :: "Codec \<Rightarrow> FixedHeader \<Rightarrow> Packet rd" where
  "decodeUnsubscribe c fh = idThenBody fh (unsubscribeFields c fh)"

definition encodeUnsubscribeBody :: "Codec \<Rightarrow> UnsubscribePacket \<Rightarrow> byte list res" where
  "encodeUnsubscribeBody c pkt = wseq
     ([guard (us_PacketID pkt = 0) ErrMalformedPacket,
       Inr (writeUint16 (us_PacketID pkt)),
       writePropertySection c (us_Properties pkt) locusUnsubscribe] @
      map writeString (us_Topics pkt) @
      [guard (length (us_Topics pkt) = 0) ErrMalformedPacket])"

definition encodeUnsubscribe :: "Codec \<Rightarrow> UnsubscribePacket \<Rightarrow> byte list res \<times> Packet" where
  "encodeUnsubscribe c pkt =
     emit (encodeUnsubscribeBody c pkt) ((us_fh pkt)\<lparr>fh_QoS := 1, fh_Retain := False\<rparr>) (Unsubscribe pkt)
       (\<lambda>fh. Unsubscribe (pkt\<lparr>us_fh := fh\<rparr>))"

section \<open>SUBACK and UNSUBACK\<close>

text \<open>With nothing after the identifier there is no section to read, in every version.\<close>

definition subAckFields :: "Codec \<Rightarrow> FixedHeader \<Rightarrow> propertyLocus \<Rightarrow> u16 \<Rightarrow> SubAckPacket rd" where
  "subAckFields c fh locus packetID =
     rthen (if 0 < fh_RemainingLength fh - 2
            then sectionIf (sp_Properties (spec c)) locus else rret None) (\<lambda>props.
     rthen readRest (\<lambda>reasonCodes.
       rret \<lparr> sa_fh = fh, sa_PacketID = packetID, sa_ReasonCodes = reasonCodes,
              sa_Properties = props \<rparr>))"

definition decodeSubAck :: "Codec \<Rightarrow> FixedHeader \<Rightarrow> Packet rd" where
  "decodeSubAck c fh = idThenBody fh (\<lambda>packetID.
     rthen (subAckFields c fh locusSubAck packetID) (\<lambda>p. rret (SubAck p)))"

definition encodeSubAckBody :: "Codec \<Rightarrow> propertyLocus \<Rightarrow> SubAckPacket \<Rightarrow> byte list res" where
  "encodeSubAckBody c locus pkt = wseq
     [guard (sa_PacketID pkt = 0) ErrMalformedPacket,
      Inr (writeUint16 (sa_PacketID pkt)),
      writePropertySection c (sa_Properties pkt) locus,
      Inr (sa_ReasonCodes pkt)]"

definition encodeSubAck :: "Codec \<Rightarrow> SubAckPacket \<Rightarrow> byte list res \<times> Packet" where
  "encodeSubAck c pkt =
     emit (encodeSubAckBody c locusSubAck pkt) (sa_fh pkt) (SubAck pkt) (\<lambda>fh. SubAck (pkt\<lparr>sa_fh := fh\<rparr>))"

definition decodeUnsubAck :: "Codec \<Rightarrow> FixedHeader \<Rightarrow> Packet rd" where
  "decodeUnsubAck c fh =
     (if \<not> sp_ReasonCodes (spec c) \<and> fh_RemainingLength fh \<noteq> 2 then rfail ErrMalformedPacket
      else idThenBody fh (\<lambda>packetID.
        rthen (subAckFields c fh locusUnsubAck packetID) (\<lambda>p. rret (UnsubAck p))))"

definition encodeUnsubAckBody :: "Codec \<Rightarrow> SubAckPacket \<Rightarrow> byte list res" where
  "encodeUnsubAckBody c pkt =
     (if \<not> sp_ReasonCodes (spec c) \<and> (0 < length (sa_ReasonCodes pkt) \<or> sa_Properties pkt \<noteq> None)
      then Inl ErrMalformedPacket
      else encodeSubAckBody c locusUnsubAck pkt)"

definition encodeUnsubAck :: "Codec \<Rightarrow> SubAckPacket \<Rightarrow> byte list res \<times> Packet" where
  "encodeUnsubAck c pkt =
     emit (encodeUnsubAckBody c pkt) (sa_fh pkt) (UnsubAck pkt) (\<lambda>fh. UnsubAck (pkt\<lparr>sa_fh := fh\<rparr>))"

section \<open>PINGREQ, PINGRESP, DISCONNECT, AUTH\<close>

definition encodePingReq :: "PingPacket \<Rightarrow> byte list res \<times> Packet" where
  "encodePingReq pkt = emit (Inr []) (pg_fh pkt) (PingReq pkt) (\<lambda>fh. PingReq (pkt\<lparr>pg_fh := fh\<rparr>))"

definition encodePingResp :: "PingPacket \<Rightarrow> byte list res \<times> Packet" where
  "encodePingResp pkt = emit (Inr []) (pg_fh pkt) (PingResp pkt) (\<lambda>fh. PingResp (pkt\<lparr>pg_fh := fh\<rparr>))"

definition reasonFields :: "FixedHeader \<Rightarrow> (byte \<Rightarrow> bool) \<Rightarrow> propertyLocus \<Rightarrow> ReasonPacket rd" where
  "reasonFields fh valid locus =
     rthen (if 0 < fh_RemainingLength fh then ReadByte else rret 0) (\<lambda>reasonCode.
       if \<not> valid reasonCode then rfail ErrMalformedPacket
       else rthen (if 1 < fh_RemainingLength fh then lastProperties locus else rret None) (\<lambda>props.
         rret \<lparr> rp_fh = fh, rp_ReasonCode = reasonCode, rp_Properties = props \<rparr>))"

definition encodeReasonBody :: "ReasonPacket \<Rightarrow> propertyLocus \<Rightarrow> byte list res" where
  "encodeReasonBody pkt locus = wseq
     [(if rp_ReasonCode pkt \<noteq> 0 \<or> rp_Properties pkt \<noteq> None then Inr [rp_ReasonCode pkt] else Inr []),
      (case rp_Properties pkt of None \<Rightarrow> Inr [] | Some p \<Rightarrow> encodeProperties p locus)]"

definition decodeDisconnect :: "Codec \<Rightarrow> FixedHeader \<Rightarrow> Packet rd" where
  "decodeDisconnect c fh =
     (if \<not> sp_ReasonCodes (spec c) \<and> 0 < fh_RemainingLength fh then rfail ErrMalformedPacket
      else within (fh_RemainingLength fh)
        (rthen (reasonFields fh (\<lambda>_. True) locusDisconnect) (\<lambda>p. rret (Disconnect p))))"

definition encodeDisconnectBody :: "Codec \<Rightarrow> ReasonPacket \<Rightarrow> byte list res" where
  "encodeDisconnectBody c pkt =
     (if \<not> sp_ReasonCodes (spec c) \<and> (rp_ReasonCode pkt \<noteq> 0 \<or> rp_Properties pkt \<noteq> None)
      then Inl ErrMalformedPacket
      else encodeReasonBody pkt locusDisconnect)"

definition encodeDisconnect :: "Codec \<Rightarrow> ReasonPacket \<Rightarrow> byte list res \<times> Packet" where
  "encodeDisconnect c pkt =
     emit (encodeDisconnectBody c pkt) (rp_fh pkt) (Disconnect pkt) (\<lambda>fh. Disconnect (pkt\<lparr>rp_fh := fh\<rparr>))"

definition validAuthReasonCode :: "byte \<Rightarrow> bool" where
  "validAuthReasonCode r \<longleftrightarrow> r = 0x00 \<or> r = 0x18 \<or> r = 0x19"

definition decodeAuth :: "Codec \<Rightarrow> FixedHeader \<Rightarrow> Packet rd" where
  "decodeAuth c fh =
     (if \<not> sp_AuthPacket (spec c) then rfail ErrInvalidPacket
      else within (fh_RemainingLength fh)
        (rthen (reasonFields fh validAuthReasonCode locusAuth) (\<lambda>p. rret (Auth p))))"

definition encodeAuthBody :: "Codec \<Rightarrow> ReasonPacket \<Rightarrow> byte list res" where
  "encodeAuthBody c pkt =
     (if \<not> sp_AuthPacket (spec c) then Inl ErrInvalidPacket
      else if \<not> validAuthReasonCode (rp_ReasonCode pkt) then Inl ErrMalformedPacket
      else encodeReasonBody pkt locusAuth)"

definition encodeAuth :: "Codec \<Rightarrow> ReasonPacket \<Rightarrow> byte list res \<times> Packet" where
  "encodeAuth c pkt =
     emit (encodeAuthBody c pkt) (rp_fh pkt) (Auth pkt) (\<lambda>fh. Auth (pkt\<lparr>rp_fh := fh\<rparr>))"

section \<open>The dispatchers\<close>

text \<open>The body of every packet type but CONNECT, which alone changes the codec.\<close>

definition decodeBody :: "Codec \<Rightarrow> FixedHeader \<Rightarrow> Packet rd" where
  "decodeBody c fh = (let t = fh_PacketType fh in
      if t = PacketTypeConnAck then decodeConnAck c fh
      else if t = PacketTypePublish then decodePublish c fh
      else if t = PacketTypePubAck then decodePubAck c fh
      else if t = PacketTypePubRec then decodePubRec c fh
      else if t = PacketTypePubRel then decodePubRel c fh
      else if t = PacketTypePubComp then decodePubComp c fh
      else if t = PacketTypeSubscribe then decodeSubscribe c fh
      else if t = PacketTypeSubAck then decodeSubAck c fh
      else if t = PacketTypeUnsubscribe then decodeUnsubscribe c fh
      else if t = PacketTypeUnsubAck then decodeUnsubAck c fh
      else if t = PacketTypePingReq then
        (if fh_RemainingLength fh \<noteq> 0 then rfail ErrMalformedPacket else rret (PingReq \<lparr> pg_fh = fh \<rparr>))
      else if t = PacketTypePingResp then
        (if fh_RemainingLength fh \<noteq> 0 then rfail ErrMalformedPacket else rret (PingResp \<lparr> pg_fh = fh \<rparr>))
      else if t = PacketTypeDisconnect then decodeDisconnect c fh
      else if t = PacketTypeAuth then decodeAuth c fh
      else rfail ErrInvalidPacket)"

definition Decode :: "Codec \<Rightarrow> byte list \<Rightarrow> Packet res \<times> byte list \<times> Codec" where
  "Decode c0 s = (let c = syncSpec c0 in
     case decodeFixedHeader s of
       (Inl e, s') \<Rightarrow> (Inl e, s', c)
     | (Inr fh, s') \<Rightarrow>
         (case validateFixedHeaderFlags fh of
            Inl e \<Rightarrow> (Inl e, s', c)
          | Inr _ \<Rightarrow>
              if 256 * 1024 * 1024 - 1 < fh_RemainingLength fh then (Inl ErrPacketTooLarge, s', c)
              else if maxPacketSize c < fh_RemainingLength fh + fh_HeaderSize fh
                then (Inl ErrPacketTooLarge, s', c)
              else if fh_PacketType fh = PacketTypeConnect then decodeConnect c fh s'
              else (case decodeBody c fh s' of (r, s'') \<Rightarrow> (r, s'', c))))"

fun encodePacket :: "Codec \<Rightarrow> Packet \<Rightarrow> byte list res \<times> Packet \<times> Codec" where
  "encodePacket c (Connect p) = encodeConnect c p"
| "encodePacket c (ConnAck p) = (case encodeConnAck c p of (r, q) \<Rightarrow> (r, q, c))"
| "encodePacket c (Publish p) = (case encodePublish c p of (r, q) \<Rightarrow> (r, q, c))"
| "encodePacket c (PubAck p) = (case encodePubAck c p of (r, q) \<Rightarrow> (r, q, c))"
| "encodePacket c (PubRec p) = (case encodePubRec c p of (r, q) \<Rightarrow> (r, q, c))"
| "encodePacket c (PubRel p) = (case encodePubRel c p of (r, q) \<Rightarrow> (r, q, c))"
| "encodePacket c (PubComp p) = (case encodePubComp c p of (r, q) \<Rightarrow> (r, q, c))"
| "encodePacket c (Subscribe p) = (case encodeSubscribe c p of (r, q) \<Rightarrow> (r, q, c))"
| "encodePacket c (SubAck p) = (case encodeSubAck c p of (r, q) \<Rightarrow> (r, q, c))"
| "encodePacket c (Unsubscribe p) = (case encodeUnsubscribe c p of (r, q) \<Rightarrow> (r, q, c))"
| "encodePacket c (UnsubAck p) = (case encodeUnsubAck c p of (r, q) \<Rightarrow> (r, q, c))"
| "encodePacket c (PingReq p) = (case encodePingReq p of (r, q) \<Rightarrow> (r, q, c))"
| "encodePacket c (PingResp p) = (case encodePingResp p of (r, q) \<Rightarrow> (r, q, c))"
| "encodePacket c (Disconnect p) = (case encodeDisconnect c p of (r, q) \<Rightarrow> (r, q, c))"
| "encodePacket c (Auth p) = (case encodeAuth c p of (r, q) \<Rightarrow> (r, q, c))"

text \<open>
  What the writer receives, the packet as the call leaves it, and the codec as the call leaves
  it; an error means that not a byte was written.
\<close>

definition encodeTo :: "Codec \<Rightarrow> Packet \<Rightarrow> byte list res \<times> Packet \<times> Codec" where
  "encodeTo c p =
     (case validateFixedHeaderFlags (GetFixedHeader p) of
        Inl e \<Rightarrow> (Inl e, p, syncSpec c)
      | Inr _ \<Rightarrow> encodePacket (syncSpec c) p)"

definition Encode :: "Codec \<Rightarrow> Packet \<Rightarrow> byte list res \<times> Packet \<times> Codec" where
  "Encode c p =
     (if outboundMax c = 0 then encodeTo c p
      else case encodeTo c p of
          (Inl e, p', c') \<Rightarrow> (Inl e, p', c')
        | (Inr buf, p', c') \<Rightarrow>
            if outboundMax c' < length buf then (Inl ErrPacketTooLarge, p', c') else (Inr buf, p', c'))"

section \<open>The handshake\<close>

record ConnectInfo =
  ci_Version :: byte
  ci_ClientID :: gostring
  ci_Username :: gostring
  ci_Password :: "byte list"
  ci_CleanSession :: bool
  ci_KeepAlive :: u16
  ci_WillTopic :: gostring
  ci_WillPayload :: "byte list"
  ci_WillQoS :: byte
  ci_WillRetain :: bool
  ci_Extensions :: ConnectPacket

definition toConnectInfo :: "ConnectPacket \<Rightarrow> ConnectInfo" where
  "toConnectInfo cp =
     \<lparr> ci_Version = cp_ProtocolVersion cp, ci_ClientID = cp_ClientID cp, ci_Username = cp_Username cp,
       ci_Password = cp_Password cp, ci_CleanSession = cf_CleanSession (cp_Flags cp),
       ci_KeepAlive = cp_KeepAlive cp, ci_WillTopic = cp_WillTopic cp,
       ci_WillPayload = cp_WillMessage cp, ci_WillQoS = cf_WillQoS (cp_Flags cp),
       ci_WillRetain = cf_WillRetain (cp_Flags cp), ci_Extensions = cp \<rparr>"

text \<open>\<open>Identify\<close> on what a one-byte peek returned.\<close>

definition Identify :: "byte list \<Rightarrow> bool res" where
  "Identify s = (case s of [] \<Rightarrow> Inl EOF | b # _ \<Rightarrow> Inr (drop_bit 4 b = PacketTypeConnect))"

text \<open>The read deadline is not modelled; the codec is returned on every path.\<close>

definition Handshake :: "int \<Rightarrow> byte list \<Rightarrow> ConnectInfo res \<times> byte list \<times> Codec" where
  "Handshake maxSize s =
     (case Decode (NewCodec maxSize) s of
        (Inl e, s', c) \<Rightarrow> (Inl e, s', c)
      | (Inr p, s', c) \<Rightarrow>
          (case p of Connect cp \<Rightarrow> (Inr (toConnectInfo cp), s', c) | _ \<Rightarrow> (Inl ErrInvalidPacket, s', c)))"

end
