(* ===== verification/CodecFrames.thy ===== *)
theory CodecFrames
  imports Codec
begin

text \<open>
  Frame synchronisation of \<^verbatim>\<open>Decode\<close>: a decoded packet takes exactly its fixed header and
  Remaining Length bytes off the connection, a rejected one never more, so the next packet is
  read from its first byte; and what \<^verbatim>\<open>Encode\<close> puts on the wire respects the bound the
  client declared.
\<close>

section \<open>Bodies\<close>

lemma reads_le_rthen_0:
  "reads_le n p \<Longrightarrow> reads_eq n p \<Longrightarrow> (\<And>x. reads_le 0 (f x)) \<Longrightarrow> reads_le n (rthen p f)"
  by (rule reads_le_rthen_fixed [where m = n and h = 0]) auto

lemma reads_within [rd_wf]: "reads_le n (within n p)" "reads_eq n (within n p)"
  unfolding within_def
  by (auto intro!: reads_le_rthen_fixed [where m = n and h = 0] reads_eq_rthen_ret rd_wf)

lemma reads_idThenBody:
  "reads_le (fh_RemainingLength fh) (idThenBody fh b)" "reads_eq (fh_RemainingLength fh) (idThenBody fh b)"
proof -
  let ?n = "fh_RemainingLength fh"
  let ?g = "\<lambda>i. if i = 0 then rfail ErrMalformedPacket else within (?n - 2) (b i)"
  have "reads_le ?n (rthen readUint16 ?g)" if "2 \<le> ?n"
    using that by (intro reads_le_rthen_fixed [where m = 2 and h = "?n - 2"] rd_wf) auto
  then show "reads_le ?n (idThenBody fh b)" by (auto simp: idThenBody_def intro: rd_wf)
  have "reads_eq ?n (rthen readUint16 ?g)" if "2 \<le> ?n"
    using that by (intro reads_eq_rthen [where m = 2 and k = "?n - 2"] rd_wf) auto
  then show "reads_eq ?n (idThenBody fh b)" by (auto simp: idThenBody_def intro: rd_wf)
qed

lemma reads_decodePublishID:
  "reads_le (if 0 < fh_QoS fh then 2 else 0) (decodePublishID fh n)"
  "reads_eq (if 0 < fh_QoS fh then 2 else 0) (decodePublishID fh n)"
  unfolding decodePublishID_def
  by (auto intro!: reads_le_rthen_fixed [where m = 2 and h = 0] reads_eq_rthen_ret rd_wf)

lemma decodePublishID_short:
  "fh_RemainingLength fh < n + (if 0 < fh_QoS fh then 2 else 0) \<Longrightarrow> n \<le> fh_RemainingLength fh \<Longrightarrow>
   decodePublishID fh n s = (Inl ErrMalformedPacket, s)"
  by (auto simp: decodePublishID_def split: if_splits)

lemma reads_decodePublishBody:
  "reads_le n (decodePublishBody c n)" "reads_eq n (decodePublishBody c n)"
  unfolding decodePublishBody_def
  by (auto intro!: reads_le_rthen_fixed [where m = n and h = 0] reads_eq_rthen_ret rd_wf)

text \<open>PUBLISH after its topic: the identifier and the body.\<close>

definition publishRest :: "Codec \<Rightarrow> FixedHeader \<Rightarrow> gostring \<Rightarrow> Packet rd" where
  "publishRest c fh topic =
     rthen (decodePublishID fh (2 + length topic)) (\<lambda>packetID.
          let headerBytes = 2 + length topic + (if 0 < fh_QoS fh then 2 else 0)
          in if fh_RemainingLength fh < headerBytes then rfail ErrMalformedPacket
             else rthen (decodePublishBody c (fh_RemainingLength fh - headerBytes)) (\<lambda>(props, payload).
               if \<not> publishTopicOk c topic props then rfail ErrMalformedPacket
               else rret (Publish \<lparr> pp_fh = fh, pp_PacketID = packetID, pp_Topic = topic,
                                    pp_Payload = payload, pp_Properties = props \<rparr>)))"

lemma decodePublish_rest:
  "decodePublish c fh = (if fh_RemainingLength fh < 2 then rfail ErrMalformedPacket
     else rthen (readStringBounded (fh_RemainingLength fh - 2)) (publishRest c fh))"
  by (simp add: decodePublish_def publishRest_def [abs_def])

lemma reads_publishRest:
  assumes "2 + length topic \<le> fh_RemainingLength fh"
  shows "reads_le (fh_RemainingLength fh - (2 + length topic)) (publishRest c fh topic)"
    "reads_eq (fh_RemainingLength fh - (2 + length topic)) (publishRest c fh topic)"
proof -
  let ?n = "fh_RemainingLength fh" and ?i = "if 0 < fh_QoS fh then 2 else 0 :: nat"
  let ?r = "?n - (2 + length topic) - ?i"
  show "reads_le (?n - (2 + length topic)) (publishRest c fh topic)"
  proof (cases "?n < 2 + length topic + ?i")
    case True
    then have "publishRest c fh topic = rfail ErrMalformedPacket"
      using assms decodePublishID_short [of fh "2 + length topic"]
      by (intro ext) (simp add: publishRest_def)
    then show ?thesis by (simp add: reads_le_rfail)
  next
    case False
    then show ?thesis unfolding publishRest_def Let_def
      by (intro reads_le_rthen_fixed [where m = ?i and h = ?r, OF reads_decodePublishID])
        (auto intro!: reads_le_rthen_0 reads_decodePublishBody reads_le_rfail reads_le_rret)
  qed
  show "reads_eq (?n - (2 + length topic)) (publishRest c fh topic)"
  proof (cases "?n < 2 + length topic + ?i")
    case True
    then have "publishRest c fh topic = rfail ErrMalformedPacket"
      using assms decodePublishID_short [of fh "2 + length topic"]
      by (intro ext) (simp add: publishRest_def)
    then show ?thesis by (simp add: reads_eq_rfail)
  next
    case False
    then show ?thesis unfolding publishRest_def Let_def
      by (intro reads_eq_rthen [where m = ?i and k = ?r, OF reads_decodePublishID(2)])
        (auto intro!: reads_eq_rthen_ret reads_decodePublishBody reads_eq_rfail reads_eq_rret)
  qed
qed

lemma reads_decodePublish:
  "reads_le (fh_RemainingLength fh) (decodePublish c fh)" "reads_eq (fh_RemainingLength fh) (decodePublish c fh)"
proof -
  let ?n = "fh_RemainingLength fh"
  have len: "2 + length x \<le> ?n" if "readStringBounded (?n - 2) s = (Inr x, t)" "2 \<le> ?n" for s x t
    using readString_eq_Inr(4) [OF that(1)] that(2) by (cases "x = []") auto
  have "reads_le ?n (rthen (readStringBounded (?n - 2)) (publishRest c fh))" if n: "2 \<le> ?n"
  proof (rule reads_leI)
    fix s
    obtain r t where rt: "readStringBounded (?n - 2) s = (r, t)" by force
    show "\<exists>k\<le>?n. snd (rthen (readStringBounded (?n - 2)) (publishRest c fh) s) = drop k s"
    proof (cases r)
      case (Inl e)
      obtain k where "k \<le> 2 + (?n - 2)" "snd (readStringBounded (?n - 2) s) = drop k s"
        using reads_leD [OF reads_le_readStringBounded] by blast
      with Inl rt n show ?thesis by (intro exI [of _ k]) simp
    next
      case (Inr x)
      with rt have r': "readStringBounded (?n - 2) s = (Inr x, t)" by simp
      obtain k where "k \<le> ?n - (2 + length x)" "snd (publishRest c fh x t) = drop k t"
        using reads_leD [OF reads_publishRest(1) [OF len [OF r' n], of c], of t] by auto
      with r' readString_eq_Inr(2) [OF r'] len [OF r' n] show ?thesis
        by (intro exI [of _ "2 + length x + k"]) (auto simp: add.commute)
    qed
  qed
  then show "reads_le ?n (decodePublish c fh)"
    unfolding decodePublish_rest by (auto intro: rd_wf)
  have "reads_eq ?n (rthen (readStringBounded (?n - 2)) (publishRest c fh))" if n: "2 \<le> ?n"
    unfolding reads_eq_def
  proof (intro allI impI)
    fix s y t assume "rthen (readStringBounded (?n - 2)) (publishRest c fh) s = (Inr y, t)"
    then obtain x u where x: "readStringBounded (?n - 2) s = (Inr x, u)"
      and y: "publishRest c fh x u = (Inr y, t)" by (auto simp: rthen_eq_Inr)
    have "?n - (2 + length x) + (2 + length x) = ?n" using len [OF x n] by simp
    moreover have "t = drop (?n - (2 + length x) + (2 + length x)) s"
      using reads_eqD [OF reads_publishRest(2) [OF len [OF x n]] y] readString_eq_Inr(1,2) [OF x]
      by simp
    moreover have "?n \<le> length s"
      using reads_eqD [OF reads_publishRest(2) [OF len [OF x n]] y] readString_eq_Inr(1,2) [OF x]
      by (simp only: length_drop) linarith
    ultimately show "?n \<le> length s \<and> t = drop ?n s" by metis
  qed
  then show "reads_eq ?n (decodePublish c fh)"
    unfolding decodePublish_rest by (auto intro: rd_wf)
qed

lemmas reads_bodies = reads_within reads_idThenBody reads_decodePublish

lemma reads_decodeAckFields:
  "reads_le (fh_RemainingLength fh) (decodeAckFields c fh)" "reads_eq (fh_RemainingLength fh) (decodeAckFields c fh)"
  unfolding decodeAckFields_def by (auto intro!: reads_bodies rd_wf)

lemma reads_wrap:
  "reads_le n p \<Longrightarrow> reads_eq n p \<Longrightarrow> reads_le n (rthen p (\<lambda>a. rret (f a)))"
  "reads_eq n p \<Longrightarrow> reads_eq n (rthen p (\<lambda>a. rret (f a)))"
  by (auto intro!: reads_le_rthen_fixed [where m = n and h = 0] reads_eq_rthen_ret rd_wf)

lemma reads_ping:
  "reads_le n (if n \<noteq> 0 then rfail e else rret x)" "reads_eq n (if n \<noteq> 0 then rfail e else rret x)"
  by (auto intro: rd_wf)

lemmas body_defs = decodeConnAck_def decodePubAck_def decodePubRec_def decodePubRel_def
  decodePubComp_def decodeSubscribe_def decodeSubAck_def decodeUnsubscribe_def decodeUnsubAck_def
  decodeDisconnect_def decodeAuth_def

lemma reads_decodeBody:
  "reads_le (fh_RemainingLength fh) (decodeBody c fh)" "reads_eq (fh_RemainingLength fh) (decodeBody c fh)"
  unfolding decodeBody_def body_defs Let_def
  by (intro reads_le_if reads_eq_if reads_ping reads_bodies reads_wrap reads_decodeAckFields
      reads_le_rfail reads_eq_rfail)+

section \<open>Decoded packets\<close>

text \<open>The packet type code of each constructor.\<close>

fun packetCode :: "Packet \<Rightarrow> byte" where
  "packetCode (Connect _) = PacketTypeConnect"
| "packetCode (ConnAck _) = PacketTypeConnAck"
| "packetCode (Publish _) = PacketTypePublish"
| "packetCode (PubAck _) = PacketTypePubAck"
| "packetCode (PubRec _) = PacketTypePubRec"
| "packetCode (PubRel _) = PacketTypePubRel"
| "packetCode (PubComp _) = PacketTypePubComp"
| "packetCode (Subscribe _) = PacketTypeSubscribe"
| "packetCode (SubAck _) = PacketTypeSubAck"
| "packetCode (Unsubscribe _) = PacketTypeUnsubscribe"
| "packetCode (UnsubAck _) = PacketTypeUnsubAck"
| "packetCode (PingReq _) = PacketTypePingReq"
| "packetCode (PingResp _) = PacketTypePingResp"
| "packetCode (Disconnect _) = PacketTypeDisconnect"
| "packetCode (Auth _) = PacketTypeAuth"

definition decodesTo :: "FixedHeader \<Rightarrow> byte \<Rightarrow> Packet rd \<Rightarrow> bool" where
  "decodesTo fh t p \<longleftrightarrow> (\<forall>s r s'. p s = (Inr r, s') \<longrightarrow> GetFixedHeader r = fh \<and> packetCode r = t)"

named_theorems decodes_to \<open>the header and the type of what a reader returns\<close>

lemma decodesTo_rret [decodes_to]: "GetFixedHeader r = fh \<Longrightarrow> packetCode r = t \<Longrightarrow> decodesTo fh t (rret r)"
  by (simp add: decodesTo_def)

lemma decodesTo_rfail [decodes_to]: "decodesTo fh t (rfail e)"
  by (simp add: decodesTo_def)

lemma decodesTo_rthen [decodes_to]: "(\<And>x. decodesTo fh t (f x)) \<Longrightarrow> decodesTo fh t (rthen p f)"
  unfolding decodesTo_def by (auto simp: rthen_eq_Inr)

lemma decodesTo_if [decodes_to]:
  "(b \<Longrightarrow> decodesTo fh t p) \<Longrightarrow> (\<not> b \<Longrightarrow> decodesTo fh t q) \<Longrightarrow> decodesTo fh t (if b then p else q)"
  by simp

lemma decodesTo_ifMore [decodes_to]:
  "decodesTo fh t p \<Longrightarrow> decodesTo fh t q \<Longrightarrow> decodesTo fh t (ifMore p q)"
  by (auto simp: decodesTo_def ifMore_def)

lemma decodesTo_within [decodes_to]: "decodesTo fh t p \<Longrightarrow> decodesTo fh t (within n p)"
  unfolding decodesTo_def within_def by (auto simp: rthen_eq_Inr) (metis prod.collapse)+

lemma decodesTo_prod [decodes_to]:
  "(\<And>a b. decodesTo fh t (f a b)) \<Longrightarrow> decodesTo fh t (case x of (a, b) \<Rightarrow> f a b)"
  by (simp split: prod.splits)

text \<open>A reader whose records all carry the given header.\<close>

definition keepsHeader :: "FixedHeader \<Rightarrow> ('a \<Rightarrow> FixedHeader) \<Rightarrow> 'a rd \<Rightarrow> bool" where
  "keepsHeader fh h p \<longleftrightarrow> (\<forall>s x s'. p s = (Inr x, s') \<longrightarrow> h x = fh)"

lemma keepsHeader_fields:
  "keepsHeader fh ak_fh (decodeAckFields c fh)" "keepsHeader fh sa_fh (subAckFields c fh l i)"
  "keepsHeader fh rp_fh (reasonFields fh valid l)"
  by (auto simp: keepsHeader_def decodeAckFields_def within_def ackFields_def subAckFields_def
      reasonFields_def rthen_eq_Inr prod_eq_iff split: if_splits) (auto simp: rthen_def split: prod.splits sum.splits if_splits)

lemma decodesTo_wrap:
  assumes "keepsHeader fh h p" "\<And>x. GetFixedHeader (f x) = h x" "\<And>x. packetCode (f x) = t"
  shows "decodesTo fh t (rthen p (\<lambda>x. rret (f x)))"
  using assms unfolding decodesTo_def keepsHeader_def by (auto simp: rthen_eq_Inr) blast

lemma decodesTo_idThenBody [decodes_to]:
  "(\<And>i. decodesTo fh t (b i)) \<Longrightarrow> decodesTo fh t (idThenBody fh b)"
  unfolding idThenBody_def by (intro decodes_to)

lemmas decodesTo_records = decodesTo_wrap [OF keepsHeader_fields(1)]
  decodesTo_wrap [OF keepsHeader_fields(2)] decodesTo_wrap [OF keepsHeader_fields(3)]

lemma decodesTo_acks:
  "decodesTo fh PacketTypePubAck (decodePubAck c fh)" "decodesTo fh PacketTypePubRec (decodePubRec c fh)"
  "decodesTo fh PacketTypePubRel (decodePubRel c fh)" "decodesTo fh PacketTypePubComp (decodePubComp c fh)"
  unfolding body_defs by (rule decodesTo_records; simp)+

lemma decodesTo_records_bodies:
  "decodesTo fh PacketTypeSubAck (decodeSubAck c fh)" "decodesTo fh PacketTypeUnsubAck (decodeUnsubAck c fh)"
  "decodesTo fh PacketTypeDisconnect (decodeDisconnect c fh)" "decodesTo fh PacketTypeAuth (decodeAuth c fh)"
  unfolding body_defs
  by (intro decodesTo_if decodesTo_rfail decodesTo_idThenBody decodesTo_within decodesTo_records; simp)+

lemma decodesTo_plain_bodies:
  "decodesTo fh PacketTypeConnAck (decodeConnAck c fh)" "decodesTo fh PacketTypePublish (decodePublish c fh)"
  "decodesTo fh PacketTypeSubscribe (decodeSubscribe c fh)"
  "decodesTo fh PacketTypeUnsubscribe (decodeUnsubscribe c fh)"
  unfolding body_defs decodePublish_def connAckFields_def subscribeFields_def unsubscribeFields_def Let_def
  by (intro decodes_to; simp)+

lemma decodesTo_decodeBody: "decodesTo fh (fh_PacketType fh) (decodeBody c fh)"
  unfolding decodeBody_def Let_def
  by (simp add: decodesTo_acks decodesTo_records_bodies decodesTo_plain_bodies decodesTo_rret decodesTo_rfail)

lemma decodesTo_connectFields: "decodesTo fh PacketTypeConnect (connectFields c fh n v)"
  unfolding connectFields_def Let_def by (intro decodes_to) simp_all

section \<open>Frames\<close>

lemma decodeConnect_frame:
  "decodeConnect c fh s = (Inr p, t, c') \<Longrightarrow>
   GetFixedHeader p = fh \<and> packetCode p = PacketTypeConnect \<and>
   fh_RemainingLength fh \<le> length s \<and> t = drop (fh_RemainingLength fh) s"
  using decodesTo_connectFields
  by (auto simp: decodeConnect_def connectBody_def readFull_def Let_def decodesTo_def
      split: prod.splits sum.splits if_splits) (metis prod.collapse)+

lemma decodeConnect_le: "\<exists>k \<le> fh_RemainingLength fh. fst (snd (decodeConnect c fh s)) = drop k s"
  using reads_leD [OF reads_le_readFull, of "fh_RemainingLength fh" s]
  by (auto simp: decodeConnect_def split: prod.splits sum.splits)

lemma Decode_frame:
  assumes "Decode c s = (Inr p, t, c')"
  defines "fh \<equiv> GetFixedHeader p"
  shows "wfHeader fh" "validateFixedHeaderFlags fh = Inr ()" "packetCode p = fh_PacketType fh"
    "fh_HeaderSize fh + fh_RemainingLength fh \<le> maxPacketSize c"
    "\<exists>body. s = encodeFixedHeader fh @ body @ t \<and> length body = fh_RemainingLength fh"
proof -
  from assms(1) obtain h u where d: "decodeFixedHeader s = (Inr h, u)"
    and v: "validateFixedHeaderFlags h = Inr ()"
    and m: "fh_RemainingLength h + fh_HeaderSize h \<le> maxPacketSize (syncSpec c)"
    and b: "if fh_PacketType h = PacketTypeConnect then decodeConnect (syncSpec c) h u = (Inr p, t, c')
            else decodeBody (syncSpec c) h u = (Inr p, t) \<and> c' = syncSpec c"
    by (auto simp: Decode_def Let_def split: prod.splits sum.splits if_splits)
  have max: "maxPacketSize (syncSpec c) = maxPacketSize c"
    by (simp add: syncSpec_def split: prod.splits bool.splits)
  have h: "GetFixedHeader p = h \<and> packetCode p = fh_PacketType h \<and>
      fh_RemainingLength h \<le> length u \<and> t = drop (fh_RemainingLength h) u"
  proof (cases "fh_PacketType h = PacketTypeConnect")
    case True
    with b show ?thesis using decodeConnect_frame by simp
  next
    case False
    with b have "decodeBody (syncSpec c) h u = (Inr p, t)" by simp
    with reads_eqD [OF reads_decodeBody(2) this] decodesTo_decodeBody [of h "syncSpec c"]
    show ?thesis unfolding decodesTo_def by blast
  qed
  then have fh: "fh = h" by (simp add: fh_def)
  from d have s: "s = encodeFixedHeader h @ u" and w: "wfHeader h" by (simp_all add: decodeFixedHeader_iff)
  from v w h m max show "wfHeader fh" "validateFixedHeaderFlags fh = Inr ()"
    "packetCode p = fh_PacketType fh" "fh_HeaderSize fh + fh_RemainingLength fh \<le> maxPacketSize c"
    by (simp_all add: fh)
  show "\<exists>body. s = encodeFixedHeader fh @ body @ t \<and> length body = fh_RemainingLength fh"
    using h s by (intro exI [of _ "take (fh_RemainingLength h) u"]) (auto simp: fh)
qed

lemma Decode_never_overreads:
  assumes "decodeFixedHeader s = (Inr fh, u)"
  shows "\<exists>k \<le> fh_RemainingLength fh. fst (snd (Decode c s)) = drop k u"
proof -
  have "\<exists>k \<le> fh_RemainingLength fh. snd (decodeBody (syncSpec c) fh u) = drop k u"
    by (rule reads_leD [OF reads_decodeBody(1)])
  moreover have "\<exists>k \<le> fh_RemainingLength fh. fst (snd (decodeConnect (syncSpec c) fh u)) = drop k u"
    by (rule decodeConnect_le)
  moreover have "\<exists>k \<le> fh_RemainingLength fh. u = drop k u" by (rule exI [of _ 0]) simp
  ultimately show ?thesis using assms
    by (auto simp: Decode_def Let_def split: prod.splits sum.splits)
qed

section \<open>The outbound bound\<close>

lemma encodeTo_outboundMax: "encodeTo c p = (r, p', c') \<Longrightarrow> outboundMax c' = outboundMax c"
proof -
  have s: "outboundMax (syncSpec d) = outboundMax d" "outboundMax (setVersion d v) = outboundMax d" for d v
    by (simp_all add: setVersion_def syncSpec_def split: prod.splits bool.splits)
  show "encodeTo c p = (r, p', c') \<Longrightarrow> outboundMax c' = outboundMax c"
    by (cases p) (auto simp: encodeTo_def encodeConnect_def Let_def s split: sum.splits prod.splits)
qed

lemma Encode_bounded:
  "Encode c p = (Inr bs, p', c') \<Longrightarrow> 0 < outboundMax c \<Longrightarrow> length bs \<le> outboundMax c"
  by (auto simp: Encode_def split: prod.splits sum.splits if_splits dest: encodeTo_outboundMax)

lemma Encode_fits:
  "encodeTo c p = (Inr bs, p', c') \<Longrightarrow> outboundMax c = 0 \<or> length bs \<le> outboundMax c \<Longrightarrow>
   Encode c p = (Inr bs, p', c')"
  by (auto simp: Encode_def dest: encodeTo_outboundMax)

end
