(* ===== verification/CodecRoundTrip.thy ===== *)
theory CodecRoundTrip
  imports CodecFrames
begin

text \<open>
  Every packet that \<^verbatim>\<open>Encode\<close> writes is read back by \<^verbatim>\<open>Decode\<close> as the same packet, up to
  the fields that are not on the wire; and every packet that \<^verbatim>\<open>Decode\<close> accepts, \<^verbatim>\<open>Encode\<close>
  accepts again, so a broker can forward what it received.
\<close>

section \<open>What is on the wire\<close>

definition propsWireable :: "propertyLocus \<Rightarrow> Properties option \<Rightarrow> bool" where
  "propsWireable l props \<longleftrightarrow> (case props of None \<Rightarrow> True | Some p \<Rightarrow> wireable l p)"

definition decodedProps :: "Properties option \<Rightarrow> Properties option" where
  "decodedProps props = (case props of None \<Rightarrow> None | Some p \<Rightarrow> decodedProperties p)"

text \<open>
  What no encoder checks although the decoder does: a QoS above 2 in PUBLISH, subscription
  options in a packet of a version without them, and the property rules of \<open>wireable\<close>.
\<close>

fun wirePacket :: "Spec \<Rightarrow> Packet \<Rightarrow> bool" where
  "wirePacket sp (Connect p) \<longleftrightarrow> propsWireable locusConnect (cp_Properties p) \<and>
     (cf_WillFlag (cp_Flags p) \<longrightarrow> propsWireable locusWill (cp_WillProperties p))"
| "wirePacket sp (ConnAck p) \<longleftrightarrow> propsWireable locusConnAck (ca_Properties p)"
| "wirePacket sp (Publish p) \<longleftrightarrow> fh_QoS (pp_fh p) \<le> 2 \<and> propsWireable locusPublish (pp_Properties p)"
| "wirePacket sp (PubAck p) \<longleftrightarrow> propsWireable locusAck (ak_Properties p)"
| "wirePacket sp (PubRec p) \<longleftrightarrow> propsWireable locusAck (ak_Properties p)"
| "wirePacket sp (PubRel p) \<longleftrightarrow> propsWireable locusAck (ak_Properties p)"
| "wirePacket sp (PubComp p) \<longleftrightarrow> propsWireable locusAck (ak_Properties p)"
| "wirePacket sp (Subscribe p) \<longleftrightarrow> propsWireable locusSubscribe (sb_Properties p) \<and>
     (sp_Properties sp \<or> (\<forall>t \<in> set (sb_Topics p).
        \<not> tf_NoLocal t \<and> \<not> tf_RetainAsPublished t \<and> tf_RetainHandling t = 0))"
| "wirePacket sp (SubAck p) \<longleftrightarrow> propsWireable locusSubAck (sa_Properties p)"
| "wirePacket sp (Unsubscribe p) \<longleftrightarrow> propsWireable locusUnsubscribe (us_Properties p)"
| "wirePacket sp (UnsubAck p) \<longleftrightarrow> propsWireable locusUnsubAck (sa_Properties p)"
| "wirePacket sp (PingReq p) \<longleftrightarrow> True"
| "wirePacket sp (PingResp p) \<longleftrightarrow> True"
| "wirePacket sp (Disconnect p) \<longleftrightarrow> propsWireable locusDisconnect (rp_Properties p)"
| "wirePacket sp (Auth p) \<longleftrightarrow> propsWireable locusAuth (rp_Properties p)"

text \<open>
  The packet as the peer sees it: fields guarded by an unset flag, the reserved CONNECT bit, a
  Session Present of a version without it are gone, an empty property set is no property set,
  and the Subscription Identifier is repeated on every filter.
\<close>

definition normFlags :: "ConnectFlags \<Rightarrow> ConnectFlags" where
  "normFlags f = f\<lparr> cf_WillQoS := if cf_WillFlag f then cf_WillQoS f AND 0x03 else 0,
     cf_WillTopicFlag := cf_WillFlag f, cf_Reserved := False \<rparr>"

definition normConnect :: "FixedHeader \<Rightarrow> ConnectPacket \<Rightarrow> ConnectPacket" where
  "normConnect fh p = (let f = cp_Flags p in
     p\<lparr> cp_fh := fh, cp_Flags := normFlags f,
        cp_WillTopic := if cf_WillFlag f then cp_WillTopic p else [],
        cp_WillMessage := if cf_WillFlag f then cp_WillMessage p else [],
        cp_Username := if cf_UsernameFlag f then cp_Username p else [],
        cp_Password := if cf_PasswordFlag f then cp_Password p else [],
        cp_Properties := decodedProps (cp_Properties p),
        cp_WillProperties := if cf_WillFlag f then decodedProps (cp_WillProperties p) else None \<rparr>)"

definition normAck :: "FixedHeader \<Rightarrow> AckPacket \<Rightarrow> AckPacket" where
  "normAck fh p = p\<lparr>ak_fh := fh, ak_Properties := decodedProps (ak_Properties p)\<rparr>"

definition normSubAck :: "FixedHeader \<Rightarrow> SubAckPacket \<Rightarrow> SubAckPacket" where
  "normSubAck fh p = p\<lparr>sa_fh := fh, sa_Properties := decodedProps (sa_Properties p)\<rparr>"

definition normReason :: "FixedHeader \<Rightarrow> ReasonPacket \<Rightarrow> ReasonPacket" where
  "normReason fh p = p\<lparr>rp_fh := fh, rp_Properties := decodedProps (rp_Properties p)\<rparr>"

fun normPacket :: "Spec \<Rightarrow> FixedHeader \<Rightarrow> Packet \<Rightarrow> Packet" where
  "normPacket sp fh (Connect p) = Connect (normConnect fh p)"
| "normPacket sp fh (ConnAck p) = ConnAck (p\<lparr>ca_fh := fh,
     ca_SessionPresent := ca_SessionPresent p \<and> sp_ConnAckSessionPresent sp,
     ca_Properties := decodedProps (ca_Properties p)\<rparr>)"
| "normPacket sp fh (Publish p) = Publish (p\<lparr>pp_fh := fh, pp_Properties := decodedProps (pp_Properties p)\<rparr>)"
| "normPacket sp fh (PubAck p) = PubAck (normAck fh p)"
| "normPacket sp fh (PubRec p) = PubRec (normAck fh p)"
| "normPacket sp fh (PubRel p) = PubRel (normAck fh p)"
| "normPacket sp fh (PubComp p) = PubComp (normAck fh p)"
| "normPacket sp fh (Subscribe p) = (let props = decodedProps (sb_Properties p) in
     Subscribe (p\<lparr>sb_fh := fh, sb_Properties := props,
       sb_Topics := map (\<lambda>t. t\<lparr>tf_SubscriptionIdentifier := firstSubID props\<rparr>) (sb_Topics p)\<rparr>))"
| "normPacket sp fh (SubAck p) = SubAck (normSubAck fh p)"
| "normPacket sp fh (Unsubscribe p) =
     Unsubscribe (p\<lparr>us_fh := fh, us_Properties := decodedProps (us_Properties p)\<rparr>)"
| "normPacket sp fh (UnsubAck p) = UnsubAck (normSubAck fh p)"
| "normPacket sp fh (PingReq p) = PingReq \<lparr>pg_fh = fh\<rparr>"
| "normPacket sp fh (PingResp p) = PingResp \<lparr>pg_fh = fh\<rparr>"
| "normPacket sp fh (Disconnect p) = Disconnect (normReason fh p)"
| "normPacket sp fh (Auth p) = Auth (normReason fh p)"

section \<open>Reading back the parts\<close>

lemma wseq_Cons_Inr: "wseq (w # ws) = Inr d \<longleftrightarrow> (\<exists>a b. w = Inr a \<and> wseq ws = Inr b \<and> d = a @ b)"
  by (auto simp: rbind_eq_Inr)

lemma guard_Inr [simp]: "guard b e = Inr x \<longleftrightarrow> \<not> b \<and> x = []"
  by (auto simp: guard_def)

lemma if_Inr: "(if b then Inr x else Inr y :: 'a res) = Inr z \<longleftrightarrow> z = (if b then x else y)"
  by auto

lemmas wseq_Inr = wseq_Cons_Inr if_Inr

lemma within_read: "p buf = (Inr x, r) \<Longrightarrow> length buf = n \<Longrightarrow> within n p (buf @ s) = (Inr x, s)"
  by (simp add: within_def)

lemma read_last [simp]: "readUint16FromReader (writeUint16 v) = (Inr v, [])"
  using readUint16FromReader_write [of v "[]"] by simp

lemma ifMore_simps [simp]: "ifMore p q [] = q []" "s \<noteq> [] \<Longrightarrow> ifMore p q s = p s"
  by (simp_all add: ifMore_def)

lemma readRest_apply [simp]: "readRest s = (Inr s, [])"
  by (simp add: readRest_def)

lemma encodeProperties_not_Nil: "encodeProperties p l \<noteq> Inr []"
proof -
  have "writeVarInt v \<noteq> []" for v by (simp add: writeVarInt_eq_vbi)
  then show ?thesis by (auto simp: encodeProperties_def rbind_eq_Inr split: if_splits)
qed

lemma decodeProperties_some:
  assumes "encodeProperties p l = Inr bs" "propsWireable l (Some p)" "length (bs @ s) < 2 ^ 28"
  shows "decodeProperties l (bs @ s) = (Inr (decodedProps (Some p)), s)"
  using decodeProperties_encode [OF assms(1), of s] assms(2,3)
  by (simp add: propsWireable_def decodedProps_def)

lemma section_read:
  assumes "writePropertySection c props l = Inr bs" "propsWireable l props" "length (bs @ s) < 2 ^ 28"
  shows "sectionIf (sp_Properties (spec c)) l (bs @ s) = (Inr (decodedProps props), s)"
proof (cases props)
  case None
  then show ?thesis using assms(1) readVarInt_write [of 0 s]
    by (auto simp: writePropertySection_def rejectPreV5Properties_def sectionIf_def decodedProps_def
        decodeProperties_def split: if_splits)
next
  case (Some p)
  with assms have "sp_Properties (spec c)" "encodeProperties p l = Inr bs"
    by (auto simp: writePropertySection_def rejectPreV5Properties_def split: if_splits)
  with Some assms(2,3) decodeProperties_some show ?thesis by (simp add: sectionIf_def)
qed

lemma section_v5:
  assumes "writePropertySection c props l = Inr bs" "propsWireable l props" "length (bs @ s) < 2 ^ 28"
    "sp_Properties (spec c)"
  shows "decodeProperties l (bs @ s) = (Inr (decodedProps props), s)"
  using section_read [OF assms(1-3)] assms(4) by (simp add: sectionIf_def)

lemma section_v3:
  assumes "writePropertySection c props l = Inr bs" "\<not> sp_Properties (spec c)"
  shows "props = None" "bs = []"
  using assms by (auto simp: writePropertySection_def rejectPreV5Properties_def split: option.splits)

lemma section_v5_not_Nil:
  "writePropertySection c props l = Inr bs \<Longrightarrow> sp_Properties (spec c) \<Longrightarrow> bs \<noteq> []"
  using encodeProperties_not_Nil
  by (auto simp: writePropertySection_def writeVarInt_eq_vbi split: option.splits)

lemma lastProperties_read:
  assumes "encodeProperties p l = Inr bs" "propsWireable l (Some p)" "length bs < 2 ^ 28"
  shows "lastProperties l bs = (Inr (decodedProps (Some p)), [])"
  using decodeProperties_some [OF assms(1,2), of "[]"] assms(3) by (simp add: lastProperties_def)

lemma aliasPresent_decoded: "aliasPresent (decodedProps props) = aliasPresent props"
  by (cases props) (auto simp: aliasPresent_def decodedProps_def decodedProperties_def
      normProperties_def emptyProperties_def)

lemma publishTopicOk_decoded: "publishTopicOk c t (decodedProps props) = publishTopicOk c t props"
  by (simp add: publishTopicOk_def aliasPresent_decoded)

section \<open>Packet by packet\<close>

lemma publish_read:
  assumes e: "encodePublishBody c p = Inr buf" and w: "propsWireable locusPublish (pp_Properties p)"
    and h: "fh_RemainingLength fh = length buf" "fh_QoS fh = fh_QoS (pp_fh p)" and n: "length buf < 2 ^ 28"
  shows "decodePublish c fh (buf @ s) =
     (Inr (Publish (p\<lparr>pp_fh := fh, pp_Properties := decodedProps (pp_Properties p)\<rparr>)), s)"
proof -
  from e obtain ts ps where t: "writeString (pp_Topic p) = Inr ts"
    and ps: "writePropertySection c (pp_Properties p) locusPublish = Inr ps"
    and buf: "buf = ts @ (if 0 < fh_QoS (pp_fh p) then writeUint16 (pp_PacketID p) else []) @ ps @ pp_Payload p"
    and ok: "publishTopicOk c (pp_Topic p) (pp_Properties p)"
    and id: "fh_QoS (pp_fh p) = 0 \<longrightarrow> pp_PacketID p = 0" "0 < fh_QoS (pp_fh p) \<longrightarrow> pp_PacketID p \<noteq> 0"
    by (auto simp: encodePublishBody_def wseq_Inr word_gt_0 simp del: wseq.simps(2))
  have lts: "length ts = 2 + length (pp_Topic p)" by (rule length_writeString [OF t])
  have top: "readStringBounded (length buf - 2) (buf @ s) =
      (Inr (pp_Topic p), drop (length ts) buf @ s)"
    using readStringBounded_write [OF t, of "length buf - 2" "drop (length ts) buf @ s"] buf lts by simp
  have pid: "decodePublishID fh (2 + length (pp_Topic p)) (drop (length ts) buf @ s) =
      (Inr (pp_PacketID p), (ps @ pp_Payload p) @ s)"
    using id h buf lts by (auto simp: decodePublishID_def word_gt_0)
  have body: "decodePublishBody c (length ps + length (pp_Payload p)) ((ps @ pp_Payload p) @ s) =
      (Inr (decodedProps (pp_Properties p), pp_Payload p), s)"
  proof (cases "sp_Properties (spec c)")
    case True
    have "length (ps @ pp_Payload p) < 2 ^ 28" using n buf by simp
    from section_v5 [OF ps w this True] have "within (length (ps @ pp_Payload p))
        (rthen (decodeProperties locusPublish) (\<lambda>props. rthen readRest (\<lambda>payload. rret (props, payload))))
        ((ps @ pp_Payload p) @ s) = (Inr (decodedProps (pp_Properties p), pp_Payload p), s)"
      by (intro within_read [where r = "[]"]) simp_all
    with True show ?thesis by (simp add: decodePublishBody_def)
  next
    case False
    with section_v3 [OF ps False] show ?thesis by (simp add: decodePublishBody_def decodedProps_def)
  qed
  have "length buf - (2 + length (pp_Topic p) + (if 0 < fh_QoS fh then 2 else 0)) = length ps + length (pp_Payload p)"
    "\<not> length buf < 2 + length (pp_Topic p) + (if 0 < fh_QoS fh then 2 else 0)" "\<not> length buf < 2"
    using buf lts h(2) by auto
  then show ?thesis
    unfolding decodePublish_def using h(1) top pid body ok
    by (simp add: publishTopicOk_decoded)
qed

lemma ack_read:
  assumes e: "encodeAckBody c p = Inr buf" and w: "propsWireable locusAck (ak_Properties p)"
    and h: "fh_RemainingLength fh = length buf" and n: "length buf < 2 ^ 28"
  shows "decodeAckFields c fh (buf @ s) = (Inr (normAck fh p), s)"
proof -
  from e obtain ps where id: "ak_PacketID p \<noteq> 0"
    and v: "sp_ReasonCodes (spec c) \<or> ak_ReasonCode p = 0 \<and> ak_Properties p = None"
    and ps: "(case ak_Properties p of None \<Rightarrow> Inr [] | Some q \<Rightarrow> encodeProperties q locusAck) = Inr ps"
    and buf: "buf = writeUint16 (ak_PacketID p) @
       (if ak_ReasonCode p \<noteq> 0 \<or> ak_Properties p \<noteq> None then [ak_ReasonCode p] else []) @ ps"
    by (auto simp: encodeAckBody_def encodeAckFields_def wseq_Inr simp del: wseq.simps(2) split: if_splits)
  have props: "ifMore (lastProperties locusAck) (rret None) ps = (Inr (decodedProps (ak_Properties p)), [])"
  proof (cases "ak_Properties p")
    case (Some q)
    with ps encodeProperties_not_Nil [of q locusAck] have "ps \<noteq> []" by auto
    then show ?thesis using lastProperties_read [of q locusAck ps] Some ps w n buf by simp
  qed (use ps in \<open>simp add: decodedProps_def\<close>)
  have "ackFields fh buf = (Inr (normAck fh p), [])"
    unfolding ackFields_def buf using id ps props
    by (cases p; cases "ak_ReasonCode p \<noteq> 0 \<or> ak_Properties p \<noteq> None") (auto simp: normAck_def)
  then have "within (length buf) (ackFields fh) (buf @ s) = (Inr (normAck fh p), s)"
    by (rule within_read) simp
  moreover have "sp_ReasonCodes (spec c) \<or> length buf = 2" using v ps buf by auto
  moreover have "\<not> length buf < 2" using buf by simp
  ultimately show ?thesis unfolding decodeAckFields_def h by auto
qed

text \<open>CONNECT: the flag byte bit by bit, then the fields in order.\<close>

lemma flagsByte_bit:
  "n < 8 \<Longrightarrow> bit (flagsByte f) n =
     (if n = 7 then cf_UsernameFlag f else if n = 6 then cf_PasswordFlag f
      else if n = 5 then cf_WillRetain f else if n = 4 then cf_WillFlag f \<and> bit (cf_WillQoS f) 1
      else if n = 3 then cf_WillFlag f \<and> bit (cf_WillQoS f) 0 else if n = 2 then cf_WillFlag f
      else if n = 1 then cf_CleanSession f else False)"
  unfolding flagsByte_def masks bit_or_iff if_bit bit_push_bit_iff bit_take_bit_iff byte_const_bits
  by (auto simp: less_Suc_eq numeral_eq_Suc)

lemma connectFlagsOf_flagsByte: "connectFlagsOf (flagsByte f) = normFlags f"
proof -
  have "take_bit 2 (drop_bit 3 (flagsByte f)) = (if cf_WillFlag f then take_bit 2 (cf_WillQoS f) else 0)"
  proof (rule byte_eqI)
    fix n :: nat
    have "n < 2 \<longleftrightarrow> n = 0 \<or> n = 1" by auto
    then show "bit (take_bit 2 (drop_bit 3 (flagsByte f))) n =
        bit (if cf_WillFlag f then take_bit 2 (cf_WillQoS f) else 0) n"
      by (auto simp: bit_take_bit_iff bit_drop_bit_eq flagsByte_bit)
  qed
  then show ?thesis
    unfolding connectFlagsOf_def normFlags_def masks byte_bits
    by (cases f) (simp add: flagsByte_bit)
qed

lemma readBlob_write:
  "writeBlob d e = Inr bs \<Longrightarrow> readBlob (bs @ s) = (Inr d, s)"
  by (auto simp: writeBlob_def readBlob_def unat_of_nat_u16 split: if_splits)

lemma normFlags_simps [simp]:
  "cf_WillFlag (normFlags f) = cf_WillFlag f" "cf_UsernameFlag (normFlags f) = cf_UsernameFlag f"
  "cf_PasswordFlag (normFlags f) = cf_PasswordFlag f"
  by (simp_all add: normFlags_def)

definition willBytes :: "Codec \<Rightarrow> ConnectPacket \<Rightarrow> byte list res list" where
  "willBytes c p = (if cf_WillFlag (cp_Flags p) then
     [writePropertySection c (cp_WillProperties p) locusWill, writeString (cp_WillTopic p),
      writeBlob (cp_WillMessage p) ErrWillMessageTooLong] else [])"

lemma will_read:
  assumes e: "wseq (willBytes c p) = Inr wb" and w: "wirePacket sp (Connect p)" and n: "length (wb @ s) < 2 ^ 28"
  shows "decodeWill c (normFlags (cp_Flags p)) (wb @ s) =
    (Inr (cp_WillProperties (normConnect fh p), cp_WillTopic (normConnect fh p), cp_WillMessage (normConnect fh p)), s)"
proof (cases "cf_WillFlag (cp_Flags p)")
  case True
  with e obtain ps ts ms where ps: "writePropertySection c (cp_WillProperties p) locusWill = Inr ps"
    and ts: "writeString (cp_WillTopic p) = Inr ts" and ms: "writeBlob (cp_WillMessage p) ErrWillMessageTooLong = Inr ms"
    and wb: "wb = ps @ ts @ ms"
    by (auto simp: willBytes_def wseq_Inr simp del: wseq.simps(2))
  have "sectionIf (sp_Properties (spec c)) locusWill (ps @ ts @ ms @ s) =
      (Inr (decodedProps (cp_WillProperties p)), ts @ ms @ s)"
    using section_read [OF ps, of "ts @ ms @ s"] True w n wb by simp
  with True ts ms show ?thesis
    by (simp add: decodeWill_def wb normConnect_def Let_def readBlob_write)
next
  case False
  with e show ?thesis by (simp add: willBytes_def decodeWill_def normConnect_def Let_def)
qed

definition credBytes :: "ConnectPacket \<Rightarrow> byte list res list" where
  "credBytes p = (if cf_UsernameFlag (cp_Flags p) then [writeString (cp_Username p)] else []) @
     (if cf_PasswordFlag (cp_Flags p) then [writeBlob (cp_Password p) ErrPasswordTooLong] else [])"

lemma cred_read:
  assumes "wseq (credBytes p) = Inr cb"
  obtains ub pb where "cb = ub @ pb"
    "\<And>t. (if cf_UsernameFlag (cp_Flags p) then readString else rret []) (ub @ t) = (Inr (cp_Username (normConnect fh p)), t)"
    "(if cf_PasswordFlag (cp_Flags p) then readBlob else rret []) pb = (Inr (cp_Password (normConnect fh p)), [])"
proof -
  obtain ub pb where u: "if cf_UsernameFlag (cp_Flags p) then writeString (cp_Username p) = Inr ub else ub = []"
    and p: "if cf_PasswordFlag (cp_Flags p) then writeBlob (cp_Password p) ErrPasswordTooLong = Inr pb else pb = []"
    and cb: "cb = ub @ pb"
    using assms by (auto simp: credBytes_def wseq_Inr simp del: wseq.simps(2) split: if_splits)
  show ?thesis
  proof (rule that [OF cb])
    show "(if cf_UsernameFlag (cp_Flags p) then readString else rret []) (ub @ t) =
        (Inr (cp_Username (normConnect fh p)), t)" for t
      using u by (auto simp: normConnect_def Let_def split: if_splits)
    show "(if cf_PasswordFlag (cp_Flags p) then readBlob else rret []) pb = (Inr (cp_Password (normConnect fh p)), [])"
      using p readBlob_write [of "cp_Password p" ErrPasswordTooLong pb "[]"]
      by (auto simp: normConnect_def Let_def split: if_splits)
  qed
qed

lemma connectFields_read:
  assumes ps: "writePropertySection c (cp_Properties p) locusConnect = Inr ps"
    and ids: "writeString (cp_ClientID p) = Inr ids"
    and wb: "wseq (willBytes c p) = Inr wb" and cb: "wseq (credBytes p) = Inr cb"
    and w: "wirePacket sp (Connect p)" and n: "length (ps @ ids @ wb @ cb) < 2 ^ 28"
  shows "connectFields c fh (cp_ProtocolName p) (cp_ProtocolVersion p)
     (flagsByte (cp_Flags p) # writeUint16 (cp_KeepAlive p) @ ps @ ids @ wb @ cb) =
     (Inr (Connect (normConnect fh p)), [])"
proof -
  obtain ub pb where c: "cb = ub @ pb"
    "\<And>t. (if cf_UsernameFlag (cp_Flags p) then readString else rret []) (ub @ t) = (Inr (cp_Username (normConnect fh p)), t)"
    "(if cf_PasswordFlag (cp_Flags p) then readBlob else rret []) pb = (Inr (cp_Password (normConnect fh p)), [])"
    by (rule cred_read [OF cb, of fh]) blast
  have 1: "sectionIf (sp_Properties (spec c)) locusConnect (ps @ ids @ wb @ cb) =
      (Inr (decodedProps (cp_Properties p)), ids @ wb @ cb)"
    using section_read [OF ps, of "ids @ wb @ cb"] w n by simp
  have 2: "decodeWill c (normFlags (cp_Flags p)) (wb @ cb) = (Inr (cp_WillProperties (normConnect fh p),
      cp_WillTopic (normConnect fh p), cp_WillMessage (normConnect fh p)), cb)"
    using will_read [OF wb w, of cb] n by simp
  show ?thesis
    unfolding connectFields_def Let_def
    using 1 2 c ids
    by (simp add: connectFlagsOf_flagsByte) (simp add: normConnect_def Let_def)
qed

lemma connect_read:
  assumes e: "encodeConnectBody (setVersion c (cp_ProtocolVersion p)) p = Inr buf"
    and w: "wirePacket sp (Connect p)"
    and h: "fh_RemainingLength fh = length buf" and n: "length buf < 2 ^ 28"
    and s: "spec (setVersion d (cp_ProtocolVersion p)) = spec (setVersion c (cp_ProtocolVersion p))"
  shows "decodeConnect d fh (buf @ s) = (Inr (Connect (normConnect fh p)), s, setVersion d (cp_ProtocolVersion p))"
proof -
  let ?c = "setVersion c (cp_ProtocolVersion p)" and ?d = "setVersion d (cp_ProtocolVersion p)"
  from e obtain ns ps ids wb cb where ns: "writeString (cp_ProtocolName p) = Inr ns"
    and ps: "writePropertySection ?c (cp_Properties p) locusConnect = Inr ps"
    and ids: "writeString (cp_ClientID p) = Inr ids"
    and wb: "wseq (willBytes ?c p) = Inr wb" and cb: "wseq (credBytes p) = Inr cb"
    and buf: "buf = ns @ cp_ProtocolVersion p # flagsByte (cp_Flags p) # writeUint16 (cp_KeepAlive p) @
      ps @ ids @ wb @ cb"
    unfolding encodeConnectBody_def Let_def willBytes_def [symmetric] credBytes_def [symmetric]
    by (auto simp: wseq_Inr wseq_append rbind_eq_Inr simp del: wseq.simps(2))
  have same: "writePropertySection ?d q l = writePropertySection ?c q l" for q l
    by (simp add: writePropertySection_def s)
  have wb': "wseq (willBytes ?d p) = Inr wb" using wb by (simp only: willBytes_def same)
  have "length (ps @ ids @ wb @ cb) < 2 ^ 28" using n buf by simp
  from connectFields_read [OF _ ids wb' cb w this, of fh] ps same
  have "connectBody d fh buf = (Inr (Connect (normConnect fh p)), ?d)"
    by (simp add: connectBody_def buf readString_write [OF ns] Let_def)
  then show ?thesis by (simp add: decodeConnect_def h)
qed

text \<open>CONNACK, and the packets with a reason code.\<close>

lemma connAck_read:
  assumes e: "encodeConnAckBody c p = Inr buf" and w: "propsWireable locusConnAck (ca_Properties p)"
    and h: "fh_RemainingLength fh = length buf" and n: "length buf < 2 ^ 28"
  shows "decodeConnAck c fh (buf @ s) = (Inr (normPacket (spec c) fh (ConnAck p)), s)"
proof -
  from e obtain ps where ps: "writePropertySection c (ca_Properties p) locusConnAck = Inr ps"
    and buf: "buf = (if ca_SessionPresent p \<and> sp_ConnAckSessionPresent (spec c) then 1 else 0) #
       ca_ReasonCode p # ps"
    by (auto simp: encodeConnAckBody_def wseq_Inr simp del: wseq.simps(2))
  have "connAckFields c fh buf = (Inr (normPacket (spec c) fh (ConnAck p)), [])"
  proof (cases "sp_Properties (spec c)")
    case True
    have "length (ps @ []) < 2 ^ 28" using n buf by simp
    from section_v5 [OF ps w this True] section_v5_not_Nil [OF ps True] True show ?thesis
      by (cases p) (simp add: connAckFields_def buf h lastProperties_def)
  next
    case False
    with section_v3 [OF ps False] show ?thesis
      by (cases p) (simp add: connAckFields_def buf h decodedProps_def)
  qed
  then show ?thesis unfolding decodeConnAck_def by (rule within_read) (simp add: h)
qed

lemma reason_read:
  assumes e: "encodeReasonBody p l = Inr buf" and w: "propsWireable l (rp_Properties p)"
    and h: "fh_RemainingLength fh = length buf" and n: "length buf < 2 ^ 28" and v: "valid (rp_ReasonCode p)"
  shows "reasonFields fh valid l buf = (Inr (normReason fh p), [])"
proof -
  from e obtain ps where
    ps: "(case rp_Properties p of None \<Rightarrow> Inr [] | Some q \<Rightarrow> encodeProperties q l) = Inr ps"
    and buf: "buf = (if rp_ReasonCode p \<noteq> 0 \<or> rp_Properties p \<noteq> None then [rp_ReasonCode p] else []) @ ps"
    by (auto simp: encodeReasonBody_def wseq_Inr simp del: wseq.simps(2) split: if_splits)
  show ?thesis
  proof (cases "rp_Properties p")
    case None
    with ps buf v h show ?thesis
      by (cases p) (auto simp: reasonFields_def normReason_def decodedProps_def split: if_splits)
  next
    case (Some q)
    with ps encodeProperties_not_Nil [of q l] have "ps \<noteq> []" "encodeProperties q l = Inr ps" by auto
    moreover from this have "lastProperties l ps = (Inr (decodedProps (Some q)), [])"
      using lastProperties_read [of q l ps] w n buf Some by simp
    ultimately show ?thesis using Some buf v h
      by (cases p) (simp add: reasonFields_def normReason_def)
  qed
qed

lemma subAckFields_read:
  assumes e: "encodeSubAckBody c l p = Inr buf" and w: "propsWireable l (sa_Properties p)"
    and h: "fh_RemainingLength fh = length buf" and n: "length buf < 2 ^ 28"
  shows "\<exists>b. buf = writeUint16 (sa_PacketID p) @ b \<and> sa_PacketID p \<noteq> 0 \<and>
    subAckFields c fh l (sa_PacketID p) b = (Inr (normSubAck fh p), [])"
proof -
  from e obtain ps where ps: "writePropertySection c (sa_Properties p) l = Inr ps"
    and id: "sa_PacketID p \<noteq> 0" and buf: "buf = writeUint16 (sa_PacketID p) @ ps @ sa_ReasonCodes p"
    by (auto simp: encodeSubAckBody_def wseq_Inr simp del: wseq.simps(2))
  have "subAckFields c fh l (sa_PacketID p) (ps @ sa_ReasonCodes p) = (Inr (normSubAck fh p), [])"
  proof (cases "ps @ sa_ReasonCodes p = []")
    case True
    then have "\<not> sp_Properties (spec c)" using section_v5_not_Nil [OF ps] by auto
    with True section_v3 [OF ps] h buf show ?thesis
      by (cases p) (simp add: subAckFields_def normSubAck_def decodedProps_def)
  next
    case False
    then have "0 < fh_RemainingLength fh - 2" using h buf by auto
    moreover have "length (ps @ sa_ReasonCodes p) < 2 ^ 28" using n buf by simp
    ultimately show ?thesis using section_read [OF ps w, of "sa_ReasonCodes p"]
      by (cases p) (simp add: subAckFields_def normSubAck_def)
  qed
  with id buf show ?thesis by auto
qed

lemma idThenBody_read:
  assumes "buf = writeUint16 i @ b" "i \<noteq> 0" "f i b = (Inr x, [])" "fh_RemainingLength fh = length buf"
  shows "idThenBody fh f (buf @ s) = (Inr x, s)"
  using assms within_read [of "f i" b x "[]" "length b" s] by (simp add: idThenBody_def)

text \<open>SUBSCRIBE: the option byte bit by bit, then the filters in order.\<close>

lemma options_read:
  assumes "\<not> 2 < tf_QoS t" "\<not> 2 < tf_RetainHandling t"
  shows "topicFilterOf (tf_Topic t) (optionsByte t) i = t\<lparr>tf_SubscriptionIdentifier := i\<rparr>"
    "sp_Properties (spec c) \<or> \<not> tf_NoLocal t \<and> \<not> tf_RetainAsPublished t \<and> tf_RetainHandling t = 0 \<Longrightarrow>
     optionsOk c (optionsByte t)"
proof -
  have small: "q \<in> {0, 1, 2}" if "\<not> 2 < q" for q :: byte
  proof -
    from that have "unat q \<le> 2" by (simp add: word_less_nat_alt not_less)
    then have "unat q \<in> {0, 1, 2}" by auto
    then show ?thesis by (auto simp: unat_eq_0 dest: arg_cong [of _ _ "of_nat :: nat \<Rightarrow> byte"])
  qed
  from small [OF assms(1)] small [OF assms(2)]
  show "topicFilterOf (tf_Topic t) (optionsByte t) i = t\<lparr>tf_SubscriptionIdentifier := i\<rparr>"
    by (cases t) (auto simp: topicFilterOf_def optionsByte_def)
  from small [OF assms(1)] small [OF assms(2)]
  show "sp_Properties (spec c) \<or> \<not> tf_NoLocal t \<and> \<not> tf_RetainAsPublished t \<and> tf_RetainHandling t = 0 \<Longrightarrow>
     optionsOk c (optionsByte t)"
    by (auto simp: optionsOk_def optionsByte_def)
qed

lemma subscribeLoop_read:
  assumes "wseq (map writeTopicFilter ts) = Inr bs"
    and "\<forall>t \<in> set ts. sp_Properties (spec c) \<or> \<not> tf_NoLocal t \<and> \<not> tf_RetainAsPublished t \<and> tf_RetainHandling t = 0"
  shows "subscribeLoop c i acc bs = (Inr (acc @ map (\<lambda>t. t\<lparr>tf_SubscriptionIdentifier := i\<rparr>) ts), [])"
  using assms
proof (induction ts arbitrary: acc bs)
  case Nil
  then show ?case by (simp add: subscribeLoop.simps)
next
  case (Cons t ts)
  from Cons.prems(1) obtain x d where x: "writeString (tf_Topic t) = Inr x"
    and q: "\<not> 2 < tf_QoS t" "\<not> 2 < tf_RetainHandling t" and d: "wseq (map writeTopicFilter ts) = Inr d"
    and bs: "bs = x @ optionsByte t # d"
    by (auto simp: wseq_Cons_Inr writeTopicFilter_def [of t] rbind_eq_Inr simp del: wseq.simps(2) split: if_splits)
  have "optionsOk c (optionsByte t)" by (rule options_read(2) [OF q]) (use Cons.prems(2) in auto)
  then have "readTopicFilter c i bs = (Inr (t\<lparr>tf_SubscriptionIdentifier := i\<rparr>), d)"
    using options_read(1) [OF q] readStringFromReader_write [OF x]
    by (simp add: readTopicFilter_def bs)
  moreover have "bs \<noteq> []" by (simp add: bs)
  ultimately show ?case using Cons.IH [OF d] Cons.prems(2)
    by (simp add: subscribeLoop.simps [of c i acc bs])
qed

lemma unsubscribeLoop_read:
  "wseq (map writeString ts) = Inr bs \<Longrightarrow> unsubscribeLoop acc bs = (Inr (acc @ ts), [])"
proof (induction ts arbitrary: acc bs)
  case Nil
  then show ?case by (simp add: unsubscribeLoop.simps)
next
  case (Cons t ts)
  from Cons.prems obtain x d where x: "writeString t = Inr x" and d: "wseq (map writeString ts) = Inr d"
    and bs: "bs = x @ d"
    by (auto simp: wseq_Cons_Inr simp del: wseq.simps(2))
  have "bs \<noteq> []" using length_writeString [OF x] by (auto simp: bs)
  then show ?case using Cons.IH [OF d] readStringFromReader_write [OF x]
    by (simp add: unsubscribeLoop.simps [of acc "x @ d"] bs)
qed

lemma subscribe_read:
  assumes e: "encodeSubscribeBody c p = Inr buf" and w: "wirePacket (spec c) (Subscribe p)"
    and h: "fh_RemainingLength fh = length buf" and n: "length buf < 2 ^ 28"
  shows "decodeSubscribe c fh (buf @ s) = (Inr (normPacket (spec c) fh (Subscribe p)), s)"
proof -
  from e obtain ps bs where id: "sb_PacketID p \<noteq> 0" and ne: "sb_Topics p \<noteq> []"
    and ps: "writePropertySection c (sb_Properties p) locusSubscribe = Inr ps"
    and bs: "wseq (map writeTopicFilter (sb_Topics p)) = Inr bs"
    and buf: "buf = writeUint16 (sb_PacketID p) @ ps @ bs"
    by (auto simp: encodeSubscribeBody_def wseq_Inr wseq_append rbind_eq_Inr simp del: wseq.simps(2))
  have "length (ps @ bs) < 2 ^ 28" using n buf by simp
  with section_read [OF ps, of bs] w subscribeLoop_read [OF bs] ne
  have "subscribeFields c fh (sb_PacketID p) (ps @ bs) = (Inr (normPacket (spec c) fh (Subscribe p)), [])"
    by (cases p) (simp add: subscribeFields_def Let_def)
  from idThenBody_read [where f = "subscribeFields c fh", OF buf id this h]
  show ?thesis by (simp only: decodeSubscribe_def)
qed

lemma unsubscribe_read:
  assumes e: "encodeUnsubscribeBody c p = Inr buf" and w: "propsWireable locusUnsubscribe (us_Properties p)"
    and h: "fh_RemainingLength fh = length buf" and n: "length buf < 2 ^ 28"
  shows "decodeUnsubscribe c fh (buf @ s) = (Inr (normPacket (spec c) fh (Unsubscribe p)), s)"
proof -
  from e obtain ps bs where id: "us_PacketID p \<noteq> 0" and ne: "us_Topics p \<noteq> []"
    and ps: "writePropertySection c (us_Properties p) locusUnsubscribe = Inr ps"
    and bs: "wseq (map writeString (us_Topics p)) = Inr bs"
    and buf: "buf = writeUint16 (us_PacketID p) @ ps @ bs"
    by (auto simp: encodeUnsubscribeBody_def wseq_Inr wseq_append rbind_eq_Inr simp del: wseq.simps(2))
  have "length (ps @ bs) < 2 ^ 28" using n buf by simp
  with section_read [OF ps w, of bs] unsubscribeLoop_read [OF bs] ne
  have "unsubscribeFields c fh (us_PacketID p) (ps @ bs) = (Inr (normPacket (spec c) fh (Unsubscribe p)), [])"
    by (cases p) (simp add: unsubscribeFields_def)
  from idThenBody_read [where f = "unsubscribeFields c fh", OF buf id this h]
  show ?thesis by (simp only: decodeUnsubscribe_def)
qed

section \<open>The dispatchers\<close>

text \<open>Body and header of a packet as its encoder assembles them.\<close>

fun packetBody :: "Codec \<Rightarrow> Packet \<Rightarrow> byte list res" where
  "packetBody c (Connect p) = encodeConnectBody c p"
| "packetBody c (ConnAck p) = encodeConnAckBody c p"
| "packetBody c (Publish p) = encodePublishBody c p"
| "packetBody c (PubAck p) = encodeAckBody c p"
| "packetBody c (PubRec p) = encodeAckBody c p"
| "packetBody c (PubRel p) = encodeAckBody c p"
| "packetBody c (PubComp p) = encodeAckBody c p"
| "packetBody c (Subscribe p) = encodeSubscribeBody c p"
| "packetBody c (SubAck p) = encodeSubAckBody c locusSubAck p"
| "packetBody c (Unsubscribe p) = encodeUnsubscribeBody c p"
| "packetBody c (UnsubAck p) = encodeUnsubAckBody c p"
| "packetBody c (PingReq p) = Inr []"
| "packetBody c (PingResp p) = Inr []"
| "packetBody c (Disconnect p) = encodeDisconnectBody c p"
| "packetBody c (Auth p) = encodeAuthBody c p"

definition versionBound :: "Codec \<Rightarrow> Packet \<Rightarrow> Codec" where
  "versionBound c p = (case p of Connect q \<Rightarrow> setVersion c (cp_ProtocolVersion q) | _ \<Rightarrow> c)"

lemma packetBody_spec: "spec c = spec d \<Longrightarrow> packetBody c p = packetBody d p"
  by (cases p) (simp_all add: encodeConnectBody_def encodeConnAckBody_def encodePublishBody_def
      encodeAckBody_def encodeAckFields_def encodeSubscribeBody_def encodeSubAckBody_def
      encodeUnsubscribeBody_def encodeUnsubAckBody_def encodeDisconnectBody_def encodeAuthBody_def
      writePropertySection_def publishTopicOk_def Let_def)

lemma codecWf_caps:
  "codecWf c \<Longrightarrow> sp_ReasonCodes (spec c) = sp_Properties (spec c)"
  "codecWf c \<Longrightarrow> sp_AuthPacket (spec c) = sp_Properties (spec c)"
  by (simp_all add: codecWf_def spec_simps)

lemma unsubAck_read:
  assumes e: "encodeUnsubAckBody c p = Inr buf" and w: "propsWireable locusUnsubAck (sa_Properties p)"
    and h: "fh_RemainingLength fh = length buf" and n: "length buf < 2 ^ 28" and c: "codecWf c"
  shows "decodeUnsubAck c fh (buf @ s) = (Inr (UnsubAck (normSubAck fh p)), s)"
proof -
  from e have e': "encodeSubAckBody c locusUnsubAck p = Inr buf"
    and v: "sp_ReasonCodes (spec c) \<or> sa_ReasonCodes p = [] \<and> sa_Properties p = None"
    by (auto simp: encodeUnsubAckBody_def split: if_splits)
  from subAckFields_read [OF e' w h n] have
    "idThenBody fh (\<lambda>i. rthen (subAckFields c fh locusUnsubAck i) (\<lambda>p. rret (UnsubAck p))) (buf @ s) =
      (Inr (UnsubAck (normSubAck fh p)), s)"
    using h by (auto intro!: idThenBody_read)
  moreover have "sp_ReasonCodes (spec c) \<or> length buf = 2"
    using v e' codecWf_caps(1) [OF c]
    by (auto simp: encodeSubAckBody_def wseq_Inr writePropertySection_def rejectPreV5Properties_def
        simp del: wseq.simps(2))
  ultimately show ?thesis using h by (auto simp: decodeUnsubAck_def)
qed

lemma disconnect_read:
  assumes e: "encodeDisconnectBody c p = Inr buf" and w: "propsWireable locusDisconnect (rp_Properties p)"
    and h: "fh_RemainingLength fh = length buf" and n: "length buf < 2 ^ 28"
  shows "decodeDisconnect c fh (buf @ s) = (Inr (Disconnect (normReason fh p)), s)"
proof -
  from e have e': "encodeReasonBody p locusDisconnect = Inr buf"
    and v: "sp_ReasonCodes (spec c) \<or> rp_ReasonCode p = 0 \<and> rp_Properties p = None"
    by (auto simp: encodeDisconnectBody_def split: if_splits)
  have "within (length buf) (rthen (reasonFields fh (\<lambda>_. True) locusDisconnect) (\<lambda>p. rret (Disconnect p)))
      (buf @ s) = (Inr (Disconnect (normReason fh p)), s)"
    using reason_read [OF e' w h n] by (intro within_read) simp_all
  moreover have "sp_ReasonCodes (spec c) \<or> buf = []" using v e' by (auto simp: encodeReasonBody_def)
  ultimately show ?thesis using h by (auto simp: decodeDisconnect_def)
qed

lemma auth_read:
  assumes e: "encodeAuthBody c p = Inr buf" and w: "propsWireable locusAuth (rp_Properties p)"
    and h: "fh_RemainingLength fh = length buf" and n: "length buf < 2 ^ 28"
  shows "decodeAuth c fh (buf @ s) = (Inr (Auth (normReason fh p)), s)"
proof -
  from e have e': "encodeReasonBody p locusAuth = Inr buf" and a: "sp_AuthPacket (spec c)"
    and v: "validAuthReasonCode (rp_ReasonCode p)"
    by (auto simp: encodeAuthBody_def split: if_splits)
  have "within (length buf) (rthen (reasonFields fh validAuthReasonCode locusAuth) (\<lambda>p. rret (Auth p)))
      (buf @ s) = (Inr (Auth (normReason fh p)), s)"
    using reason_read [where valid = validAuthReasonCode, OF e' w h n v] by (intro within_read) simp_all
  then show ?thesis using h a by (simp add: decodeAuth_def)
qed

lemma subAck_read:
  assumes e: "encodeSubAckBody c locusSubAck p = Inr buf" and w: "propsWireable locusSubAck (sa_Properties p)"
    and h: "fh_RemainingLength fh = length buf" and n: "length buf < 2 ^ 28"
  shows "decodeSubAck c fh (buf @ s) = (Inr (SubAck (normSubAck fh p)), s)"
  using subAckFields_read [OF e w h n] h unfolding decodeSubAck_def by (auto intro!: idThenBody_read)

lemma decodeBody_read:
  assumes "packetBody c p = Inr buf" "wirePacket (spec c) p" "fh_PacketType fh = packetCode p"
    "fh_RemainingLength fh = length buf" "fh_QoS fh = fh_QoS (GetFixedHeader p)" "length buf < 2 ^ 28"
    "packetCode p \<noteq> PacketTypeConnect" "codecWf c"
  shows "decodeBody c fh (buf @ s) = (Inr (normPacket (spec c) fh p), s)"
  using assms
  by (cases p) (simp_all add: decodeBody_def decodePubAck_def decodePubRec_def decodePubRel_def
      decodePubComp_def ack_read publish_read connAck_read subscribe_read unsubscribe_read
      subAck_read unsubAck_read disconnect_read auth_read
      connAck_read [simplified] subscribe_read [simplified] unsubscribe_read [simplified])

text \<open>What \<open>encodeTo\<close> produces, in terms of body and header.\<close>

definition setHeader :: "FixedHeader \<Rightarrow> Packet \<Rightarrow> Packet" where
  "setHeader fh p = (case p of
     Connect q \<Rightarrow> Connect (q\<lparr>cp_fh := fh\<rparr>) | ConnAck q \<Rightarrow> ConnAck (q\<lparr>ca_fh := fh\<rparr>)
   | Publish q \<Rightarrow> Publish (q\<lparr>pp_fh := fh\<rparr>) | PubAck q \<Rightarrow> PubAck (q\<lparr>ak_fh := fh\<rparr>)
   | PubRec q \<Rightarrow> PubRec (q\<lparr>ak_fh := fh\<rparr>) | PubRel q \<Rightarrow> PubRel (q\<lparr>ak_fh := fh\<rparr>)
   | PubComp q \<Rightarrow> PubComp (q\<lparr>ak_fh := fh\<rparr>) | Subscribe q \<Rightarrow> Subscribe (q\<lparr>sb_fh := fh\<rparr>)
   | SubAck q \<Rightarrow> SubAck (q\<lparr>sa_fh := fh\<rparr>) | Unsubscribe q \<Rightarrow> Unsubscribe (q\<lparr>us_fh := fh\<rparr>)
   | UnsubAck q \<Rightarrow> UnsubAck (q\<lparr>sa_fh := fh\<rparr>) | PingReq q \<Rightarrow> PingReq (q\<lparr>pg_fh := fh\<rparr>)
   | PingResp q \<Rightarrow> PingResp (q\<lparr>pg_fh := fh\<rparr>) | Disconnect q \<Rightarrow> Disconnect (q\<lparr>rp_fh := fh\<rparr>)
   | Auth q \<Rightarrow> Auth (q\<lparr>rp_fh := fh\<rparr>))"

lemma GetFixedHeader_setHeader [simp]: "GetFixedHeader (setHeader fh p) = fh"
  by (cases p) (simp_all add: setHeader_def)

lemma emit_Inr:
  "emit body fh pkt upd = (Inr bs, p') \<longleftrightarrow> (\<exists>buf. body = Inr buf \<and>
     bs = encodeFixedHeader (fh\<lparr>fh_RemainingLength := length buf\<rparr>) @ buf \<and>
     p' = upd (fh\<lparr>fh_RemainingLength := length buf\<rparr>))"
  by (auto simp: emit_def Let_def split: sum.splits)

lemma header_kept:
  "q = 1 \<Longrightarrow> \<not> r \<Longrightarrow> fh_QoS fh = q \<Longrightarrow> fh_Retain fh = r \<Longrightarrow> fh\<lparr>fh_QoS := 1, fh_Retain := False\<rparr> = fh"
  by (cases fh) simp

lemma encodeTo_Inr:
  assumes e: "encodeTo c p = (Inr bs, p', c')" and t: "fh_PacketType (GetFixedHeader p) = packetCode p"
    and wf: "codecWf c"
  obtains buf where "packetBody c' p = Inr buf" "c' = versionBound c p"
    "p' = setHeader ((GetFixedHeader p)\<lparr>fh_RemainingLength := length buf\<rparr>) p"
    "bs = encodeFixedHeader (GetFixedHeader p') @ buf" "validateFixedHeaderFlags (GetFixedHeader p) = Inr ()"
proof -
  from e have v: "validateFixedHeaderFlags (GetFixedHeader p) = Inr ()" and e': "encodePacket c p = (Inr bs, p', c')"
    by (auto simp: encodeTo_def syncSpec_wf [OF wf] split: sum.splits)
  have k: "(GetFixedHeader p)\<lparr>fh_QoS := 1, fh_Retain := False\<rparr> = GetFixedHeader p"
    if "packetCode p \<in> {PacketTypePubRel, PacketTypeSubscribe, PacketTypeUnsubscribe}"
    using v t that by (intro header_kept) (auto simp: validateFixedHeaderFlags_def split: if_splits)
  have y: "(GetFixedHeader p)\<lparr>fh_PacketType := PacketTypeConnect\<rparr> = GetFixedHeader p"
    if "packetCode p = PacketTypeConnect" using t that by (cases "GetFixedHeader p") simp
  have "\<exists>buf. packetBody c' p = Inr buf \<and> c' = versionBound c p \<and>
      p' = setHeader ((GetFixedHeader p)\<lparr>fh_RemainingLength := length buf\<rparr>) p \<and>
      bs = encodeFixedHeader (GetFixedHeader p') @ buf"
    using e' k y
    by (cases p) (auto simp: versionBound_def setHeader_def emit_Inr encodeConnect_def Let_def encodeConnAck_def
      encodePublish_def encodePubAck_def encodePubRec_def encodePubRel_def encodePubComp_def
      encodeSubscribe_def encodeSubAck_def encodeUnsubscribe_def encodeUnsubAck_def encodePingReq_def
      encodePingResp_def encodeDisconnect_def encodeAuth_def split: prod.splits)
  then show ?thesis using that v by blast
qed

lemma normPacket_setHeader: "normPacket sp fh (setHeader h p) = normPacket sp fh p"
  by (cases p) (simp_all add: setHeader_def normConnect_def normAck_def normSubAck_def normReason_def Let_def)

lemma packetCode_bound: "packetCode p < 16"
  by (cases p) simp_all

lemma codecWf_versionBound: "codecWf c \<Longrightarrow> codecWf (versionBound c p)"
  by (cases p) (simp_all add: versionBound_def codecWf_ops)

text \<open>A QoS an encoded header can carry: the reserved nibble, or the range of PUBLISH.\<close>

lemma wire_QoS:
  "validateFixedHeaderFlags fh = Inr () \<Longrightarrow> fh_PacketType fh = packetCode p \<Longrightarrow> fh = GetFixedHeader p \<Longrightarrow>
   wirePacket sp p \<Longrightarrow> fh_QoS fh < 4"
proof -
  have *: "q < 4" if "q \<le> 2" for q :: byte using that by (simp add: word_le_nat_alt word_less_nat_alt)
  show "validateFixedHeaderFlags fh = Inr () \<Longrightarrow> fh_PacketType fh = packetCode p \<Longrightarrow> fh = GetFixedHeader p \<Longrightarrow>
   wirePacket sp p \<Longrightarrow> fh_QoS fh < 4"
    by (cases p) (auto simp: validateFixedHeaderFlags_def split: if_splits intro: * )
qed

definition wireHeader :: "FixedHeader \<Rightarrow> FixedHeader" where
  "wireHeader fh = fh\<lparr>fh_HeaderSize := length (encodeFixedHeader fh)\<rparr>"

lemma Decode_encodeTo:
  assumes e: "encodeTo c p = (Inr bs, p', c')" and wf: "codecWf c" "codecWf d"
    and t: "fh_PacketType (GetFixedHeader p) = packetCode p" and w: "wirePacket (spec c') p"
    and d: "spec (versionBound d p) = spec c'"
    and n: "fh_RemainingLength (GetFixedHeader p') < 2 ^ 28" "length bs \<le> maxPacketSize d"
  shows "Decode d (bs @ s) = (Inr (normPacket (spec c') (wireHeader (GetFixedHeader p')) p), s, versionBound d p)"
proof -
  from encodeTo_Inr [OF e t wf(1)] obtain buf where b: "packetBody c' p = Inr buf" and c': "c' = versionBound c p"
    and p': "p' = setHeader ((GetFixedHeader p)\<lparr>fh_RemainingLength := length buf\<rparr>) p"
    and bs: "bs = encodeFixedHeader (GetFixedHeader p') @ buf"
    and v: "validateFixedHeaderFlags (GetFixedHeader p) = Inr ()" by blast
  define h where "h = GetFixedHeader p'"
  have h: "h = (GetFixedHeader p)\<lparr>fh_RemainingLength := length buf\<rparr>" by (simp add: h_def p')
  have fields: "fh_PacketType h = packetCode p" "fh_QoS h = fh_QoS (GetFixedHeader p)" "fh_RemainingLength h = length buf"
    by (simp_all add: h t)
  have "fh_QoS h < 4" using wire_QoS [OF v t refl w] by (simp add: fields)
  then have dec: "decodeFixedHeader (bs @ s) = (Inr (wireHeader h), buf @ s)"
    using decodeFixedHeader_encode [of h "buf @ s"] n(1) packetCode_bound [of p]
    by (simp add: bs h_def [symmetric] wireHeader_def fields)
  have "validateFixedHeaderFlags (wireHeader h) = validateFixedHeaderFlags (GetFixedHeader p)"
    by (simp add: validateFixedHeaderFlags_def wireHeader_def h)
  with v have vh: "validateFixedHeaderFlags (wireHeader h) = Inr ()" by simp
  have sz: "fh_RemainingLength (wireHeader h) + fh_HeaderSize (wireHeader h) = length bs"
    by (simp add: wireHeader_def bs fields flip: h_def)
  have len: "length buf < 2 ^ 28" using n(1) fields(3) by (simp flip: h_def)
  show ?thesis
  proof (cases "packetCode p = PacketTypeConnect")
    case True
    then obtain q where q: "p = Connect q" by (cases p) auto
    from q c' d b w len have "decodeConnect d (wireHeader h) (buf @ s) =
        (Inr (Connect (normConnect (wireHeader h) q)), s, versionBound d p)"
      using connect_read [of c q buf "spec c'" "wireHeader h" d s]
      by (simp add: versionBound_def wireHeader_def fields)
    then show ?thesis
      using dec vh sz n len fields True q
      by (simp add: Decode_def Let_def syncSpec_wf [OF wf(2)] wireHeader_def flip: h_def)
  next
    case False
    then have vb: "versionBound d p = d" by (cases p) (simp_all add: versionBound_def)
    with d packetBody_spec have bd: "packetBody d p = Inr buf" using b by metis
    have "decodeBody d (wireHeader h) (buf @ s) = (Inr (normPacket (spec d) (wireHeader h) p), s)"
      using decodeBody_read [OF bd, of "wireHeader h" s] w d vb len False wf(2)
      by (simp add: wireHeader_def fields)
    then show ?thesis
      using dec vh sz n len fields False d vb
      by (simp add: Decode_def Let_def syncSpec_wf [OF wf(2)] wireHeader_def flip: h_def)
  qed
qed

end
