(* ===== verification/CodecReencode.thy ===== *)
theory CodecReencode
  imports CodecRoundTrip
begin

text \<open>
  The other direction of the round trip: every packet \<^verbatim>\<open>Decode\<close> accepts passes every check of
  \<^verbatim>\<open>Encode\<close> in the same version and is one the wire can carry, so a broker can put what it
  received back on the wire and its peer reads the same fields.
\<close>

section \<open>Parts of a decoded packet\<close>

text \<open>A property set the decoder can have produced at a locus.\<close>

definition decodedSection :: "Codec \<Rightarrow> propertyLocus \<Rightarrow> Properties option \<Rightarrow> bool" where
  "decodedSection c l props \<longleftrightarrow>
     (case props of None \<Rightarrow> True | Some p \<Rightarrow> sp_Properties (spec c) \<and> decodedInv l p \<and> wireable l p)"

lemma decodedSection_None [simp]: "decodedSection c l None"
  by (simp add: decodedSection_def)

lemma decodedSection_wireable: "decodedSection c l props \<Longrightarrow> propsWireable l props"
  by (auto simp: decodedSection_def propsWireable_def split: option.splits)

lemma decodedSection_encodes:
  "decodedSection c l (Some p) \<Longrightarrow> \<exists>bs. encodeProperties p l = Inr bs"
  using decodedInv_encodes by (auto simp: decodedSection_def)

lemma decodedSection_writes:
  "decodedSection c l props \<Longrightarrow> \<exists>bs. writePropertySection c props l = Inr bs"
  using decodedSection_encodes [of c l]
  by (cases props) (auto simp: writePropertySection_def rejectPreV5Properties_def decodedSection_def)

lemma decodeProperties_section:
  "decodeProperties l s = (Inr props, t) \<Longrightarrow> sp_Properties (spec c) \<Longrightarrow> decodedSection c l props"
  using decodeProperties_inv [of l s] by (cases props) (auto simp: decodedSection_def)

lemma sectionIf_section:
  "sectionIf (sp_Properties (spec c)) l s = (Inr props, t) \<Longrightarrow> decodedSection c l props"
  by (auto simp: sectionIf_def split: if_splits dest: decodeProperties_section)

lemma lastProperties_section:
  "lastProperties l s = (Inr props, t) \<Longrightarrow> sp_Properties (spec c) \<Longrightarrow> decodedSection c l props"
  by (auto simp: lastProperties_def rthen_eq_Inr ifMore_def split: if_splits dest: decodeProperties_section)

lemma writeString_fits_ok: "length x \<le> 65535 \<Longrightarrow> validateUTF8 x = Inr () \<Longrightarrow> \<exists>b. writeString x = Inr b"
  by (rule writeString_fits) (simp add: stringFits_def)

lemma readString_ok: "readStringBounded m s = (Inr x, t) \<Longrightarrow> \<exists>b. writeString x = Inr b"
  using readString_eq_Inr(3,5) writeString_fits_ok by blast

lemma readStringFromReader_ok: "readStringFromReader s = (Inr x, t) \<Longrightarrow> \<exists>b. writeString x = Inr b"
  by (rule writeString_fits) (rule readStringFromReader_fits)

lemma readBlob_ok: "readBlob s = (Inr d, t) \<Longrightarrow> \<exists>b. writeBlob d e = Inr b"
proof -
  assume "readBlob s = (Inr d, t)"
  then obtain n :: u16 where "length d = unat n" by (auto simp: readBlob_def rthen_eq_Inr readFull_eq_Inr)
  moreover have "unat n < 2 ^ LENGTH(16)" by (rule unsigned_less)
  ultimately show ?thesis by (simp add: writeBlob_def)
qed

lemma within_Inr: "within n p s = (Inr x, t) \<Longrightarrow> \<exists>buf r. p buf = (Inr x, r) \<and> length buf = n"
  by (auto simp: within_def rthen_eq_Inr readFull_eq_Inr) (metis prod.collapse)

lemma ifMore_Inr: "ifMore p q s = (Inr x, t) \<Longrightarrow> p s = (Inr x, t) \<or> q s = (Inr x, t)"
  by (auto simp: ifMore_def split: if_splits)

lemma ifMore_end: "ifMore (rfail e) (rret x) s = (Inr y, t) \<longleftrightarrow> s = [] \<and> t = [] \<and> y = x"
  by (auto simp: ifMore_def)

section \<open>Packet by packet\<close>

text \<open>\<open>reencodes c p\<close>: the body assembles, and the packet is one the wire can carry.\<close>

definition reencodes :: "Codec \<Rightarrow> Packet \<Rightarrow> bool" where
  "reencodes c p \<longleftrightarrow> (\<exists>buf. packetBody c p = Inr buf) \<and> wirePacket (spec c) p"

lemma publish_again:
  assumes "decodePublish c fh s = (Inr p, t)" "fh_QoS fh \<noteq> 3" "fh_QoS fh < 4"
  shows "reencodes c p"
proof -
  from assms(1) obtain topic id props payload u v w n where
    p: "p = Publish \<lparr>pp_fh = fh, pp_PacketID = id, pp_Topic = topic, pp_Payload = payload, pp_Properties = props\<rparr>"
    and t: "readStringBounded (fh_RemainingLength fh - 2) s = (Inr topic, u)"
    and i: "decodePublishID fh (2 + length topic) u = (Inr id, v)"
    and b: "decodePublishBody c n v = (Inr (props, payload), w)"
    and ok: "publishTopicOk c topic props"
    by (auto simp: decodePublish_def rthen_eq_Inr Let_def split: if_splits)
  from b have sec: "decodedSection c locusPublish props"
    by (auto simp: decodePublishBody_def rthen_eq_Inr split: if_splits dest!: within_Inr
        dest: decodeProperties_section)
  have id: "fh_QoS fh = 0 \<and> id = 0 \<or> 0 < fh_QoS fh \<and> id \<noteq> 0"
    using i by (auto simp: decodePublishID_def rthen_eq_Inr word_gt_0 split: if_splits)
  have "fh_QoS fh \<le> 2"
  proof -
    have "unat (fh_QoS fh) < 4" using assms(3) by (simp add: word_less_nat_alt)
    moreover have "unat (fh_QoS fh) \<noteq> 3" using assms(2) by (simp add: word_unat_eq_iff)
    ultimately show ?thesis by (simp add: word_le_nat_alt)
  qed
  with id sec ok readString_ok [OF t] decodedSection_writes [OF sec] decodedSection_wireable [OF sec]
  show ?thesis by (auto simp: reencodes_def p encodePublishBody_def guard_def)
qed

lemma ack_again:
  assumes "decodeAckFields c fh s = (Inr a, t)" "codecWf c"
  shows "\<exists>buf. encodeAckBody c a = Inr buf" "propsWireable locusAck (ak_Properties a)"
proof -
  from assms(1) obtain buf r where f: "ackFields fh buf = (Inr a, r)" "length buf = fh_RemainingLength fh"
    and v: "sp_ReasonCodes (spec c) \<or> fh_RemainingLength fh = 2"
    by (auto simp: decodeAckFields_def split: if_splits dest!: within_Inr)
  from f(1) obtain b code props u where id: "ak_PacketID a \<noteq> 0"
    and b: "readUint16FromReader buf = (Inr (ak_PacketID a), b)"
    and c: "ifMore readByte (rret 0) b = (Inr (ak_ReasonCode a), code)"
    and pr: "ifMore (lastProperties locusAck) (rret None) code = (Inr (ak_Properties a), u)"
    by (auto simp: ackFields_def rthen_eq_Inr split: if_splits)
  have none: "ak_ReasonCode a = 0 \<and> ak_Properties a = None" if "\<not> sp_ReasonCodes (spec c)"
  proof -
    have "length buf = 2" using v f(2) that by simp
    with b have "b = []" by (auto simp: readUint16FromReader_def rthen_eq_Inr ReadByte_eq_Inr readFull_eq_Inr)
    with c pr show ?thesis by auto
  qed
  have sec: "decodedSection c locusAck (ak_Properties a)"
  proof (cases "sp_ReasonCodes (spec c)")
    case True
    then have "sp_Properties (spec c)" using codecWf_caps(1) [OF assms(2)] by simp
    with pr show ?thesis by (auto dest!: ifMore_Inr dest: lastProperties_section)
  qed (use none in simp)
  then show "propsWireable locusAck (ak_Properties a)" by (rule decodedSection_wireable)
  show "\<exists>buf. encodeAckBody c a = Inr buf"
  proof (cases "ak_Properties a")
    case (Some q)
    with sec obtain bs where "encodeProperties q locusAck = Inr bs" using decodedSection_encodes [of c locusAck q] by auto
    with Some id none show ?thesis by (auto simp: encodeAckBody_def encodeAckFields_def)
  qed (use id none in \<open>auto simp: encodeAckBody_def encodeAckFields_def\<close>)
qed

lemma reason_again:
  fixes c :: Codec
  assumes "reasonFields fh valid l s = (Inr a, t)" "sp_Properties (spec c) \<or> fh_RemainingLength fh \<le> 1"
  shows "\<exists>buf. encodeReasonBody a l = Inr buf" "propsWireable l (rp_Properties a)" "valid (rp_ReasonCode a)"
    "fh_RemainingLength fh = 0 \<Longrightarrow> rp_ReasonCode a = 0 \<and> rp_Properties a = None"
proof -
  have sec: "decodedSection c l (rp_Properties a)"
    using assms by (auto simp: reasonFields_def rthen_eq_Inr split: if_splits dest: lastProperties_section)
  then show "propsWireable l (rp_Properties a)" by (rule decodedSection_wireable)
  show "\<exists>buf. encodeReasonBody a l = Inr buf"
  proof (cases "rp_Properties a")
    case (Some q)
    with sec obtain bs where "encodeProperties q l = Inr bs" using decodedSection_encodes [of c l q] by auto
    with Some show ?thesis by (auto simp: encodeReasonBody_def)
  qed (auto simp: encodeReasonBody_def)
  show "valid (rp_ReasonCode a)" "fh_RemainingLength fh = 0 \<Longrightarrow> rp_ReasonCode a = 0 \<and> rp_Properties a = None"
    using assms(1) by (auto simp: reasonFields_def rthen_eq_Inr split: if_splits)
qed

lemma subAck_again:
  assumes "subAckFields c fh l i s = (Inr a, t)" "i \<noteq> 0"
  shows "\<exists>buf. encodeSubAckBody c l a = Inr buf" "propsWireable l (sa_Properties a)"
    "fh_RemainingLength fh = 2 \<Longrightarrow> s = [] \<Longrightarrow> sa_ReasonCodes a = [] \<and> sa_Properties a = None"
proof -
  have sec: "decodedSection c l (sa_Properties a)" and i: "sa_PacketID a = i"
    using assms by (auto simp: subAckFields_def rthen_eq_Inr split: if_splits dest: sectionIf_section)
  then show "propsWireable l (sa_Properties a)" by (intro decodedSection_wireable)
  show "\<exists>buf. encodeSubAckBody c l a = Inr buf"
    using decodedSection_writes [OF sec] i assms(2) by (auto simp: encodeSubAckBody_def guard_def)
  show "fh_RemainingLength fh = 2 \<Longrightarrow> s = [] \<Longrightarrow> sa_ReasonCodes a = [] \<and> sa_Properties a = None"
    using assms by (auto simp: subAckFields_def rthen_eq_Inr readRest_def)
qed

lemma idThenBody_Inr:
  "idThenBody fh f s = (Inr p, t) \<Longrightarrow>
   \<exists>i buf r. i \<noteq> 0 \<and> f i buf = (Inr p, r) \<and> length buf = fh_RemainingLength fh - 2"
  by (auto simp: idThenBody_def rthen_eq_Inr split: if_splits dest!: within_Inr)

lemma connAck_again: "decodeConnAck c fh s = (Inr p, t) \<Longrightarrow> reencodes c p"
proof -
  assume "decodeConnAck c fh s = (Inr p, t)"
  then obtain a where p: "p = ConnAck a" and sec: "decodedSection c locusConnAck (ca_Properties a)"
    by (auto simp: decodeConnAck_def connAckFields_def rthen_eq_Inr split: if_splits
        dest!: within_Inr) (auto dest: lastProperties_section)
  show ?thesis using decodedSection_writes [OF sec] decodedSection_wireable [OF sec]
    by (auto simp: reencodes_def p encodeConnAckBody_def)
qed

text \<open>An accepted option byte has a QoS and a Retain Handling below 3.\<close>

lemma optionsOk_bits:
  assumes "optionsOk c b"
  shows "\<not> 2 < b AND 0x03" "\<not> 2 < drop_bit 4 b AND (0x03 :: byte)"
    "sp_Properties (spec c) \<or> b AND 0x04 = 0 \<and> b AND 0x08 = 0 \<and> drop_bit 4 b AND 0x03 = (0 :: byte)"
proof -
  have small: "\<not> 2 < x AND 0x03" if "x AND 0x03 \<noteq> 3" for x :: byte
  proof -
    have "unat (x AND 0x03) < 2 ^ 2" unfolding masks by (rule take_bit_less)
    moreover have "unat (x AND 0x03) \<noteq> 3" using that by (simp add: word_unat_eq_iff)
    ultimately show ?thesis by (simp add: word_less_nat_alt)
  qed
  from assms show "\<not> 2 < b AND 0x03" "\<not> 2 < drop_bit 4 b AND (0x03 :: byte)"
    by (auto simp: optionsOk_def intro!: small split: if_splits)
  have fc: "b AND 0x04 = 0 \<and> b AND 0x08 = 0 \<and> drop_bit 4 b AND 0x03 = (0 :: byte)" if "b AND 0xFC = 0"
  proof -
    have m: "(0x04 :: byte) AND 0xFC = 0x04" "(0x08 :: byte) AND 0xFC = 0x08" "(0x30 :: byte) AND 0xFC = 0x30"
      by simp_all
    have z: "b AND k = 0" if "k AND 0xFC = k" for k
      using \<open>b AND 0xFC = 0\<close> that by (metis and.assoc and.commute and_zero_eq)
    have "drop_bit 4 b AND 0x03 = drop_bit 4 (b AND 0x30)"
      by (simp add: drop_bit_and)
    with z m show ?thesis by simp
  qed
  from assms fc show "sp_Properties (spec c) \<or> b AND 0x04 = 0 \<and> b AND 0x08 = 0 \<and> drop_bit 4 b AND 0x03 = (0 :: byte)"
    by (auto simp: optionsOk_def split: if_splits)
qed

definition filterAgain :: "Codec \<Rightarrow> TopicFilter \<Rightarrow> bool" where
  "filterAgain c f \<longleftrightarrow> (\<exists>b. writeTopicFilter f = Inr b) \<and>
     (sp_Properties (spec c) \<or> \<not> tf_NoLocal f \<and> \<not> tf_RetainAsPublished f \<and> tf_RetainHandling f = 0)"

lemma readTopicFilter_again: "readTopicFilter c i s = (Inr f, t) \<Longrightarrow> filterAgain c f"
proof -
  assume "readTopicFilter c i s = (Inr f, t)"
  then obtain x b u where x: "readStringFromReader s = (Inr x, u)" and b: "optionsOk c b"
    and f: "f = topicFilterOf x b i"
    by (auto simp: readTopicFilter_def rthen_eq_Inr split: if_splits)
  show ?thesis using optionsOk_bits [OF b] readStringFromReader_ok [OF x]
    by (auto simp: filterAgain_def f topicFilterOf_def writeTopicFilter_def)
qed

lemma subscribeLoop_again:
  "subscribeLoop c i acc s = (Inr ts, t) \<Longrightarrow> \<forall>f \<in> set acc. filterAgain c f \<Longrightarrow> \<forall>f \<in> set ts. filterAgain c f"
proof (induction c i acc s rule: subscribeLoop.induct)
  case (1 c i acc s)
  show ?case
  proof (cases "s = []")
    case True
    with "1.prems" show ?thesis by (auto simp: subscribeLoop.simps [of c i acc "[]"])
  next
    case False
    with "1.prems"(1) obtain f s' where f: "readTopicFilter c i s = (Inr f, s')"
      and r: "subscribeLoop c i (acc @ [f]) s' = (Inr ts, t)"
      by (auto simp: subscribeLoop.simps [of c i acc s] split: prod.splits sum.splits)
    from "1.IH" [OF False f [symmetric] refl r] "1.prems"(2) readTopicFilter_again [OF f] show ?thesis by simp
  qed
qed

lemma unsubscribeLoop_again:
  "unsubscribeLoop acc s = (Inr ts, t) \<Longrightarrow> \<forall>x \<in> set acc. \<exists>b. writeString x = Inr b \<Longrightarrow>
   \<forall>x \<in> set ts. \<exists>b. writeString x = Inr b"
proof (induction acc s rule: unsubscribeLoop.induct)
  case (1 acc s)
  show ?case
  proof (cases "s = []")
    case True
    with "1.prems" show ?thesis by (auto simp: unsubscribeLoop.simps [of acc "[]"])
  next
    case False
    with "1.prems"(1) obtain x s' where x: "readStringFromReader s = (Inr x, s')"
      and r: "unsubscribeLoop (acc @ [x]) s' = (Inr ts, t)"
      by (auto simp: unsubscribeLoop.simps [of acc s] split: prod.splits sum.splits)
    from "1.IH" [OF False x [symmetric] refl r] "1.prems"(2) readStringFromReader_ok [OF x] show ?thesis by simp
  qed
qed

lemma subscribe_again: "decodeSubscribe c fh s = (Inr p, t) \<Longrightarrow> reencodes c p"
proof -
  assume "decodeSubscribe c fh s = (Inr p, t)"
  then obtain i props ts where i: "i \<noteq> 0" and sec: "decodedSection c locusSubscribe props" and ne: "ts \<noteq> []"
    and l: "\<exists>b r. subscribeLoop c (firstSubID props) [] b = (Inr ts, r)"
    and p: "p = Subscribe \<lparr>sb_fh = fh, sb_PacketID = i, sb_Topics = ts, sb_Properties = props\<rparr>"
    by (auto simp: decodeSubscribe_def subscribeFields_def rthen_eq_Inr split: if_splits
        dest!: idThenBody_Inr) (blast dest: sectionIf_section)
  from l have f: "\<forall>f \<in> set ts. filterAgain c f" using subscribeLoop_again by fastforce
  then obtain bs where "wseq (map writeTopicFilter ts) = Inr bs"
    using wseq_ok [of "map writeTopicFilter ts"] by (auto simp: filterAgain_def)
  with i ne decodedSection_writes [OF sec] decodedSection_wireable [OF sec] f show ?thesis
    by (auto simp: reencodes_def p encodeSubscribeBody_def wseq_append guard_def filterAgain_def)
qed

lemma unsubscribe_again: "decodeUnsubscribe c fh s = (Inr p, t) \<Longrightarrow> reencodes c p"
proof -
  assume "decodeUnsubscribe c fh s = (Inr p, t)"
  then obtain i props ts where i: "i \<noteq> 0" and sec: "decodedSection c locusUnsubscribe props" and ne: "ts \<noteq> []"
    and l: "\<exists>b r. unsubscribeLoop [] b = (Inr ts, r)"
    and p: "p = Unsubscribe \<lparr>us_fh = fh, us_PacketID = i, us_Topics = ts, us_Properties = props\<rparr>"
    by (auto simp: decodeUnsubscribe_def unsubscribeFields_def rthen_eq_Inr split: if_splits
        dest!: idThenBody_Inr) (blast dest: sectionIf_section)
  from l have "\<forall>x \<in> set ts. \<exists>b. writeString x = Inr b" using unsubscribeLoop_again by fastforce
  then obtain bs where "wseq (map writeString ts) = Inr bs"
    using wseq_ok [of "map writeString ts"] by auto
  with i ne decodedSection_writes [OF sec] decodedSection_wireable [OF sec] show ?thesis
    by (auto simp: reencodes_def p encodeUnsubscribeBody_def wseq_append guard_def)
qed

lemma subAck_packet_again: "decodeSubAck c fh s = (Inr p, t) \<Longrightarrow> reencodes c p"
proof -
  assume "decodeSubAck c fh s = (Inr p, t)"
  then obtain i buf a r where i: "i \<noteq> 0" and f: "subAckFields c fh locusSubAck i buf = (Inr a, r)"
    and p: "p = SubAck a"
    by (auto simp: decodeSubAck_def rthen_eq_Inr dest!: idThenBody_Inr)
  show ?thesis using subAck_again [OF f i] by (auto simp: reencodes_def p)
qed

lemma unsubAck_again: "decodeUnsubAck c fh s = (Inr p, t) \<Longrightarrow> reencodes c p"
proof -
  assume "decodeUnsubAck c fh s = (Inr p, t)"
  then obtain i buf a r where i: "i \<noteq> 0" and f: "subAckFields c fh locusUnsubAck i buf = (Inr a, r)"
    and n: "length buf = fh_RemainingLength fh - 2" and p: "p = UnsubAck a"
    and v: "sp_ReasonCodes (spec c) \<or> fh_RemainingLength fh = 2"
    by (auto simp: decodeUnsubAck_def rthen_eq_Inr split: if_splits dest!: idThenBody_Inr)
  show ?thesis using subAck_again [OF f i] n v by (auto simp: reencodes_def p encodeUnsubAckBody_def)
qed

lemma reason_packets_again:
  assumes "codecWf c"
  shows "decodeDisconnect c fh s = (Inr p, t) \<Longrightarrow> reencodes c p" "decodeAuth c fh s = (Inr p, t) \<Longrightarrow> reencodes c p"
proof -
  assume "decodeDisconnect c fh s = (Inr p, t)"
  then obtain buf a r where f: "reasonFields fh (\<lambda>_. True) locusDisconnect buf = (Inr a, r)"
    and p: "p = Disconnect a" and v: "sp_ReasonCodes (spec c) \<or> fh_RemainingLength fh = 0"
    by (auto simp: decodeDisconnect_def rthen_eq_Inr split: if_splits dest!: within_Inr)
  have "sp_Properties (spec c) \<or> fh_RemainingLength fh \<le> 1" using v codecWf_caps(1) [OF assms] by auto
  from reason_again [OF f this] v show "reencodes c p"
    by (auto simp: reencodes_def p encodeDisconnectBody_def)
next
  assume "decodeAuth c fh s = (Inr p, t)"
  then obtain buf a r where f: "reasonFields fh validAuthReasonCode locusAuth buf = (Inr a, r)"
    and p: "p = Auth a" and v: "sp_AuthPacket (spec c)"
    by (auto simp: decodeAuth_def rthen_eq_Inr split: if_splits dest!: within_Inr)
  have "sp_Properties (spec c) \<or> fh_RemainingLength fh \<le> 1" using v codecWf_caps(2) [OF assms] by auto
  from reason_again [OF f this] v show "reencodes c p"
    by (auto simp: reencodes_def p encodeAuthBody_def)
qed

lemma decodeBody_again:
  assumes "decodeBody c fh s = (Inr p, t)" "codecWf c" "wfHeader fh" "validateFixedHeaderFlags fh = Inr ()"
  shows "reencodes c p"
proof -
  have q: "fh_PacketType fh = PacketTypePublish \<Longrightarrow> fh_QoS fh \<noteq> 3" "fh_QoS fh < 4"
    using assms(3,4) by (auto simp: validateFixedHeaderFlags_def wfHeader_def)
  have acks: "reencodes c p" if "decodeAckFields c fh s = (Inr a, t)"
    "p = PubAck a \<or> p = PubRec a \<or> p = PubRel a \<or> p = PubComp a" for a
    using ack_again [OF that(1) assms(2)] that(2) by (auto simp: reencodes_def)
  show ?thesis
    using assms(1) q acks
    unfolding decodeBody_def Let_def decodePubAck_def decodePubRec_def decodePubRel_def decodePubComp_def
    by (auto simp: rthen_eq_Inr reencodes_def [of c "PingReq _"] reencodes_def [of c "PingResp _"]
        split: if_split_asm intro: connAck_again publish_again subscribe_again unsubscribe_again
          subAck_packet_again unsubAck_again reason_packets_again [OF assms(2)])
qed

text \<open>CONNECT.\<close>

lemma decodeWill_again:
  "decodeWill c f s = (Inr (wp, wt, wm), t) \<Longrightarrow>
   cf_WillFlag f \<and> decodedSection c locusWill wp \<and> (\<exists>b. writeString wt = Inr b) \<and>
     (\<exists>b. writeBlob wm ErrWillMessageTooLong = Inr b) \<or>
   \<not> cf_WillFlag f"
  by (auto simp: decodeWill_def rthen_eq_Inr readString_def split: if_splits
      dest: sectionIf_section readString_ok readBlob_ok)

lemma connectFields_again:
  assumes "connectFields c fh n v s = (Inr p, t)" "\<exists>b. writeString n = Inr b"
  shows "reencodes c p" "\<exists>q. p = Connect q \<and> cp_ProtocolVersion q = v"
proof -
  from assms(1) obtain f ka props cid wp wt wm un pw s1 s2 s3 s4 s5 s6 s7 where
    p: "p = Connect \<lparr>cp_fh = fh, cp_ProtocolName = n, cp_ProtocolVersion = v, cp_Flags = f,
      cp_KeepAlive = ka, cp_ClientID = cid, cp_WillTopic = wt, cp_WillMessage = wm, cp_Username = un,
      cp_Password = pw, cp_Properties = props, cp_WillProperties = wp\<rparr>"
    and sec: "sectionIf (sp_Properties (spec c)) locusConnect s1 = (Inr props, s2)"
    and cid: "readString s2 = (Inr cid, s3)"
    and will: "decodeWill c f s3 = (Inr (wp, wt, wm), s4)"
    and un: "(if cf_UsernameFlag f then readString else rret []) s4 = (Inr un, s5)"
    and pw: "(if cf_PasswordFlag f then readBlob else rret []) s5 = (Inr pw, s6)"
    by (auto simp: connectFields_def Let_def rthen_eq_Inr ifMore_end)
  note cs = sectionIf_section [OF sec]
  have "\<exists>b. writeString cid = Inr b" using cid by (auto simp: readString_def dest: readString_ok)
  moreover have "cf_UsernameFlag f \<Longrightarrow> \<exists>b. writeString un = Inr b"
    using un by (auto simp: readString_def dest: readString_ok)
  moreover have "cf_PasswordFlag f \<Longrightarrow> \<exists>b. writeBlob pw ErrPasswordTooLong = Inr b"
    using pw by (auto dest: readBlob_ok)
  moreover have "cf_WillFlag f \<Longrightarrow> \<exists>b. writePropertySection c wp locusWill = Inr b"
    using decodeWill_again [OF will] decodedSection_writes by blast
  ultimately have "\<exists>buf. packetBody c p = Inr buf"
    using decodedSection_writes [OF cs] assms(2) decodeWill_again [OF will]
    by (auto simp: p encodeConnectBody_def Let_def)
  moreover have "wirePacket (spec c) p"
    using decodeWill_again [OF will] cs by (auto simp: p dest: decodedSection_wireable)
  ultimately show "reencodes c p" by (simp add: reencodes_def)
  show "\<exists>q. p = Connect q \<and> cp_ProtocolVersion q = v" by (simp add: p)
qed

section \<open>The dispatcher\<close>

lemma encodeTo_ok:
  assumes "packetBody (versionBound c p) p = Inr buf" "validateFixedHeaderFlags (GetFixedHeader p) = Inr ()" "codecWf c"
  shows "\<exists>bs p'. encodeTo c p = (Inr bs, p', versionBound c p)"
  using assms
  by (cases p) (simp_all add: encodeTo_def syncSpec_wf versionBound_def emit_def encodeConnect_def Let_def
    encodeConnAck_def encodePublish_def encodePubAck_def encodePubRec_def encodePubRel_def encodePubComp_def
    encodeSubscribe_def encodeSubAck_def encodeUnsubscribe_def encodeUnsubAck_def encodePingReq_def
    encodePingResp_def encodeDisconnect_def encodeAuth_def)

lemma connectBody_again:
  assumes "connectBody c fh buf = (Inr p, c')" "codecWf c"
  shows "reencodes c' p" "codecWf c'" "versionBound c' p = c'"
proof -
  from assms(1) obtain n v rest u where n: "readString buf = (Inr n, u)" and c': "c' = setVersion c v"
    and f: "fst (connectFields c' fh n v rest) = Inr p"
    by (auto simp: connectBody_def rthen_eq_Inr Let_def split: prod.splits sum.splits)
  from f obtain r where f': "connectFields c' fh n v rest = (Inr p, r)" by (metis prod.collapse)
  from n have "\<exists>b. writeString n = Inr b" by (auto simp: readString_def dest: readString_ok)
  note again = connectFields_again [OF f' this]
  show "reencodes c' p" by (rule again(1))
  show wf: "codecWf c'" using assms(2) by (simp add: c' codecWf_ops)
  from again(2) have "versionBound c' p = setVersion c' v" by (auto simp: versionBound_def)
  also have "\<dots> = c'" using assms(2) wf by (simp add: setVersion_wf c')
  finally show "versionBound c' p = c'" .
qed

lemma Decode_again:
  assumes d: "Decode c s = (Inr p, t, c')" and wf: "codecWf c"
  shows "codecWf c'" "reencodes c' p" "versionBound c' p = c'"
proof -
  from d wf obtain h u where d': "decodeFixedHeader s = (Inr h, u)"
    and v: "validateFixedHeaderFlags h = Inr ()"
    and b: "if fh_PacketType h = PacketTypeConnect then decodeConnect c h u = (Inr p, t, c')
            else decodeBody c h u = (Inr p, t) \<and> c' = c"
    by (auto simp: Decode_def Let_def syncSpec_wf split: prod.splits sum.splits if_splits)
  have "codecWf c' \<and> reencodes c' p \<and> versionBound c' p = c'"
  proof (cases "fh_PacketType h = PacketTypeConnect")
    case True
    with b obtain buf where "connectBody c h buf = (Inr p, c')"
      by (auto simp: decodeConnect_def split: prod.splits sum.splits)
    with connectBody_again wf show ?thesis by blast
  next
    case False
    with b have b': "decodeBody c h u = (Inr p, t)" and c: "c' = c" by simp_all
    have "packetCode p \<noteq> PacketTypeConnect"
      using decodesTo_decodeBody [of h c] b' False unfolding decodesTo_def by metis
    then have "versionBound c p = c" by (cases p) (simp_all add: versionBound_def)
    with decodeBody_again [OF b' wf _ v] d' wf c show ?thesis by (simp add: decodeFixedHeader_iff)
  qed
  then show "codecWf c'" "reencodes c' p" "versionBound c' p = c'" by simp_all
qed

lemma Decode_encodeTo_again:
  assumes d: "Decode c s = (Inr p, t, c')" and wf: "codecWf c"
  obtains bs p' where "encodeTo c' p = (Inr bs, p', c')"
proof -
  note a = Decode_again [OF assms]
  from a(2,3) obtain buf where "packetBody (versionBound c' p) p = Inr buf" by (auto simp: reencodes_def)
  from encodeTo_ok [OF this Decode_frame(2) [OF d] a(1)] a(3) that show ?thesis by auto
qed

end
