(* ===== verification/CodecTheorems.thy ===== *)
theory CodecTheorems
  imports CodecReencode "HOL-Library.Code_Target_Numeral"
begin

text \<open>
  The theorems on the wire protocol: framing, the round trips in both directions, the outbound
  bound, the fixed header, property sections, variable integers, and a stream of packets through
  the interface \<^verbatim>\<open>PacketCodec\<close> of \<^verbatim>\<open>src/protocol/adapter.go\<close> that the broker holds a
  connection's codec by. Each is evaluated on concrete packets.
\<close>

section \<open>The codec interface\<close>

text \<open>
  What a client of a codec relies on: encoding writes at least one byte, and decoding reads back
  one packet and leaves what follows it.
\<close>

locale packet_codec =
  fixes enc :: "'c \<Rightarrow> 'p \<Rightarrow> 'b list option" and dec :: "'c \<Rightarrow> 'b list \<Rightarrow> ('p \<times> 'b list) option"
    and sendable :: "'c \<Rightarrow> 'p \<Rightarrow> bool" and received :: "'c \<Rightarrow> 'p \<Rightarrow> 'p"
  assumes dec_enc: "sendable c p \<Longrightarrow> enc c p = Some bs \<Longrightarrow> dec c (bs @ s) = Some (received c p, s)"
    and sendable_enc: "sendable c p \<Longrightarrow> \<exists>bs. enc c p = Some bs"
begin

fun sendAll :: "'c \<Rightarrow> 'p list \<Rightarrow> 'b list" where
  "sendAll c [] = []"
| "sendAll c (p # ps) = the (enc c p) @ sendAll c ps"

fun recvAll :: "'c \<Rightarrow> nat \<Rightarrow> 'b list \<Rightarrow> 'p list option" where
  "recvAll c 0 s = (if s = [] then Some [] else None)"
| "recvAll c (Suc n) s = (case dec c s of None \<Rightarrow> None | Some (p, s') \<Rightarrow> map_option (Cons p) (recvAll c n s'))"

lemma stream: "list_all (sendable c) ps \<Longrightarrow> recvAll c (length ps) (sendAll c ps) = Some (map (received c) ps)"
proof (induction ps)
  case (Cons p ps)
  then obtain bs where "enc c p = Some bs" "sendable c p" using sendable_enc [of c p] by auto
  with Cons dec_enc [of c p bs "sendAll c ps"] show ?case by simp
qed simp

end

text \<open>The codec of an established connection: no CONNECT, both ends at the same version.\<close>

definition encodeBytes :: "Codec \<Rightarrow> Packet \<Rightarrow> byte list option" where
  "encodeBytes c p = (case Encode c p of (Inr bs, _, _) \<Rightarrow> Some bs | _ \<Rightarrow> None)"

definition decodeOne :: "Codec \<Rightarrow> byte list \<Rightarrow> (Packet \<times> byte list) option" where
  "decodeOne c s = (case Decode c s of (Inr p, t, _) \<Rightarrow> Some (p, t) | _ \<Rightarrow> None)"

definition receivedPacket :: "Codec \<Rightarrow> Packet \<Rightarrow> Packet" where
  "receivedPacket c p =
     (case Encode c p of (_, p', c') \<Rightarrow> normPacket (spec c') (wireHeader (GetFixedHeader p')) p)"

definition sendablePacket :: "Codec \<Rightarrow> Packet \<Rightarrow> bool" where
  "sendablePacket c p \<longleftrightarrow>
     (case Encode c p of
        (Inr bs, p', c') \<Rightarrow> codecWf c \<and> packetCode p \<noteq> PacketTypeConnect \<and>
          fh_PacketType (GetFixedHeader p) = packetCode p \<and> wirePacket (spec c') p \<and>
          fh_RemainingLength (GetFixedHeader p') < 2 ^ 28 \<and> length bs \<le> maxPacketSize c
      | (Inl e, _, _) \<Rightarrow> False)"

lemma Encode_encodeTo: "Encode c p = (Inr bs, p', c') \<Longrightarrow> encodeTo c p = (Inr bs, p', c')"
  by (auto simp: Encode_def split: if_splits prod.splits sum.splits)

lemma encodeTo_versionBound:
  "encodeTo c p = (Inr bs, p', c') \<Longrightarrow> fh_PacketType (GetFixedHeader p) = packetCode p \<Longrightarrow> codecWf c \<Longrightarrow>
   c' = versionBound c p"
  by (erule encodeTo_Inr)

lemma versionBound_other: "packetCode p \<noteq> PacketTypeConnect \<Longrightarrow> versionBound c p = c"
  by (cases p) (simp_all add: versionBound_def)

interpretation wire: packet_codec encodeBytes decodeOne sendablePacket receivedPacket
proof
  fix c p bs s assume s: "sendablePacket c p" and e: "encodeBytes c p = Some bs"
  then obtain p' c' where e': "Encode c p = (Inr bs, p', c')"
    by (auto simp: encodeBytes_def split: prod.splits sum.splits)
  note h = s [unfolded sendablePacket_def e', simplified]
  have c': "c' = c" using encodeTo_versionBound [OF Encode_encodeTo [OF e']] h by (simp add: versionBound_other)
  from Decode_encodeTo [OF Encode_encodeTo [OF e'], of c s] h c'
  show "decodeOne c (bs @ s) = Some (receivedPacket c p, s)"
    by (simp add: decodeOne_def receivedPacket_def e' versionBound_other)
next
  fix c p assume "sendablePacket c p"
  then show "\<exists>bs. encodeBytes c p = Some bs"
    by (auto simp: sendablePacket_def encodeBytes_def split: prod.splits sum.splits)
qed

section \<open>Concrete packets\<close>

definition exHeader :: "byte \<Rightarrow> byte \<Rightarrow> FixedHeader" where
  "exHeader t q = \<lparr> fh_PacketType = t, fh_Dup = False, fh_QoS = q, fh_Retain = False,
     fh_RemainingLength = 0, fh_HeaderSize = 0 \<rparr>"

definition exProps :: Properties where
  "exProps = emptyProperties\<lparr> PayloadFormat := Some 1, ContentType := [0x74],
     SubscriptionIdentifier := [300], UserProperties := [\<lparr> up_Key = [0x6B], up_Value = [0x76] \<rparr>] \<rparr>"

definition exPublish :: Packet where
  "exPublish = Publish \<lparr> pp_fh = exHeader 3 1, pp_PacketID = 7, pp_Topic = [0x61, 0x2F, 0x62],
     pp_Payload = [1, 2], pp_Properties = Some exProps \<rparr>"

definition exConnect :: Packet where
  "exConnect = Connect \<lparr> cp_fh = exHeader 1 0, cp_ProtocolName = ProtocolNameMQTT, cp_ProtocolVersion = 5,
     cp_Flags = \<lparr> cf_UsernameFlag = True, cf_PasswordFlag = False, cf_WillRetain = False, cf_WillQoS = 1,
       cf_WillFlag = True, cf_WillTopicFlag = True, cf_CleanSession = True, cf_Reserved = False \<rparr>,
     cp_KeepAlive = 60, cp_ClientID = [0x63], cp_WillTopic = [0x77], cp_WillMessage = [9],
     cp_Username = [0x75], cp_Password = [], cp_Properties = None, cp_WillProperties = None \<rparr>"

definition exCodec :: Codec where
  "exCodec = NewCodecForVersion 0 5"

lemma exPublish_encodes: "encodeBytes exCodec exPublish = Some [0x32, 0x1A, 0, 3, 0x61, 0x2F, 0x62, 0, 7, 0x10, 1, 1, 3, 0, 1, 0x74, 0x0B, 0xAC, 2, 0x26, 0, 1, 0x6B, 0, 1, 0x76, 1, 2]"
  by code_simp

definition exBytes :: "byte list" where
  "exBytes = [0x32, 0x1A, 0, 3, 0x61, 0x2F, 0x62, 0, 7, 0x10, 1, 1, 3, 0, 1, 0x74, 0x0B, 0xAC, 2,
     0x26, 0, 1, 0x6B, 0, 1, 0x76, 1, 2]"

definition exPublished :: Packet where
  "exPublished = setHeader ((exHeader 3 1)\<lparr>fh_RemainingLength := 26\<rparr>) exPublish"

lemma exBytes_decodes:
  "Decode exCodec exBytes = (Inr (setHeader (headerOf 0x32 26 2) exPublish), [], exCodec)"
  by code_simp

section \<open>Theorems\<close>



text \<open>
  C19. A whole stream: any sequence of packets an established connection can send, written one
  after the other, is read back packet by packet, in order, with nothing left over.
\<close>

theorem packet_stream_roundtrip:
  "list_all (sendablePacket c) ps \<Longrightarrow>
   wire.recvAll c (length ps) (wire.sendAll c ps) = Some (map (receivedPacket c) ps)"
  by (rule wire.stream)

definition exPing :: Packet where
  "exPing = PingReq \<lparr> pg_fh = exHeader 12 0 \<rparr>"

theorem packet_stream_roundtrip_witness:
  "wire.recvAll exCodec (Suc (Suc (Suc 0))) (wire.sendAll exCodec [exPing, exPublish, exPing]) =
     Some (map (receivedPacket exCodec) [exPing, exPublish, exPing])"
proof -
  have "list_all (sendablePacket exCodec) [exPing, exPublish, exPing]" by code_simp
  from packet_stream_roundtrip [OF this] show ?thesis by (simp only: list.size add_0_left add_0_right add_Suc_right)
qed

text \<open>
  C5. Framing: a successful \<open>Decode\<close> takes exactly one frame off the connection, the fixed header
  it reports followed by as many body bytes as its Remaining Length says; the packet is of the
  type of its first byte, its reserved flags are legal, and its size is within the limit.
\<close>

theorem Decode_takes_one_frame:
  assumes "Decode c s = (Inr p, t, c')"
  shows "\<exists>body. s = encodeFixedHeader (GetFixedHeader p) @ body @ t \<and>
      length body = fh_RemainingLength (GetFixedHeader p) \<and>
      fh_HeaderSize (GetFixedHeader p) = length (encodeFixedHeader (GetFixedHeader p)) \<and>
      fh_HeaderSize (GetFixedHeader p) + fh_RemainingLength (GetFixedHeader p) \<le> maxPacketSize c \<and>
      packetCode p = fh_PacketType (GetFixedHeader p) \<and>
      validateFixedHeaderFlags (GetFixedHeader p) = Inr ()"
  using Decode_frame [OF assms] by (auto simp: wfHeader_def)

definition exWire :: "byte list" where
  "exWire = [0x40, 4, 0, 9, 0x10, 0, 0xC0, 0]"

theorem Decode_takes_one_frame_witness:
  "\<exists>p c'. Decode exCodec exWire = (Inr p, [0xC0, 0], c') \<and>
     (\<exists>body. exWire = encodeFixedHeader (GetFixedHeader p) @ body @ [0xC0, 0] \<and> length body = 4)"
proof -
  let ?p = "PubAck \<lparr> ak_fh = headerOf 0x40 4 2, ak_PacketID = 9, ak_ReasonCode = 0x10, ak_Properties = None \<rparr>"
  have d: "Decode exCodec exWire = (Inr ?p, [0xC0, 0], exCodec)" by code_simp
  from Decode_takes_one_frame [OF d] d show ?thesis by (auto simp: headerOf_def)
qed

text \<open>
  C11. No over-reading: once the fixed header is read, \<open>Decode\<close> drops at most Remaining Length
  further bytes, whether the packet is accepted or refused, so a refused packet never eats into
  the next one.
\<close>

theorem Decode_stays_in_frame:
  assumes "decodeFixedHeader s = (Inr fh, u)"
  shows "\<exists>k \<le> fh_RemainingLength fh. fst (snd (Decode c s)) = drop k u"
  by (rule Decode_never_overreads [OF assms])

theorem Decode_stays_in_frame_witness:
  "\<exists>k \<le> 3. fst (snd (Decode exCodec [0x30, 3, 0, 9, 0x61, 0x40, 2])) = drop k [0, 9, 0x61, 0x40, 2]"
proof -
  have "decodeFixedHeader [0x30, 3, 0, 9, 0x61, 0x40, 2] = (Inr (headerOf 0x30 3 2), [0, 9, 0x61, 0x40, 2])"
    by code_simp
  from Decode_stays_in_frame [OF this, of exCodec] show ?thesis by (simp add: headerOf_def)
qed





text \<open>
  C27. The fixed header is canonical: the decoder accepts exactly the byte sequences the encoder
  writes for some legal header, so a Remaining Length in more bytes than needed, or in more than
  four, is refused, and the header size it reports is the number of bytes it took.
\<close>

theorem decodeFixedHeader_exact:
  "decodeFixedHeader s = (Inr fh, t) \<longleftrightarrow>
     s = encodeFixedHeader fh @ t \<and> fh_PacketType fh < 16 \<and> fh_QoS fh < 4 \<and>
     fh_RemainingLength fh < 2 ^ 28 \<and> fh_HeaderSize fh = length (encodeFixedHeader fh)"
  by (auto simp: decodeFixedHeader_iff wfHeader_def)

text \<open>
  C28. Round trip of a property section: a set the encoder accepts and the wire can carry is read
  back whole, except that an empty binary value becomes nil and an empty set becomes no set.
\<close>

theorem properties_roundtrip:
  assumes "encodeProperties p l = Inr bs" "wireable l p" "length bs < 2 ^ 28" "length (bs @ s) < 2 ^ 32"
  shows "decodeProperties l (bs @ s) = (Inr (decodedProperties p), s)"
  by (rule decodeProperties_encode [OF assms])

theorem properties_roundtrip_witness:
  "\<exists>bs. encodeProperties exProps locusPublish = Inr bs \<and>
     decodeProperties locusPublish (bs @ [1, 2]) = (Inr (decodedProperties exProps), [1, 2])"
proof -
  let ?bs = "[0x10, 1, 1, 3, 0, 1, 0x74, 0x0B, 0xAC, 2, 0x26, 0, 1, 0x6B, 0, 1, 0x76] :: byte list"
  have e: "encodeProperties exProps locusPublish = Inr ?bs" by code_simp
  have w: "wireable locusPublish exProps" by code_simp
  from properties_roundtrip [OF e w, of "[1, 2]"] e show ?thesis by auto
qed



text \<open>
  C30. Variable byte integers: what \<open>writeVarInt\<close> writes for any 32-bit value, \<open>readVarInt\<close> reads
  back when it fits in 28 bits and refuses as too long otherwise.
\<close>

theorem varint_roundtrip:
  "fst (readVarInt (writeVarInt v @ s)) = (if unat v < 2 ^ 28 then Inr v else Inl ErrVarIntTooLong) \<and>
   (unat v < 2 ^ 28 \<longleftrightarrow> length (writeVarInt v) \<le> 4)"
  by (simp only: readVarInt_writeVarInt length_writeVarInt_le_4)

text \<open>
  C38. MQTT strings: \<open>readString\<close> accepts exactly what \<open>writeString\<close> writes, so a string that is too
  long, ill-formed UTF-8 or holding a control character is on neither side.
\<close>

theorem string_codec_exact:
  "readString s = (Inr x, t) \<longleftrightarrow> (\<exists>bs. writeString x = Inr bs \<and> s = bs @ t)"
  by (rule readString_iff)

text \<open>
  C39. \<open>SplitTopic\<close> computes \<^verbatim>\<open>strings.Split\<close> on the separator, which joining the levels
  inverts; no level holds a separator.
\<close>

theorem SplitTopic_correct:
  "SplitTopic s = Split s \<and> joinLevels (SplitTopic s) = s \<and> (\<forall>l \<in> set (SplitTopic s). 0x2F \<notin> set l)"
  using Split_levels by (auto simp: SplitTopic_eq_Split joinLevels_Split)

theorem SplitTopic_correct_witness:
  "joinLevels (SplitTopic [0x61, 0x2F, 0x2F, 0x62]) = [0x61, 0x2F, 0x2F, 0x62] \<and>
   SplitTopic [0x61, 0x2F, 0x2F, 0x62] = [[0x61], [], [0x62]]"
proof -
  have "Split [0x61, 0x2F, 0x2F, 0x62] = [[0x61], [], [0x62]]" by simp
  with SplitTopic_correct [of "[0x61, 0x2F, 0x2F, 0x62]"] show ?thesis by simp
qed

text \<open>
  C31. The byte-wise filter check is the rule of the specification on levels: a non-empty filter
  whose every level is \<open>+\<close>, or a final \<open>#\<close>, or free of wildcards.
\<close>

theorem ValidateTopicFilter_correct:
  "ValidateTopicFilter f \<longleftrightarrow> f \<noteq> [] \<and> levelsOk (Split f)"
  by (rule ValidateTopicFilter_levels)



definition connectLegal :: "ConnectPacket \<Rightarrow> bool" where
  "connectLegal p \<longleftrightarrow> (let f = cp_Flags p; v = cp_ProtocolVersion p in
     (cp_ProtocolName p, v) \<in> {(ProtocolNameMQIsdp, 3), (ProtocolNameMQTT, 4), (ProtocolNameMQTT, 5)} \<and>
     \<not> cf_Reserved f \<and>
     (if cf_WillFlag f then cf_WillQoS f \<le> 2 \<and> cp_WillTopic p \<noteq> [] else cf_WillQoS f = 0 \<and> \<not> cf_WillRetain f) \<and>
     (cf_PasswordFlag f \<longrightarrow> cf_UsernameFlag f) \<and>
     (cp_ClientID p = [] \<longrightarrow> v \<noteq> 3 \<and> cf_CleanSession f) \<and> (v = 3 \<longrightarrow> length (cp_ClientID p) \<le> 23))"

lemma names_distinct: "ProtocolNameMQTT \<noteq> ProtocolNameMQIsdp"
  by (simp add: ProtocolNameMQTT_def ProtocolNameMQIsdp_def)

lemma SpecOf_rules:
  "sp_AllowEmptyID (fst (SpecOf v)) \<longleftrightarrow> v = 4 \<or> v = 5" "sp_MaxClientIDLen (fst (SpecOf v)) = (if v = 3 then 23 else 0)"
  by (simp_all add: SpecOf_def specV31_def specV311_def specV50_def zeroSpec_def)

lemma if_Some_None: "(if b then Some x else y) = None \<longleftrightarrow> \<not> b \<and> y = None"
  by simp


text \<open>
  C34. The handshake hands over a codec bound to the version the client declared: capability table
  and version agree with the CONNECT, and exactly that packet has been taken off the connection.
\<close>

theorem Handshake_binds_version:
  assumes "Handshake n s = (Inr info, t, c)"
  shows "codecWf c \<and> protocolVersion c = ci_Version info \<and> spec c = specFor (ci_Version info) \<and>
    (\<exists>body. s = encodeFixedHeader (cp_fh (ci_Extensions info)) @ body @ t \<and>
       length body = fh_RemainingLength (cp_fh (ci_Extensions info)))"
proof -
  from assms obtain q where d: "Decode (NewCodec n) s = (Inr (Connect q), t, c)" and i: "info = toConnectInfo q"
    by (auto simp: Handshake_def split: prod.splits sum.splits Packet.splits)
  note a = Decode_again [OF d codecWf_ops(1)]
  have "setVersion c (cp_ProtocolVersion q) = c" using a(3) by (simp add: versionBound_def)
  moreover have "protocolVersion (setVersion c (cp_ProtocolVersion q)) = cp_ProtocolVersion q"
    by (simp add: setVersion_wf [OF a(1)])
  ultimately have v: "protocolVersion c = cp_ProtocolVersion q" by simp
  with a(1) Decode_frame(5) [OF d] show ?thesis by (simp add: i toConnectInfo_def codecWf_def)
qed
definition exConnectBytes :: "byte list" where
  "exConnectBytes = [0x10, 0x18, 0, 4, 0x4D, 0x51, 0x54, 0x54, 5, 0x8E, 0, 0x3C, 0, 0, 1, 0x63, 0,
     0, 1, 0x77, 0, 1, 9, 0, 1, 0x75]"

theorem Handshake_binds_version_witness:
  "\<exists>info c. Handshake 0 exConnectBytes = (Inr info, [], c) \<and> spec c = specV50"
proof -
  have "case Handshake 0 exConnectBytes of (Inr info, t, c) \<Rightarrow> t = [] \<and> ci_Version info = 5 | _ \<Rightarrow> False"
    by code_simp
  then obtain info c where h: "Handshake 0 exConnectBytes = (Inr info, [], c)" "ci_Version info = 5"
    by (auto split: prod.splits sum.splits)
  have "specFor 5 = specV50" by code_simp
  with Handshake_binds_version [OF h(1)] h show ?thesis by auto
qed

end
