(* ===== verification/GoMap.thy ===== *)
theory GoMap
  imports Prelude "HOL-Library.List_Lexorder"
begin

text \<open>
  Go maps. A map is an association list with distinct keys, \<open>map_of\<close> is the index expression,
  \<open>AList.update\<close> the assignment and \<open>AList.delete\<close> the \<^verbatim>\<open>delete\<close> builtin; the order of the list
  stands for the order in which \<^verbatim>\<open>range\<close> happens to visit the keys, so a theorem on every list
  with distinct keys is a theorem on every iteration order. The lemmas give the distinctness,
  the contents and the size after each update, and sums over the values.
\<close>

type_synonym ('k, 'v) gomap = "('k \<times> 'v) list"

abbreviation mapOk :: "('k, 'v) gomap \<Rightarrow> bool" where
  "mapOk m \<equiv> distinct (map fst m)"

abbreviation mset_key :: "'k \<Rightarrow> 'v \<Rightarrow> ('k, 'v) gomap \<Rightarrow> ('k, 'v) gomap" where
  "mset_key \<equiv> AList.update"

abbreviation mdel_key :: "'k \<Rightarrow> ('k, 'v) gomap \<Rightarrow> ('k, 'v) gomap" where
  "mdel_key \<equiv> AList.delete"

text \<open>The sum of a measure of the values.\<close>

definition sumVals :: "('v \<Rightarrow> int) \<Rightarrow> ('k, 'v) gomap \<Rightarrow> int" where
  "sumVals f m = (\<Sum>x\<leftarrow>m. f (snd x))"

section \<open>Contents\<close>

declare AList.distinct_update [simp] AList.distinct_delete [simp]

lemma map_of_update [simp]: "map_of (mset_key k v m) = (map_of m)(k \<mapsto> v)"
  by (rule update_conv')

lemma map_of_delete [simp]: "map_of (mdel_key k m) = (map_of m)(k := None)"
  by (rule delete_conv')

lemma in_map: "mapOk m \<Longrightarrow> (k, v) \<in> set m \<longleftrightarrow> map_of m k = Some v"
  by (simp add: map_of_eq_Some_iff)

lemma update_new: "map_of m k = None \<Longrightarrow> mset_key k v m = m @ [(k, v)]"
  by (induction m) (auto split: if_splits)

lemma delete_none: "map_of m k = None \<Longrightarrow> mdel_key k m = m"
  by (auto simp: map_of_eq_None_iff intro: delete_id)

lemma map_split:
  assumes "mapOk m" "map_of m k = Some v"
  obtains a b where "m = a @ (k, v) # b" "map_of a k = None" "map_of b k = None"
    "\<And>v'. mset_key k v' m = a @ (k, v') # b" "mdel_key k m = a @ b"
proof -
  from assms(2) have "(k, v) \<in> set m" by (rule map_of_SomeD)
  then obtain a b where ab: "m = a @ (k, v) # b" by (auto simp: in_set_conv_decomp)
  with assms(1) have ka: "k \<notin> fst ` set a" and kb: "k \<notin> fst ` set b" by auto
  from ka have "mset_key k v' m = a @ (k, v') # b" for v'
    unfolding ab by (induction a) auto
  moreover from ka kb have "mdel_key k m = a @ b"
    unfolding ab by (induction a) (auto simp: delete_id)
  ultimately show thesis
    using that ab ka kb by (simp add: map_of_eq_None_iff)
qed

lemma update_empty [simp]: "mset_key k v m \<noteq> []"
  by (cases m) (auto split: if_splits)

lemma length_update: "length (mset_key k v m) = length m + (if map_of m k = None then 1 else 0)"
  by (induction m) auto

lemma length_delete: "mapOk m \<Longrightarrow> length m = length (mdel_key k m) + (if map_of m k = None then 0 else 1)"
proof (cases "map_of m k")
  case (Some v)
  assume ok: "mapOk m"
  from ok Some obtain a b where "m = a @ (k, v) # b" "mdel_key k m = a @ b" by (rule map_split)
  with Some show ?thesis by simp
qed (simp add: delete_none)

lemma set_update_key: "mapOk m \<Longrightarrow> set (mset_key k v m) = insert (k, v) {x \<in> set m. fst x \<noteq> k}"
  by (induction m) (auto simp: rev_image_eqI)

lemma set_delete_key: "set (mdel_key k m) = {x \<in> set m. fst x \<noteq> k}"
  by (induction m) auto

text \<open>A map whose values carry their own key.\<close>

definition keyedBy :: "('v \<Rightarrow> 'k) \<Rightarrow> ('k, 'v) gomap \<Rightarrow> bool" where
  "keyedBy f m \<longleftrightarrow> mapOk m \<and> (\<forall>(k, v) \<in> set m. f v = k)"

lemma keyedBy_Nil [simp]: "keyedBy f []"
  by (simp add: keyedBy_def)

lemma keyedBy_mapOk: "keyedBy f m \<Longrightarrow> mapOk m"
  by (simp add: keyedBy_def)

lemma keyedBy_update: "keyedBy f m \<Longrightarrow> f v = k \<Longrightarrow> keyedBy f (mset_key k v m)"
  by (auto simp: keyedBy_def set_update_key)

lemma keyedBy_delete: "keyedBy f m \<Longrightarrow> keyedBy f (mdel_key k m)"
  by (auto simp: keyedBy_def set_delete_key)

lemma keyedBy_lookup: "keyedBy f m \<Longrightarrow> map_of m k = Some v \<Longrightarrow> f v = k"
  by (auto simp: keyedBy_def dest: map_of_SomeD)

text \<open>Rebuilding a map from its values gives the map with its values converted.\<close>

lemma rebuild_keyed:
  assumes "keyedBy f m"
  shows "map_of (fold (\<lambda>v. mset_key (f v) (g v)) (map snd m) n) = map_of n ++ (map_option g \<circ> map_of m)"
  using assms
proof (induction m arbitrary: n)
  case (Cons a m)
  obtain k v where a: "a = (k, v)" by (cases a)
  with Cons.prems have k: "f v = k" "keyedBy f m" "map_of m k = None"
    by (auto simp: keyedBy_def map_of_eq_None_iff)
  have "map_of (fold (\<lambda>v. mset_key (f v) (g v)) (map snd (a # m)) n) =
      (map_of n)(k \<mapsto> g v) ++ (map_option g \<circ> map_of m)"
    using Cons.IH [OF k(2), of "mset_key k (g v) n"] a k(1) by (simp only: list.map fold_simps snd_conv map_of_update)
  also have "\<dots> = map_of n ++ (map_option g \<circ> map_of (a # m))"
    using k(3) a by (auto simp: map_add_def fun_eq_iff split: option.splits)
  finally show ?case .
qed (simp add: map_add_def)

section \<open>Sums over the values\<close>

lemma sumVals_simps [simp]: "sumVals f [] = 0" "sumVals f ((k, v) # m) = f v + sumVals f m"
  "sumVals f (a @ b) = sumVals f a + sumVals f b"
  by (simp_all add: sumVals_def)

lemma sumVals_update:
  assumes "mapOk m"
  shows "sumVals f (mset_key k v m) = sumVals f m + f v - (case map_of m k of None \<Rightarrow> 0 | Some w \<Rightarrow> f w)"
proof (cases "map_of m k")
  case (Some w)
  obtain a b where "m = a @ (k, w) # b" "mset_key k v m = a @ (k, v) # b"
    using map_split [OF assms Some] by metis
  with Some show ?thesis by simp
qed (simp add: update_new)

lemma sumVals_delete:
  assumes "mapOk m"
  shows "sumVals f (mdel_key k m) = sumVals f m - (case map_of m k of None \<Rightarrow> 0 | Some w \<Rightarrow> f w)"
proof (cases "map_of m k")
  case (Some w)
  from assms Some obtain a b where "m = a @ (k, w) # b" "mdel_key k m = a @ b" by (rule map_split)
  with Some show ?thesis by simp
qed (simp add: delete_none)

end
