(* ===== verification/TopicTree.thy ===== *)
theory TopicTree
  imports Topic GoMap
begin

text \<open>
  The subscription index of the broker, \<^verbatim>\<open>src/broker/topic_tree.go\<close>: a trie over topic levels
  holding one \<open>clientID \<Rightarrow> QoS\<close> map per filter, and a separate table of shared subscriptions with
  a round-robin cursor per share group. This theory holds the definitions and the lemmas on the
  trie: every operation keeps the trie well formed and pruned, has the effect of one map update
  on the table of subscriptions the trie stands for, and moves the subscription counter by the
  number of entries that appear or disappear.
\<close>

section \<open>Data\<close>

datatype TopicNode = TopicNode (children: "(level, TopicNode) gomap") (subscribers: "(gostring, byte) gomap")

record TopicTree =
  root :: TopicNode
  totalSubs :: int
  sharedSubs :: "(gostring, (gostring, (gostring, byte) gomap) gomap) gomap"
  sharedLast :: "(gostring, gostring) gomap"

record Subscriber =
  sb_ClientID :: gostring
  sb_QoS :: byte

record SharedSubscriber =
  ss_ClientID :: gostring
  ss_QoS :: byte
  ss_ShareName :: gostring

record TopicFilterStat =
  tf_Filter :: gostring
  tf_Shared :: bool
  tf_Group :: gostring
  tf_Subscribers :: "(gostring, byte) gomap"

abbreviation "emptyNode \<equiv> TopicNode [] []"

lemma size_child [simp]: "(p, c) \<in> set ch \<Longrightarrow> size c < Suc (size_list (size_prod (\<lambda>x. 0) size) ch)"
  by (induction ch) auto

definition NewTopicTree :: TopicTree where
  "NewTopicTree = \<lparr> root = emptyNode, totalSubs = 0, sharedSubs = [], sharedLast = [] \<rparr>"

section \<open>Subscribing\<close>

text \<open>
  The recursion of the sources indexes the levels with \<open>depth\<close>; here the levels still to walk
  are the argument. The counter is threaded through, as the code updates it at the end node.
\<close>

fun subscribeNode :: "TopicNode \<Rightarrow> level list \<Rightarrow> gostring \<Rightarrow> byte \<Rightarrow> int \<Rightarrow> TopicNode \<times> int" where
  "subscribeNode (TopicNode ch ss) [] clientID qos n =
     (TopicNode ch (mset_key clientID qos ss), if map_of ss clientID = None then n + 1 else n)"
| "subscribeNode (TopicNode ch ss) (part # parts) clientID qos n =
     (let child = (case map_of ch part of None \<Rightarrow> emptyNode | Some c \<Rightarrow> c);
          (child', n') = subscribeNode child parts clientID qos n
      in (TopicNode (mset_key part child' ch) ss, n'))"

definition Subscribe :: "gostring \<Rightarrow> gostring \<Rightarrow> byte \<Rightarrow> TopicTree \<Rightarrow> bool \<times> TopicTree" where
  "Subscribe topic clientID qos tt =
     (if \<not> ValidateTopicFilter topic then (False, tt)
      else let (r, n) = subscribeNode (root tt) (SplitTopic topic) clientID qos (totalSubs tt)
           in (True, tt\<lparr>root := r, totalSubs := n\<rparr>))"

definition SubscribeSystem :: "gostring \<Rightarrow> gostring \<Rightarrow> byte \<Rightarrow> TopicTree \<Rightarrow> bool \<times> TopicTree" where
  "SubscribeSystem topic clientID qos tt =
     (if \<not> ValidateTopicFilter topic then (False, tt)
      else let (r, n) = subscribeNode (root tt) (SplitTopic topic) clientID qos (totalSubs tt)
           in (True, tt\<lparr>root := r, totalSubs := n\<rparr>))"

text \<open>The boolean result tells the parent that the node may be unlinked.\<close>

fun unsubscribeNode :: "TopicNode \<Rightarrow> level list \<Rightarrow> gostring \<Rightarrow> int \<Rightarrow> bool \<times> TopicNode \<times> int" where
  "unsubscribeNode (TopicNode ch ss) [] clientID n =
     (let ss' = mdel_key clientID ss
      in (ss' = [] \<and> ch = [], TopicNode ch ss', if map_of ss clientID \<noteq> None then n - 1 else n))"
| "unsubscribeNode (TopicNode ch ss) (part # parts) clientID n =
     (case map_of ch part of
        None \<Rightarrow> (False, TopicNode ch ss, n)
      | Some child \<Rightarrow>
          (case unsubscribeNode child parts clientID n of (prune, child', n') \<Rightarrow>
             let ch' = (if prune then mdel_key part ch else mset_key part child' ch)
             in (ss = [] \<and> ch' = [], TopicNode ch' ss, n')))"

definition Unsubscribe :: "gostring \<Rightarrow> gostring \<Rightarrow> TopicTree \<Rightarrow> TopicTree" where
  "Unsubscribe topic clientID tt =
     (case unsubscribeNode (root tt) (SplitTopic topic) clientID (totalSubs tt) of
        (_, r, n) \<Rightarrow> tt\<lparr>root := r, totalSubs := n\<rparr>)"

definition SubscriberCount :: "TopicTree \<Rightarrow> int" where
  "SubscriberCount tt = totalSubs tt"

section \<open>Matching\<close>

type_synonym matchAcc = "Subscriber list \<times> (gostring, byte) gomap"

text \<open>The inner loop of \<open>addSubscriber\<close>: raise the QoS of the first entry of the client.\<close>

fun raiseQoS :: "gostring \<Rightarrow> byte \<Rightarrow> Subscriber list \<Rightarrow> Subscriber list" where
  "raiseQoS clientID qos [] = []"
| "raiseQoS clientID qos (s # ss) =
     (if sb_ClientID s = clientID then s\<lparr>sb_QoS := qos\<rparr> # ss else s # raiseQoS clientID qos ss)"

definition addSubscriber :: "gostring \<times> byte \<Rightarrow> matchAcc \<Rightarrow> matchAcc" where
  "addSubscriber cq acc = (case cq of (clientID, qos) \<Rightarrow> case acc of (results, visited) \<Rightarrow>
     (case map_of visited clientID of
        None \<Rightarrow> (results @ [\<lparr>sb_ClientID = clientID, sb_QoS = qos\<rparr>], mset_key clientID qos visited)
      | Some old \<Rightarrow> if old < qos then (raiseQoS clientID qos results, mset_key clientID qos visited)
                    else (results, visited)))"

function collectAllSubscribers :: "TopicNode \<Rightarrow> matchAcc \<Rightarrow> matchAcc" where
  "collectAllSubscribers (TopicNode ch ss) acc =
     fold (\<lambda>pc. collectAllSubscribers (snd pc)) ch (fold addSubscriber ss acc)"
  by pat_completeness auto
termination by (relation "measure (size \<circ> fst)") auto

definition startsWithDollar :: "level \<Rightarrow> bool" where
  "startsWithDollar part = (case part of [] \<Rightarrow> False | b # _ \<Rightarrow> b = 0x24)"

fun matchNodeWithSys :: "TopicNode \<Rightarrow> level list \<Rightarrow> nat \<Rightarrow> bool \<Rightarrow> bool \<Rightarrow> matchAcc \<Rightarrow> matchAcc" where
  "matchNodeWithSys (TopicNode ch ss) parts depth isSystemTopic wildcardsAllowed acc =
     (let acc1 = fold addSubscriber ss acc;
          acc2 = (if wildcardsAllowed
                  then (case map_of ch [hashc] of Some h \<Rightarrow> collectAllSubscribers h acc1 | None \<Rightarrow> acc1)
                  else acc1)
      in case parts of
           [] \<Rightarrow> acc2
         | part # rest \<Rightarrow>
             (let acc3 = (case map_of ch part of
                   Some child \<Rightarrow> matchNodeWithSys child rest (depth + 1) isSystemTopic
                     (wildcardsAllowed \<or> (isSystemTopic \<and> depth = 0 \<and> startsWithDollar part)) acc2
                 | None \<Rightarrow> acc2)
              in if wildcardsAllowed
                 then (case map_of ch [plusc] of
                     Some child \<Rightarrow> matchNodeWithSys child rest (depth + 1) isSystemTopic True acc3
                   | None \<Rightarrow> acc3)
                 else acc3))"

definition isSystem :: "level list \<Rightarrow> bool" where
  "isSystem parts = (case parts of [] \<Rightarrow> False | part # _ \<Rightarrow> startsWithDollar part)"

definition Match :: "gostring \<Rightarrow> TopicTree \<Rightarrow> Subscriber list" where
  "Match topic tt =
     (let parts = SplitTopic topic; sys = isSystem parts
      in fst (matchNodeWithSys (root tt) parts 0 sys (\<not> sys) ([], [])))"

section \<open>Shared subscriptions\<close>

definition sharedSubPrefix :: gostring where
  "sharedSubPrefix = [0x24, 0x73, 0x68, 0x61, 0x72, 0x65, 0x2F]"

definition IsSharedSubscription :: "gostring \<Rightarrow> bool" where
  "IsSharedSubscription flt =
     (length sharedSubPrefix < length flt \<and> take (length sharedSubPrefix) flt = sharedSubPrefix)"

text \<open>\<^verbatim>\<open>strings.IndexByte\<close>.\<close>

fun IndexByte :: "gostring \<Rightarrow> byte \<Rightarrow> nat option" where
  "IndexByte [] b = None"
| "IndexByte (x # s) b = (if x = b then Some 0 else map_option Suc (IndexByte s b))"

definition ParseSharedFilter :: "gostring \<Rightarrow> (gostring \<times> gostring) option" where
  "ParseSharedFilter flt =
     (if \<not> IsSharedSubscription flt then None
      else let rest = drop (length sharedSubPrefix) flt
           in case IndexByte rest slashc of
                None \<Rightarrow> None
              | Some i \<Rightarrow> if i \<le> 0 \<or> length rest - 1 \<le> i then None
                          else Some (take i rest, drop (i + 1) rest))"

definition splitSharedFilter :: "gostring \<Rightarrow> gostring \<times> gostring \<times> bool" where
  "splitSharedFilter flt =
     (if \<not> IsSharedSubscription flt then (flt, [], False)
      else let rest = drop (length sharedSubPrefix) flt
           in case IndexByte rest slashc of
                Some i \<Rightarrow> (drop (i + 1) rest, take i rest, True)
              | None \<Rightarrow> (rest, [], True))"

text \<open>A Go map read with a missing key yields the nil map, which has no entries.\<close>

definition lookupMap :: "('k, ('a, 'b) gomap) gomap \<Rightarrow> 'k \<Rightarrow> ('a, 'b) gomap" where
  "lookupMap m k = (case map_of m k of None \<Rightarrow> [] | Some x \<Rightarrow> x)"

definition SubscribeShared :: "gostring \<Rightarrow> gostring \<Rightarrow> gostring \<Rightarrow> byte \<Rightarrow> TopicTree \<Rightarrow> TopicTree" where
  "SubscribeShared shareName topicFilter clientID qos tt =
     (let filters = lookupMap (sharedSubs tt) shareName;
          clients = lookupMap filters topicFilter;
          n = (if map_of clients clientID = None then totalSubs tt + 1 else totalSubs tt)
      in tt\<lparr>totalSubs := n,
            sharedSubs := mset_key shareName (mset_key topicFilter (mset_key clientID qos clients) filters)
              (sharedSubs tt)\<rparr>)"

definition UnsubscribeShared :: "gostring \<Rightarrow> gostring \<Rightarrow> gostring \<Rightarrow> TopicTree \<Rightarrow> TopicTree" where
  "UnsubscribeShared shareName topicFilter clientID tt =
     (case map_of (sharedSubs tt) shareName of
        None \<Rightarrow> tt
      | Some filters \<Rightarrow>
     (case map_of filters topicFilter of
        None \<Rightarrow> tt
      | Some clients \<Rightarrow>
          (let n = (if map_of clients clientID \<noteq> None then totalSubs tt - 1 else totalSubs tt);
               clients' = mdel_key clientID clients;
               filters' = (if clients' = [] then mdel_key topicFilter filters
                           else mset_key topicFilter clients' filters)
           in if filters' = []
              then tt\<lparr>totalSubs := n, sharedSubs := mdel_key shareName (sharedSubs tt),
                      sharedLast := mdel_key shareName (sharedLast tt)\<rparr>
              else tt\<lparr>totalSubs := n, sharedSubs := mset_key shareName filters' (sharedSubs tt)\<rparr>)))"

definition matchSysProtected :: "gostring \<Rightarrow> gostring \<Rightarrow> bool" where
  "matchSysProtected pattern topic =
     (if startsWithDollar topic \<and>
         (let firstLevel = (case IndexByte pattern slashc of Some i \<Rightarrow> take i pattern | None \<Rightarrow> pattern)
          in firstLevel = [hashc] \<or> firstLevel = [plusc])
      then False else MatchTopic pattern topic)"

text \<open>\<^verbatim>\<open>sort.Search\<close>: binary search for the first index in \<open>[i, j)\<close> at which \<open>f\<close> holds.\<close>

function sortSearch :: "(nat \<Rightarrow> bool) \<Rightarrow> nat \<Rightarrow> nat \<Rightarrow> nat" where
  "sortSearch f i j =
     (if i < j then (let h = (i + j) div 2 in if \<not> f h then sortSearch f (h + 1) j else sortSearch f i h)
      else i)"
  by pat_completeness auto
termination by (relation "measure (\<lambda>(f, i, j). j - i)") auto

declare sortSearch.simps [simp del]

text \<open>
  The members of a group with a filter matching the topic, each with its highest QoS, in
  ClientID order. The dedup loop of the sources is the one of \<open>addSubscriber\<close>.
\<close>

definition groupMembers :: "(gostring, (gostring, byte) gomap) gomap \<Rightarrow> gostring \<Rightarrow> Subscriber list" where
  "groupMembers filters topic =
     (let matchingFilters = filter (\<lambda>f. matchSysProtected f topic) (map fst filters)
      in sort_key sb_ClientID
           (fst (fold (\<lambda>f. fold addSubscriber (lookupMap filters f)) matchingFilters ([], []))))"

definition onlineMembers :: "(gostring \<Rightarrow> bool) option \<Rightarrow> Subscriber list \<Rightarrow> Subscriber list" where
  "onlineMembers isOnline members =
     (case isOnline of None \<Rightarrow> members | Some f \<Rightarrow> filter (\<lambda>m. f (sb_ClientID m)) members)"

definition nextMember :: "Subscriber list \<Rightarrow> gostring \<Rightarrow> gostring" where
  "nextMember members lastSel =
     (let sel = sb_ClientID (members ! 0);
          i = sortSearch (\<lambda>i. lastSel \<le> sb_ClientID (members ! i)) 0 (length members)
      in if lastSel \<noteq> [] \<and> i < length members \<and> sb_ClientID (members ! i) = lastSel
         then sb_ClientID (members ! ((i + 1) mod length members)) else sel)"

fun memberQoS :: "Subscriber list \<Rightarrow> gostring \<Rightarrow> byte" where
  "memberQoS [] sel = 0"
| "memberQoS (m # ms) sel = (if sb_ClientID m = sel then sb_QoS m else memberQoS ms sel)"

text \<open>One turn of the loop over the groups; the state is the results and the cursors.\<close>

definition matchGroup ::
  "gostring \<Rightarrow> (gostring \<Rightarrow> bool) option \<Rightarrow> gostring \<times> (gostring, (gostring, byte) gomap) gomap \<Rightarrow>
   SharedSubscriber list \<times> (gostring, gostring) gomap \<Rightarrow> SharedSubscriber list \<times> (gostring, gostring) gomap" where
  "matchGroup topic isOnline grp st = (case grp of (shareName, filters) \<Rightarrow> case st of (results, cursors) \<Rightarrow>
     (let members = onlineMembers isOnline (groupMembers filters topic)
      in if members = [] then (results, cursors)
         else let lastSel = (case map_of cursors shareName of None \<Rightarrow> [] | Some l \<Rightarrow> l);
                  sel = nextMember members lastSel
              in (results @ [\<lparr>ss_ClientID = sel, ss_QoS = memberQoS members sel, ss_ShareName = shareName\<rparr>],
                  mset_key shareName sel cursors)))"

definition matchShared :: "gostring \<Rightarrow> (gostring \<Rightarrow> bool) option \<Rightarrow> TopicTree \<Rightarrow> SharedSubscriber list \<times> TopicTree" where
  "matchShared topic isOnline tt =
     (case fold (matchGroup topic isOnline) (sharedSubs tt) ([], sharedLast tt) of
        (results, cursors) \<Rightarrow> (results, tt\<lparr>sharedLast := cursors\<rparr>))"

definition MatchShared :: "gostring \<Rightarrow> TopicTree \<Rightarrow> SharedSubscriber list \<times> TopicTree" where
  "MatchShared topic = matchShared topic None"

definition MatchSharedOnline :: "gostring \<Rightarrow> (gostring \<Rightarrow> bool) \<Rightarrow> TopicTree \<Rightarrow> SharedSubscriber list \<times> TopicTree" where
  "MatchSharedOnline topic isOnline = matchShared topic (Some isOnline)"

section \<open>The listing of the management endpoint\<close>

function walk :: "TopicNode \<Rightarrow> gostring \<Rightarrow> TopicFilterStat list" where
  "walk (TopicNode ch ss) prefix =
     (if ss \<noteq> [] then
        (case splitSharedFilter prefix of (flt, grp, shared) \<Rightarrow>
           [\<lparr>tf_Filter = flt, tf_Shared = shared, tf_Group = grp, tf_Subscribers = ss\<rparr>])
      else []) @
     concat (map (\<lambda>pc. walk (snd pc) (if prefix = [] then fst pc else prefix @ slashc # fst pc)) ch)"
  by pat_completeness auto
termination by (relation "measure (size \<circ> fst)") auto

definition sharedStats :: "TopicTree \<Rightarrow> TopicFilterStat list" where
  "sharedStats tt = concat (map (\<lambda>(grp, filters).
     map (\<lambda>(flt, clients). \<lparr>tf_Filter = flt, tf_Shared = True, tf_Group = grp, tf_Subscribers = clients\<rparr>) filters)
     (sharedSubs tt))"

definition Stats :: "TopicTree \<Rightarrow> TopicFilterStat list" where
  "Stats tt = walk (root tt) [] @ sharedStats tt"

section \<open>The table a trie stands for\<close>

text \<open>The subscriptions held for one filter, as a map from clients to QoS.\<close>

fun entries :: "TopicNode \<Rightarrow> level list \<Rightarrow> gostring \<rightharpoonup> byte" where
  "entries (TopicNode ch ss) [] = map_of ss"
| "entries (TopicNode ch ss) (part # parts) =
     (case map_of ch part of None \<Rightarrow> Map.empty | Some child \<Rightarrow> entries child parts)"

text \<open>Keys are distinct, and no node but the root is without both subscribers and children.\<close>

function wfNode :: "TopicNode \<Rightarrow> bool" where
  "wfNode (TopicNode ch ss) \<longleftrightarrow> mapOk ch \<and> mapOk ss \<and>
     list_all (\<lambda>pc. wfNode (snd pc) \<and> snd pc \<noteq> emptyNode) ch"
  by pat_completeness auto
termination by (relation "measure size") auto

lemma wfNode_child: "wfNode (TopicNode ch ss) \<Longrightarrow> map_of ch p = Some c \<Longrightarrow> wfNode c \<and> c \<noteq> emptyNode"
  by (auto simp: list_all_iff dest: map_of_SomeD)

lemma list_all_update:
  "list_all (P \<circ> snd) m \<Longrightarrow> P v \<Longrightarrow> list_all (P \<circ> snd) (mset_key k v m)"
  by (induction m) auto

lemma list_all_delete: "list_all P m \<Longrightarrow> list_all P (mdel_key k m)"
  by (auto simp: list_all_iff AList.delete_eq)

lemma wfNode_update:
  "wfNode (TopicNode ch ss) \<Longrightarrow> wfNode c \<Longrightarrow> c \<noteq> emptyNode \<Longrightarrow> wfNode (TopicNode (mset_key p c ch) ss)"
  using list_all_update [of "\<lambda>c. wfNode c \<and> c \<noteq> emptyNode" ch c p] by (simp add: comp_def)

lemma wfNode_delete: "wfNode (TopicNode ch ss) \<Longrightarrow> wfNode (TopicNode (mdel_key p ch) ss)"
  by (simp add: list_all_delete)

subsection \<open>Subscribing\<close>

abbreviation childOf :: "(level, TopicNode) gomap \<Rightarrow> level \<Rightarrow> TopicNode" where
  "childOf ch p \<equiv> (case map_of ch p of None \<Rightarrow> emptyNode | Some c \<Rightarrow> c)"

lemma entries_empty [simp]: "entries emptyNode parts = Map.empty"
  by (cases parts) auto

lemma entries_childOf: "entries (TopicNode ch ss) (p # ps) = entries (childOf ch p) ps"
  by (simp split: option.split)

lemma wfNode_childOf:
  assumes "wfNode (TopicNode ch ss)"
  shows "wfNode (childOf ch p)"
proof (cases "map_of ch p")
  case (Some c)
  with wfNode_child [OF assms Some] show ?thesis by simp
qed simp

lemma subscribeNode_wf:
  "wfNode node \<Longrightarrow> wfNode (fst (subscribeNode node parts cid qos n)) \<and> fst (subscribeNode node parts cid qos n) \<noteq> emptyNode"
proof (induction node parts cid qos n rule: subscribeNode.induct)
  case (2 ch ss part parts cid qos n)
  obtain child' n' where c: "subscribeNode (childOf ch part) parts cid qos n = (child', n')" by fastforce
  with 2 wfNode_childOf [of ch ss part] have "wfNode child'" "child' \<noteq> emptyNode" by simp_all
  then have "wfNode (TopicNode (mset_key part child' ch) ss)" by (rule wfNode_update [OF "2.prems"])
  then show ?case by (simp add: c)
qed simp

lemma subscribeNode_entries:
  "entries (fst (subscribeNode node parts cid qos n)) = (entries node)(parts := (entries node parts)(cid \<mapsto> qos))"
proof (induction node parts cid qos n rule: subscribeNode.induct)
  case (1 ch ss cid qos n)
  have "entries (TopicNode ch (mset_key cid qos ss)) q = ((entries (TopicNode ch ss))([] := (map_of ss)(cid \<mapsto> qos))) q" for q
    by (cases q) auto
  then show ?case by (simp add: fun_eq_iff)
next
  case (2 ch ss part parts cid qos n)
  obtain child' n' where c: "subscribeNode (childOf ch part) parts cid qos n = (child', n')" by fastforce
  have e: "entries child' = (entries (childOf ch part))(parts := (entries (childOf ch part) parts)(cid \<mapsto> qos))"
    using "2.IH" [OF refl] by (simp add: c del: fun_upd_apply)
  have "entries (TopicNode (mset_key part child' ch) ss) q =
    ((entries (TopicNode ch ss))(part # parts := (entries (TopicNode ch ss) (part # parts))(cid \<mapsto> qos))) q" for q
    using e by (cases q) (auto simp: fun_eq_iff split: option.splits)
  then show ?case by (simp add: c fun_eq_iff)
qed

lemma subscribeNode_count:
  "snd (subscribeNode node parts cid qos n) = n + (if entries node parts cid = None then 1 else 0)"
proof (induction node parts cid qos n rule: subscribeNode.induct)
  case (2 ch ss part parts cid qos n)
  obtain child' n' where c: "subscribeNode (childOf ch part) parts cid qos n = (child', n')" by fastforce
  from "2.IH" [OF refl] show ?case by (simp add: c entries_childOf del: entries.simps(2))
qed simp

subsection \<open>Unsubscribing\<close>

lemma unsubscribeNode_prune:
  "unsubscribeNode node parts cid n = (prune, node', n') \<Longrightarrow> prune \<Longrightarrow> node' = emptyNode"
  by (cases node; cases parts) (auto simp: Let_def split: option.splits prod.splits)

lemma unsubscribeNode_keep:
  "wfNode node \<Longrightarrow> node \<noteq> emptyNode \<Longrightarrow> unsubscribeNode node parts cid n = (prune, node', n') \<Longrightarrow>
   \<not> prune \<Longrightarrow> node' \<noteq> emptyNode"
  by (cases node; cases parts) (auto simp: Let_def split: option.splits prod.splits if_splits)

lemma unsubscribeNode_wf:
  "wfNode node \<Longrightarrow> unsubscribeNode node parts cid n = (prune, node', n') \<Longrightarrow> wfNode node'"
proof (induction node parts cid n arbitrary: prune node' n' rule: unsubscribeNode.induct)
  case (2 ch ss part parts cid n)
  show ?case
  proof (cases "map_of ch part")
    case (Some child)
    obtain pr child' m where c: "unsubscribeNode child parts cid n = (pr, child', m)"
      by (metis prod_cases3)
    have w: "wfNode child" "child \<noteq> emptyNode" using wfNode_child [OF "2.prems"(1) Some] by auto
    have "wfNode child'" by (rule "2.IH" [OF Some w(1) c])
    moreover have "\<not> pr \<Longrightarrow> child' \<noteq> emptyNode" by (rule unsubscribeNode_keep [OF w c])
    ultimately have "wfNode (TopicNode (if pr then mdel_key part ch else mset_key part child' ch) ss)"
      using wfNode_delete [OF "2.prems"(1)] wfNode_update [OF "2.prems"(1)] by auto
    with "2.prems"(2) Some c show ?thesis by (auto simp: Let_def)
  qed (use "2.prems" in auto)
qed (auto simp: Let_def)

lemma unsubscribeNode_entries:
  "wfNode node \<Longrightarrow> unsubscribeNode node parts cid n = (prune, node', n') \<Longrightarrow>
   entries node' = (entries node)(parts := (entries node parts)(cid := None))"
proof (induction node parts cid n arbitrary: prune node' n' rule: unsubscribeNode.induct)
  case (1 ch ss cid n)
  have "entries (TopicNode ch (mdel_key cid ss)) q = ((entries (TopicNode ch ss))([] := (map_of ss)(cid := None))) q" for q
    by (cases q) auto
  with 1 show ?case by (auto simp: Let_def fun_eq_iff)
next
  case (2 ch ss part parts cid n)
  show ?case
  proof (cases "map_of ch part")
    case None
    with "2.prems"(2) have "node' = TopicNode ch ss" by simp
    moreover have "(entries (TopicNode ch ss) (part # parts))(cid := None) = entries (TopicNode ch ss) (part # parts)"
      by (auto simp: None)
    ultimately show ?thesis by (simp only: fun_upd_triv)
  next
    case (Some child)
    obtain pr child' m where c: "unsubscribeNode child parts cid n = (pr, child', m)"
      by (metis prod_cases3)
    have w: "wfNode child" using wfNode_child [OF "2.prems"(1) Some] by simp
    have e: "entries child' = (entries child)(parts := (entries child parts)(cid := None))"
      by (rule "2.IH" [OF Some w c])
    have "entries (TopicNode (if pr then mdel_key part ch else mset_key part child' ch) ss) (p # q) =
      entries (TopicNode (mset_key part child' ch) ss) (p # q)" for p q
      using unsubscribeNode_prune [OF c] by simp
    then have "entries (TopicNode (if pr then mdel_key part ch else mset_key part child' ch) ss) q =
      ((entries (TopicNode ch ss))(part # parts := (entries (TopicNode ch ss) (part # parts))(cid := None))) q" for q
      using e Some by (cases q) (auto simp del: if_split)
    with "2.prems"(2) Some c show ?thesis by (auto simp: Let_def fun_eq_iff)
  qed
qed

lemma unsubscribeNode_count:
  "unsubscribeNode node parts cid n = (prune, node', n') \<Longrightarrow>
   n' = n - (if entries node parts cid = None then 0 else 1)"
proof (induction node parts cid n arbitrary: prune node' n' rule: unsubscribeNode.induct)
  case (2 ch ss part parts cid n)
  show ?case
  proof (cases "map_of ch part")
    case (Some child)
    obtain pr child' m where c: "unsubscribeNode child parts cid n = (pr, child', m)"
      by (metis prod_cases3)
    from "2.IH" [OF Some c] "2.prems" Some c show ?thesis by (simp add: Let_def)
  qed (use "2.prems" in auto)
qed (auto simp: Let_def)

end
