(* ===== verification/TopicTreeMatch.thy ===== *)
theory TopicTreeMatch
  imports TopicTree
begin

text \<open>
  What \<open>Match\<close> returns, for every iteration order of the Go maps: each matching client once,
  with the highest QoS of its matching subscriptions. The walk is first shown to visit a list of
  subscriptions, then that list to be the subscriptions whose filter the walk reaches, and the
  reached filters are compared with the matching relation of the MQTT specification.
\<close>

declare wfNode.simps [simp del]

lemma wfNode_maps: "wfNode (TopicNode ch ss) \<Longrightarrow> mapOk ch \<and> mapOk ss"
  by (simp add: wfNode.simps)

section \<open>Deduplication\<close>

definition asMap :: "Subscriber list \<Rightarrow> gostring \<rightharpoonup> byte" where
  "asMap rs = map_of (map (\<lambda>s. (sb_ClientID s, sb_QoS s)) rs)"

text \<open>The best QoS on offer for a client.\<close>

definition bestOf :: "(gostring \<times> byte) set \<Rightarrow> gostring \<Rightarrow> byte \<Rightarrow> bool" where
  "bestOf offers c q \<longleftrightarrow> (c, q) \<in> offers \<and> (\<forall>q'. (c, q') \<in> offers \<longrightarrow> q' \<le> q)"

lemma asMap_simps [simp]: "asMap [] = Map.empty" "asMap (s # rs) = (asMap rs)(sb_ClientID s \<mapsto> sb_QoS s)"
  by (simp_all add: asMap_def)

lemma asMap_None: "asMap rs c = None \<longleftrightarrow> c \<notin> sb_ClientID ` set rs"
  by (induction rs) auto

lemma asMap_snoc: "asMap rs (sb_ClientID s) = None \<Longrightarrow> asMap (rs @ [s]) = (asMap rs)(sb_ClientID s \<mapsto> sb_QoS s)"
  by (induction rs) (auto simp: fun_eq_iff split: if_splits)

lemma raiseQoS_ids [simp]: "map sb_ClientID (raiseQoS c q rs) = map sb_ClientID rs"
  by (induction rs) auto

lemma raiseQoS_asMap: "asMap rs c \<noteq> None \<Longrightarrow> asMap (raiseQoS c q rs) = (asMap rs)(c \<mapsto> q)"
  by (induction rs) (auto simp: fun_eq_iff split: if_splits)

lemma in_asMap: "distinct (map sb_ClientID rs) \<Longrightarrow> s \<in> set rs \<longleftrightarrow> asMap rs (sb_ClientID s) = Some (sb_QoS s)"
proof (induction rs)
  case (Cons r rs)
  have "sb_ClientID r \<notin> sb_ClientID ` set rs" using Cons.prems by simp
  then have "s \<in> set rs \<Longrightarrow> sb_ClientID s \<noteq> sb_ClientID r" by (metis imageI)
  moreover have "sb_ClientID s = sb_ClientID r \<Longrightarrow> sb_QoS s = sb_QoS r \<Longrightarrow> s = r" by (cases s; cases r) simp
  ultimately show ?case using Cons by (cases "sb_ClientID s = sb_ClientID r") auto
qed simp

lemma bestOf_exists:
  assumes "(c, q) \<in> S"
  obtains q' where "bestOf S c q'" "q \<le> q'"
proof -
  let ?Q = "{q'. (c, q') \<in> S}"
  have Q: "finite ?Q" "q \<in> ?Q" using assms by (auto intro: finite)
  then have "bestOf S c (Max ?Q)" using Max_in [OF Q(1)] by (auto simp: bestOf_def)
  then show thesis using Max_ge [OF Q] by (rule that)
qed

text \<open>The state of the loop after the offers in \<open>S\<close>.\<close>

definition accOk :: "(gostring \<times> byte) set \<Rightarrow> matchAcc \<Rightarrow> bool" where
  "accOk S acc \<longleftrightarrow> distinct (map sb_ClientID (fst acc)) \<and> map_of (snd acc) = asMap (fst acc) \<and>
     (\<forall>c. case asMap (fst acc) c of None \<Rightarrow> \<forall>q. (c, q) \<notin> S | Some q \<Rightarrow> bestOf S c q)"

lemma bestOf_other: "d \<noteq> c \<Longrightarrow> bestOf (insert (c, q) S) d p \<longleftrightarrow> bestOf S d p"
  by (auto simp: bestOf_def)

lemma accOk_empty [simp]: "accOk {} ([], [])"
  by (simp add: accOk_def)

lemma accOk_add:
  assumes "accOk S acc"
  shows "accOk (insert x S) (addSubscriber x acc)"
proof -
  obtain c q where x: "x = (c, q)" by fastforce
  obtain rs vis where acc: "acc = (rs, vis)" by fastforce
  have ok: "distinct (map sb_ClientID rs)" "map_of vis = asMap rs"
    and best: "case asMap rs d of None \<Rightarrow> \<forall>q. (d, q) \<notin> S | Some q \<Rightarrow> bestOf S d q" for d
    using assms by (auto simp: accOk_def acc)
  have others: "d \<noteq> c \<Longrightarrow> case asMap rs d of None \<Rightarrow> \<forall>q'. (d, q') \<notin> insert (c, q) S | Some q' \<Rightarrow> bestOf (insert (c, q) S) d q'" for d
    using best [of d] by (auto simp: bestOf_other split: option.splits)
  have step: "accOk (insert (c, q) S) (rs', vis')"
    if "distinct (map sb_ClientID rs')" "map_of vis' = asMap rs'" "asMap rs' = (asMap rs)(c \<mapsto> p)"
      "bestOf (insert (c, q) S) c p" for rs' vis' p
    using that others by (simp add: accOk_def split: option.split)
  show ?thesis
  proof (cases "asMap rs c")
    case None
    have "bestOf (insert (c, q) S) c q" using best [of c] None by (auto simp: bestOf_def)
    with None ok show ?thesis
      unfolding acc x by (auto simp: addSubscriber_def asMap_snoc asMap_None [symmetric] intro!: step)
  next
    case (Some old)
    have b: "bestOf S c old" using best [of c] Some by simp
    show ?thesis
    proof (cases "old < q")
      case True
      have "bestOf (insert (c, q) S) c q" using b True by (auto simp: bestOf_def intro: order_trans less_imp_le)
      with Some True ok show ?thesis
        unfolding acc x by (auto simp: addSubscriber_def raiseQoS_asMap intro!: step)
    next
      case False
      have "bestOf (insert (c, q) S) c old" using b False by (auto simp: bestOf_def)
      with Some False ok show ?thesis
        unfolding acc x by (auto simp: addSubscriber_def intro!: step)
    qed
  qed
qed

lemma accOk_fold: "accOk S acc \<Longrightarrow> accOk (S \<union> set xs) (fold addSubscriber xs acc)"
proof (induction xs arbitrary: S acc)
  case (Cons x xs)
  from Cons.IH [OF accOk_add [OF Cons.prems, of x]] show ?case by simp
qed simp

lemma accOk_result:
  assumes "accOk S (rs, vis)"
  shows "distinct (map sb_ClientID rs)" "s \<in> set rs \<longleftrightarrow> bestOf S (sb_ClientID s) (sb_QoS s)"
proof -
  show d: "distinct (map sb_ClientID rs)" using assms by (simp add: accOk_def)
  have "case asMap rs (sb_ClientID s) of None \<Rightarrow> \<forall>q. (sb_ClientID s, q) \<notin> S | Some q \<Rightarrow> bestOf S (sb_ClientID s) q"
    using assms by (simp add: accOk_def)
  then show "s \<in> set rs \<longleftrightarrow> bestOf S (sb_ClientID s) (sb_QoS s)"
    unfolding in_asMap [OF d] by (auto simp: bestOf_def split: option.splits intro: order_antisym)
qed

section \<open>The subscriptions a walk visits\<close>

function allSubs :: "TopicNode \<Rightarrow> (gostring \<times> byte) list" where
  "allSubs (TopicNode ch ss) = ss @ concat (map (\<lambda>pc. allSubs (snd pc)) ch)"
  by pat_completeness auto
termination by (relation "measure size") auto

fun visits :: "TopicNode \<Rightarrow> level list \<Rightarrow> bool \<Rightarrow> bool \<Rightarrow> (gostring \<times> byte) list" where
  "visits (TopicNode ch ss) parts first wild =
     ss @ (if wild then (case map_of ch [hashc] of Some h \<Rightarrow> allSubs h | None \<Rightarrow> []) else []) @
     (case parts of [] \<Rightarrow> []
      | part # rest \<Rightarrow>
          (case map_of ch part of Some child \<Rightarrow> visits child rest False (wild \<or> (first \<and> startsWithDollar part)) | None \<Rightarrow> []) @
          (if wild then (case map_of ch [plusc] of Some child \<Rightarrow> visits child rest False True | None \<Rightarrow> []) else []))"

declare visits.simps [simp del] matchNodeWithSys.simps [simp del]

lemma collectAllSubscribers_fold: "collectAllSubscribers node acc = fold addSubscriber (allSubs node) acc"
proof (induction node acc rule: collectAllSubscribers.induct)
  case (1 ch ss acc)
  have "fold (\<lambda>pc. collectAllSubscribers (snd pc)) xs a = fold addSubscriber (concat (map (\<lambda>pc. allSubs (snd pc)) xs)) a"
    if "set xs \<subseteq> set ch" for xs a
    using that by (induction xs arbitrary: a) (auto simp: 1)
  from this [of ch] show ?case by simp
qed

lemma matchNodeWithSys_fold:
  "matchNodeWithSys node parts depth sys wild acc = fold addSubscriber (visits node parts (sys \<and> depth = 0) wild) acc"
proof (induction parts arbitrary: node depth wild acc)
  case Nil
  show ?case
    by (cases node) (simp add: matchNodeWithSys.simps visits.simps collectAllSubscribers_fold split: option.split)
next
  case (Cons part rest)
  obtain ch ss where node: "node = TopicNode ch ss" by (cases node)
  let ?acc = "fold addSubscriber (ss @ (if wild then (case map_of ch [hashc] of Some h \<Rightarrow> allSubs h | None \<Rightarrow> []) else [])) acc"
  have "matchNodeWithSys node (part # rest) depth sys wild acc =
    (let acc3 = (case map_of ch part of
          Some child \<Rightarrow> matchNodeWithSys child rest (depth + 1) sys (wild \<or> (sys \<and> depth = 0 \<and> startsWithDollar part)) ?acc
        | None \<Rightarrow> ?acc)
     in if wild then (case map_of ch [plusc] of Some child \<Rightarrow> matchNodeWithSys child rest (depth + 1) sys True acc3 | None \<Rightarrow> acc3)
        else acc3)"
    unfolding node matchNodeWithSys.simps [of ch ss]
    by (simp add: collectAllSubscribers_fold split: option.split)
  then show ?case
    unfolding node visits.simps [of ch ss] by (simp add: Cons.IH Let_def conj_assoc split: option.split)
qed

section \<open>The filters a walk reaches\<close>

text \<open>
  A filter is reached when its levels lead along the topic: an exact level, \<open>+\<close> or \<open>#\<close>. The walk
  also stops at every inner node it passes, so the empty filter reaches everything.
\<close>

fun reaches :: "bool \<Rightarrow> bool \<Rightarrow> level list \<Rightarrow> level list \<Rightarrow> bool" where
  "reaches first wild [] parts \<longleftrightarrow> True"
| "reaches first wild (x # fs) parts \<longleftrightarrow> wild \<and> x = [hashc] \<or>
     (case parts of [] \<Rightarrow> False
      | part # rest \<Rightarrow> (x = part \<and> reaches False (wild \<or> (first \<and> startsWithDollar part)) fs rest) \<or>
                        (wild \<and> x = [plusc] \<and> reaches False True fs rest))"

lemma entries_ex_iff: "(\<exists>fs. P fs) \<longleftrightarrow> P [] \<or> (\<exists>x fs. P (x # fs))"
  by (metis list.exhaust)

lemma entries_Cons_Some:
  "entries (TopicNode ch ss) (x # fs) c = Some q \<longleftrightarrow> (\<exists>k. map_of ch x = Some k \<and> entries k fs c = Some q)"
  by (simp split: option.split)

lemma bex_snd: "(\<exists>x\<in>S. y \<in> set (f (snd x))) \<longleftrightarrow> (\<exists>p k. (p, k) \<in> S \<and> y \<in> set (f k))"
  by force

lemma in_allSubs: "wfNode node \<Longrightarrow> (c, q) \<in> set (allSubs node) \<longleftrightarrow> (\<exists>fs. entries node fs c = Some q)"
proof (induction node rule: allSubs.induct)
  case (1 ch ss)
  then have ok: "mapOk ch" "mapOk ss" "\<And>p k. (p, k) \<in> set ch \<Longrightarrow> wfNode k"
    by (auto simp: wfNode.simps list_all_iff)
  have IH: "(p, k) \<in> set ch \<Longrightarrow> (c, q) \<in> set (allSubs k) \<longleftrightarrow> (\<exists>fs. entries k fs c = Some q)" for p k
    using "1.IH" [of "(p, k)"] ok(3) [of p k] by simp
  have "(c, q) \<in> set (allSubs (TopicNode ch ss)) \<longleftrightarrow>
    map_of ss c = Some q \<or> (\<exists>p k. (p, k) \<in> set ch \<and> (c, q) \<in> set (allSubs k))"
    unfolding in_map [OF ok(2), symmetric] by (simp add: bex_snd)
  also have "\<dots> \<longleftrightarrow> map_of ss c = Some q \<or> (\<exists>p k. map_of ch p = Some k \<and> (\<exists>fs. entries k fs c = Some q))"
    unfolding in_map [OF ok(1), symmetric] using IH by blast
  also have "\<dots> \<longleftrightarrow> (\<exists>fs. entries (TopicNode ch ss) fs c = Some q)"
    unfolding entries_ex_iff [of "\<lambda>fs. entries (TopicNode ch ss) fs c = Some q"]
    by (simp only: entries_Cons_Some entries.simps(1)) blast
  finally show ?case .
qed

lemma in_option_case: "x \<in> set (case mo of Some k \<Rightarrow> f k | None \<Rightarrow> []) \<longleftrightarrow> (\<exists>k. mo = Some k \<and> x \<in> set (f k))"
  by (cases mo) auto

lemma in_if_list: "x \<in> set (if b then l else []) \<longleftrightarrow> b \<and> x \<in> set l"
  by auto

lemma in_visits:
  "wfNode node \<Longrightarrow> (c, q) \<in> set (visits node parts first wild) \<longleftrightarrow>
   (\<exists>fs. reaches first wild fs parts \<and> entries node fs c = Some q)"
proof (induction parts arbitrary: node first wild)
  case Nil
  obtain ch ss where node: "node = TopicNode ch ss" by (cases node)
  note wf = Nil [unfolded node]
  have ss: "mapOk ss" using wfNode_maps [OF wf] by simp
  have all: "map_of ch p = Some k \<Longrightarrow> (c, q) \<in> set (allSubs k) \<longleftrightarrow> (\<exists>fs. entries k fs c = Some q)" for p k
    using wfNode_child [OF wf] in_allSubs by blast
  have "(c, q) \<in> set (visits node [] first wild) \<longleftrightarrow>
    map_of ss c = Some q \<or> wild \<and> (\<exists>k. map_of ch [hashc] = Some k \<and> (\<exists>fs. entries k fs c = Some q))"
    unfolding in_map [OF ss, symmetric] node visits.simps set_append Un_iff in_if_list in_option_case
    using all by simp blast
  also have "\<dots> \<longleftrightarrow> (\<exists>fs. reaches first wild fs [] \<and> entries node fs c = Some q)"
    unfolding entries_ex_iff [of "\<lambda>fs. reaches first wild fs [] \<and> entries node fs c = Some q"]
    by (simp add: node entries_Cons_Some del: entries.simps(2)) blast
  finally show ?case .
next
  case (Cons part rest)
  obtain ch ss where node: "node = TopicNode ch ss" by (cases node)
  note wf = Cons.prems [unfolded node]
  have ss: "mapOk ss" using wfNode_maps [OF wf] by simp
  have all: "map_of ch p = Some k \<Longrightarrow> (c, q) \<in> set (allSubs k) \<longleftrightarrow> (\<exists>fs. entries k fs c = Some q)" for p k
    using wfNode_child [OF wf] in_allSubs by blast
  have IH: "map_of ch p = Some k \<Longrightarrow> (c, q) \<in> set (visits k rest first wild) \<longleftrightarrow>
    (\<exists>fs. reaches first wild fs rest \<and> entries k fs c = Some q)" for p k first wild
    using wfNode_child [OF wf] Cons.IH by blast
  have "(c, q) \<in> set (visits node (part # rest) first wild) \<longleftrightarrow>
    map_of ss c = Some q \<or>
    (wild \<and> (\<exists>k. map_of ch [hashc] = Some k \<and> (\<exists>fs. entries k fs c = Some q))) \<or>
    (\<exists>k. map_of ch part = Some k \<and>
       (\<exists>fs. reaches False (wild \<or> (first \<and> startsWithDollar part)) fs rest \<and> entries k fs c = Some q)) \<or>
    (wild \<and> (\<exists>k. map_of ch [plusc] = Some k \<and> (\<exists>fs. reaches False True fs rest \<and> entries k fs c = Some q)))"
    unfolding in_map [OF ss, symmetric] node visits.simps list.case set_append Un_iff in_if_list in_option_case
    using all IH by blast
  also have "\<dots> \<longleftrightarrow> (\<exists>fs. reaches first wild fs (part # rest) \<and> entries node fs c = Some q)"
    unfolding node entries_ex_iff [of "\<lambda>fs. reaches first wild fs (part # rest) \<and> entries (TopicNode ch ss) fs c = Some q"]
      entries_Cons_Some reaches.simps entries.simps(1) list.case by blast
  finally show ?case .
qed

end
