(* ===== verification/SubscriptionIndex.thy ===== *)
theory SubscriptionIndex
  imports GoMap
begin

text \<open>
  The contract of a subscription index: a table from filters and clients to the granted QoS,
  changed by subscribing and unsubscribing, with a counter of its entries. Clients of the
  contract see the index only through the table; the lemmas here follow a whole sequence of
  operations.
\<close>

datatype 'f subOp = OpSubscribe 'f gostring byte | OpUnsubscribe 'f gostring

type_synonym 'f subTable = "'f \<Rightarrow> gostring \<rightharpoonup> byte"

fun opStep :: "('f \<Rightarrow> gostring \<Rightarrow> byte \<Rightarrow> 'i \<Rightarrow> 'i) \<Rightarrow> ('f \<Rightarrow> gostring \<Rightarrow> 'i \<Rightarrow> 'i) \<Rightarrow> 'f subOp \<Rightarrow> 'i \<Rightarrow> 'i" where
  "opStep sub unsub (OpSubscribe f c q) i = sub f c q i"
| "opStep sub unsub (OpUnsubscribe f c) i = unsub f c i"

text \<open>The reference: what the operations mean on a plain table.\<close>

fun tableStep :: "('f \<Rightarrow> bool) \<Rightarrow> 'f subOp \<Rightarrow> 'f subTable \<Rightarrow> 'f subTable" where
  "tableStep legal (OpSubscribe f c q) t = (if legal f then t(f := (t f)(c \<mapsto> q)) else t)"
| "tableStep legal (OpUnsubscribe f c) t = t(f := (t f)(c := None))"

abbreviation emptyTable :: "'f subTable" where
  "emptyTable \<equiv> (\<lambda>f. Map.empty)"

definition tableSize :: "'f subTable \<Rightarrow> int" where
  "tableSize t = int (card {fc. t (fst fc) (snd fc) \<noteq> None})"

definition tableFinite :: "'f subTable \<Rightarrow> bool" where
  "tableFinite t \<longleftrightarrow> finite {fc. t (fst fc) (snd fc) \<noteq> None}"

section \<open>The size of a table\<close>

lemma tableFinite_empty [simp]: "tableFinite emptyTable" "tableSize emptyTable = 0"
  by (simp_all add: tableFinite_def tableSize_def)

lemma table_set_add:
  "{fc. (t(f := (t f)(c \<mapsto> q))) (fst fc) (snd fc) \<noteq> None} = insert (f, c) {fc. t (fst fc) (snd fc) \<noteq> None}"
  by (auto split: if_splits)

lemma table_set_remove:
  "{fc. (t(f := (t f)(c := None))) (fst fc) (snd fc) \<noteq> None} = {fc. t (fst fc) (snd fc) \<noteq> None} - {(f, c)}"
  by (auto split: if_splits)

lemma table_add:
  assumes "tableFinite t"
  shows "tableFinite (t(f := (t f)(c \<mapsto> q)))"
    "tableSize (t(f := (t f)(c \<mapsto> q))) = tableSize t + (if t f c = None then 1 else 0)"
  using assms unfolding tableFinite_def tableSize_def table_set_add by (simp_all add: card_insert_if)

lemma table_remove:
  assumes "tableFinite t"
  shows "tableFinite (t(f := (t f)(c := None)))"
    "tableSize (t(f := (t f)(c := None))) = tableSize t - (if t f c = None then 0 else 1)"
proof -
  show "tableFinite (t(f := (t f)(c := None)))"
    using assms unfolding tableFinite_def table_set_remove by simp
  have "0 < card {fc. t (fst fc) (snd fc) \<noteq> None}" if "t f c \<noteq> None"
    using assms that unfolding tableFinite_def by (auto simp: card_gt_0_iff)
  then show "tableSize (t(f := (t f)(c := None))) = tableSize t - (if t f c = None then 0 else 1)"
    using assms unfolding tableFinite_def tableSize_def table_set_remove
    by (auto simp: card_Diff_singleton_if)
qed

section \<open>The contract\<close>

locale subscription_index =
  fixes new :: 'i and ok :: "'i \<Rightarrow> bool" and legal :: "'f \<Rightarrow> bool"
    and tbl :: "'i \<Rightarrow> 'f subTable" and count :: "'i \<Rightarrow> int"
    and sub :: "'f \<Rightarrow> gostring \<Rightarrow> byte \<Rightarrow> 'i \<Rightarrow> 'i" and unsub :: "'f \<Rightarrow> gostring \<Rightarrow> 'i \<Rightarrow> 'i"
  assumes ok_new: "ok new" and tbl_new: "tbl new = emptyTable" and count_new: "count new = 0"
    and ok_sub: "ok i \<Longrightarrow> ok (sub f c q i)"
    and tbl_sub: "ok i \<Longrightarrow> tbl (sub f c q i) = tableStep legal (OpSubscribe f c q) (tbl i)"
    and count_sub: "ok i \<Longrightarrow> count (sub f c q i) = count i + (if legal f \<and> tbl i f c = None then 1 else 0)"
    and ok_unsub: "ok i \<Longrightarrow> ok (unsub f c i)"
    and tbl_unsub: "ok i \<Longrightarrow> tbl (unsub f c i) = tableStep legal (OpUnsubscribe f c) (tbl i)"
    and count_unsub: "ok i \<Longrightarrow> count (unsub f c i) = count i - (if tbl i f c = None then 0 else 1)"
begin

definition sound :: "'i \<Rightarrow> bool" where
  "sound i \<longleftrightarrow> ok i \<and> tableFinite (tbl i) \<and> count i = tableSize (tbl i)"

lemma sound_new: "sound new"
  by (simp add: sound_def ok_new tbl_new count_new)

lemma sound_step: "sound i \<Longrightarrow> sound (opStep sub unsub x i)"
  by (cases x) (simp_all add: sound_def ok_sub tbl_sub count_sub ok_unsub tbl_unsub count_unsub table_add table_remove)

lemma tbl_step: "sound i \<Longrightarrow> tbl (opStep sub unsub x i) = tableStep legal x (tbl i)"
  by (cases x) (simp_all add: sound_def tbl_sub tbl_unsub)

lemma run_from: "sound i \<Longrightarrow> sound (fold (opStep sub unsub) ops i) \<and>
  tbl (fold (opStep sub unsub) ops i) = fold (tableStep legal) ops (tbl i)"
  by (induction ops arbitrary: i) (simp_all add: sound_step tbl_step)

lemma run_refines:
  "ok (fold (opStep sub unsub) ops new)"
  "tbl (fold (opStep sub unsub) ops new) = fold (tableStep legal) ops emptyTable"
  "count (fold (opStep sub unsub) ops new) = tableSize (fold (tableStep legal) ops emptyTable)"
  using run_from [OF sound_new, of ops] by (simp_all add: sound_def tbl_new)

lemma run_all_unsubscribed:
  assumes "fold (tableStep legal) ops emptyTable = emptyTable"
  shows "count (fold (opStep sub unsub) ops new) = 0"
  using assms by (simp add: run_refines(3))

end

end
