(* ===== verification/TopicTreeTheorems.thy ===== *)
theory TopicTreeTheorems
  imports TopicTreeMatch SubscriptionIndex "HOL-Library.Code_Target_Numeral"
begin

text \<open>
  The subscription index as a whole: the trie and the shared table together implement the
  contract of SubscriptionIndex, \<open>Match\<close> is characterised against the matching rules of the
  specification, and the round robin over a share group is fair.
\<close>

section \<open>The index implements the contract\<close>

datatype subKey = Plain gostring | Shared gostring gostring

fun treeSub :: "subKey \<Rightarrow> gostring \<Rightarrow> byte \<Rightarrow> TopicTree \<Rightarrow> TopicTree" where
  "treeSub (Plain f) c q tt = snd (Subscribe f c q tt)"
| "treeSub (Shared g f) c q tt = SubscribeShared g f c q tt"

fun treeUnsub :: "subKey \<Rightarrow> gostring \<Rightarrow> TopicTree \<Rightarrow> TopicTree" where
  "treeUnsub (Plain f) c tt = Unsubscribe f c tt"
| "treeUnsub (Shared g f) c tt = UnsubscribeShared g f c tt"

fun legalKey :: "subKey \<Rightarrow> bool" where
  "legalKey (Plain f) = ValidateTopicFilter f"
| "legalKey (Shared g f) = True"

definition plainTable :: "TopicTree \<Rightarrow> gostring subTable" where
  "plainTable tt f = entries (root tt) (SplitTopic f)"

definition sharedTable :: "TopicTree \<Rightarrow> gostring \<Rightarrow> gostring subTable" where
  "sharedTable tt g f = map_of (lookupMap (lookupMap (sharedSubs tt) g) f)"

fun treeTable :: "TopicTree \<Rightarrow> subKey subTable" where
  "treeTable tt (Plain f) = plainTable tt f"
| "treeTable tt (Shared g f) = sharedTable tt g f"

text \<open>No share group and no filter of a group is empty; a cursor belongs to a live group.\<close>

definition groupOk :: "(gostring, (gostring, byte) gomap) gomap \<Rightarrow> bool" where
  "groupOk fs \<longleftrightarrow> mapOk fs \<and> fs \<noteq> [] \<and> list_all (\<lambda>fc. mapOk (snd fc) \<and> snd fc \<noteq> []) fs"

definition sharedOk :: "TopicTree \<Rightarrow> bool" where
  "sharedOk tt \<longleftrightarrow> mapOk (sharedSubs tt) \<and> list_all (\<lambda>gf. groupOk (snd gf)) (sharedSubs tt) \<and>
     mapOk (sharedLast tt) \<and> (\<forall>g. map_of (sharedSubs tt) g = None \<longrightarrow> map_of (sharedLast tt) g = None)"

definition trieOk :: "TopicTree \<Rightarrow> bool" where
  "trieOk tt \<longleftrightarrow> wfNode (root tt) \<and>
     (\<forall>fs c. entries (root tt) fs c \<noteq> None \<longrightarrow> (\<exists>f. ValidateTopicFilter f \<and> fs = SplitTopic f))"

definition treeOk :: "TopicTree \<Rightarrow> bool" where
  "treeOk tt \<longleftrightarrow> trieOk tt \<and> sharedOk tt"

subsection \<open>The trie\<close>

lemma SplitTopic_inj: "SplitTopic f = SplitTopic g \<longleftrightarrow> f = g"
  by (metis SplitTopic_eq_Split joinLevels_Split)

lemma Subscribe_shared [simp]:
  "sharedSubs (snd (Subscribe f c q tt)) = sharedSubs tt" "sharedLast (snd (Subscribe f c q tt)) = sharedLast tt"
  by (simp_all add: Subscribe_def split: prod.split)

lemma Unsubscribe_shared [simp]:
  "sharedSubs (Unsubscribe f c tt) = sharedSubs tt" "sharedLast (Unsubscribe f c tt) = sharedLast tt"
  by (simp_all add: Unsubscribe_def split: prod.split)

lemma Subscribe_root:
  "ValidateTopicFilter f \<Longrightarrow> root (snd (Subscribe f c q tt)) = fst (subscribeNode (root tt) (SplitTopic f) c q (totalSubs tt))"
  "ValidateTopicFilter f \<Longrightarrow> totalSubs (snd (Subscribe f c q tt)) = snd (subscribeNode (root tt) (SplitTopic f) c q (totalSubs tt))"
  "\<not> ValidateTopicFilter f \<Longrightarrow> snd (Subscribe f c q tt) = tt"
  by (simp_all add: Subscribe_def split: prod.split)

lemma Subscribe_trie:
  assumes "trieOk tt"
  shows "trieOk (snd (Subscribe f c q tt))"
    "plainTable (snd (Subscribe f c q tt)) = tableStep ValidateTopicFilter (OpSubscribe f c q) (plainTable tt)"
    "totalSubs (snd (Subscribe f c q tt)) =
       totalSubs tt + (if ValidateTopicFilter f \<and> plainTable tt f c = None then 1 else 0)"
proof -
  show "trieOk (snd (Subscribe f c q tt))"
    using assms by (cases "ValidateTopicFilter f")
      (auto simp: trieOk_def Subscribe_root subscribeNode_wf subscribeNode_entries split: if_splits)
  show "plainTable (snd (Subscribe f c q tt)) = tableStep ValidateTopicFilter (OpSubscribe f c q) (plainTable tt)"
    by (cases "ValidateTopicFilter f")
      (auto simp: fun_eq_iff plainTable_def Subscribe_root subscribeNode_entries SplitTopic_inj)
  show "totalSubs (snd (Subscribe f c q tt)) =
       totalSubs tt + (if ValidateTopicFilter f \<and> plainTable tt f c = None then 1 else 0)"
    by (cases "ValidateTopicFilter f") (simp_all add: Subscribe_root subscribeNode_count plainTable_def)
qed

lemma Unsubscribe_trie:
  assumes "trieOk tt"
  shows "trieOk (Unsubscribe f c tt)"
    "plainTable (Unsubscribe f c tt) = tableStep legal (OpUnsubscribe f c) (plainTable tt)"
    "totalSubs (Unsubscribe f c tt) = totalSubs tt - (if plainTable tt f c = None then 0 else 1)"
proof -
  obtain pr r n where u: "unsubscribeNode (root tt) (SplitTopic f) c (totalSubs tt) = (pr, r, n)"
    by (metis prod_cases3)
  have wf: "wfNode (root tt)" using assms by (simp add: trieOk_def)
  note facts = unsubscribeNode_wf [OF wf u] unsubscribeNode_entries [OF wf u] unsubscribeNode_count [OF u]
  show "trieOk (Unsubscribe f c tt)"
    using assms facts by (auto simp: trieOk_def Unsubscribe_def u split: if_splits)
  show "plainTable (Unsubscribe f c tt) = tableStep legal (OpUnsubscribe f c) (plainTable tt)"
    using facts by (auto simp: fun_eq_iff plainTable_def Unsubscribe_def u SplitTopic_inj)
  show "totalSubs (Unsubscribe f c tt) = totalSubs tt - (if plainTable tt f c = None then 0 else 1)"
    using facts by (simp add: Unsubscribe_def u plainTable_def)
qed

subsection \<open>The shared table\<close>

lemma lookupMap_update [simp]: "lookupMap (mset_key k v m) = (lookupMap m)(k := v)"
  by (auto simp: lookupMap_def fun_eq_iff)

lemma lookupMap_delete [simp]: "lookupMap (mdel_key k m) = (lookupMap m)(k := [])"
  by (auto simp: lookupMap_def fun_eq_iff)

lemma lookupMap_Some: "map_of m k = Some v \<Longrightarrow> lookupMap m k = v"
  by (simp add: lookupMap_def)

lemma lookupMap_None: "map_of m k = None \<Longrightarrow> lookupMap m k = []"
  by (simp add: lookupMap_def)

lemma lookupMap_Nil [simp]: "lookupMap [] k = []"
  by (simp add: lookupMap_def)

lemma groupOk_lookup:
  assumes "groupOk fs \<or> fs = []"
  shows "mapOk fs" "mapOk (lookupMap fs f)" "map_of fs f = Some cs \<Longrightarrow> cs \<noteq> []"
  using assms by (auto simp: groupOk_def list_all_iff lookupMap_def split: option.split dest!: map_of_SomeD)

lemma sharedOk_lookup:
  assumes "sharedOk tt"
  shows "groupOk (lookupMap (sharedSubs tt) g) \<or> lookupMap (sharedSubs tt) g = []"
  using assms by (auto simp: sharedOk_def list_all_iff lookupMap_def split: option.split dest!: map_of_SomeD)

lemma groupOk_update:
  "groupOk fs \<or> fs = [] \<Longrightarrow> mapOk cs \<Longrightarrow> cs \<noteq> [] \<Longrightarrow> groupOk (mset_key f cs fs)"
  using list_all_update [of "\<lambda>cs. mapOk cs \<and> cs \<noteq> []" fs cs f] by (auto simp: groupOk_def comp_def)

lemma groupOk_delete: "groupOk fs \<Longrightarrow> mdel_key f fs \<noteq> [] \<Longrightarrow> groupOk (mdel_key f fs)"
  by (simp add: groupOk_def list_all_delete)

lemma SubscribeShared_root [simp]: "root (SubscribeShared g f c q tt) = root tt"
  by (simp add: SubscribeShared_def Let_def)

lemma UnsubscribeShared_root [simp]: "root (UnsubscribeShared g f c tt) = root tt"
  by (simp add: UnsubscribeShared_def Let_def split: option.split)

lemma SubscribeShared_table:
  "sharedTable (SubscribeShared g f c q tt) =
     (sharedTable tt)(g := (sharedTable tt g)(f := (sharedTable tt g f)(c \<mapsto> q)))"
  by (auto simp: fun_eq_iff sharedTable_def SubscribeShared_def Let_def)

lemma SubscribeShared_count:
  "totalSubs (SubscribeShared g f c q tt) = totalSubs tt + (if sharedTable tt g f c = None then 1 else 0)"
  by (simp add: sharedTable_def SubscribeShared_def Let_def)

lemma sharedSubs_update:
  assumes "sharedOk tt" "groupOk fs"
  shows "sharedOk (tt\<lparr>totalSubs := n, sharedSubs := mset_key g fs (sharedSubs tt)\<rparr>)"
  using assms list_all_update [of groupOk "sharedSubs tt" fs g] by (auto simp: sharedOk_def comp_def)

lemma SubscribeShared_ok:
  assumes "sharedOk tt"
  shows "sharedOk (SubscribeShared g f c q tt)"
proof -
  let ?fs = "lookupMap (sharedSubs tt) g"
  have "groupOk (mset_key f (mset_key c q (lookupMap ?fs f)) ?fs)"
    using sharedOk_lookup [OF assms, of g] by (intro groupOk_update) (simp_all add: groupOk_lookup)
  from sharedSubs_update [OF assms this] show ?thesis by (simp only: SubscribeShared_def Let_def)
qed

text \<open>The branches of \<open>UnsubscribeShared\<close>: nothing there, a group that stays, the last entry of a group.\<close>

lemma UnsubscribeShared_cases:
  assumes "sharedOk tt"
  obtains (absent) "UnsubscribeShared g f c tt = tt" "lookupMap (lookupMap (sharedSubs tt) g) f = []"
  | (stays) fs cs fs' where "map_of (sharedSubs tt) g = Some fs" "map_of fs f = Some cs" "groupOk fs'"
      "lookupMap fs' = (lookupMap fs)(f := mdel_key c cs)"
      "UnsubscribeShared g f c tt = tt\<lparr>totalSubs := totalSubs tt - (if map_of cs c = None then 0 else 1),
         sharedSubs := mset_key g fs' (sharedSubs tt)\<rparr>"
  | (gone) fs cs where "map_of (sharedSubs tt) g = Some fs" "map_of fs f = Some cs"
      "(lookupMap fs)(f := mdel_key c cs) = (\<lambda>_. [])"
      "UnsubscribeShared g f c tt = tt\<lparr>totalSubs := totalSubs tt - (if map_of cs c = None then 0 else 1),
         sharedSubs := mdel_key g (sharedSubs tt), sharedLast := mdel_key g (sharedLast tt)\<rparr>"
proof (cases "map_of (sharedSubs tt) g")
  case None
  then show thesis by (intro absent) (simp_all add: UnsubscribeShared_def lookupMap_def)
next
  case g: (Some fs)
  then have fs: "groupOk fs" using assms by (auto simp: sharedOk_def list_all_iff dest!: map_of_SomeD)
  show thesis
  proof (cases "map_of fs f")
    case None
    with g show thesis by (intro absent) (simp_all add: UnsubscribeShared_def lookupMap_def)
  next
    case f: (Some cs)
    let ?fs = "if mdel_key c cs = [] then mdel_key f fs else mset_key f (mdel_key c cs) fs"
    have l: "lookupMap ?fs = (lookupMap fs)(f := mdel_key c cs)" by simp
    have u: "UnsubscribeShared g f c tt = (let n = totalSubs tt - (if map_of cs c = None then 0 else 1) in
      if ?fs = [] then tt\<lparr>totalSubs := n, sharedSubs := mdel_key g (sharedSubs tt), sharedLast := mdel_key g (sharedLast tt)\<rparr>
      else tt\<lparr>totalSubs := n, sharedSubs := mset_key g ?fs (sharedSubs tt)\<rparr>)"
      using g f by (simp add: UnsubscribeShared_def Let_def)
    show thesis
    proof (cases "?fs = []")
      case True
      with l have "(lookupMap fs)(f := mdel_key c cs) = (\<lambda>_. [])" by (simp add: lookupMap_def fun_eq_iff)
      with g f u True show thesis by (intro gone) simp_all
    next
      case False
      have cs: "mapOk cs" using groupOk_lookup(2) [of fs f] fs f by (simp add: lookupMap_def)
      then have "groupOk ?fs" using fs False groupOk_delete [of fs f] by (auto intro: groupOk_update)
      with g f u l False show thesis by (intro stays) (simp_all add: Let_def)
    qed
  qed
qed

lemma UnsubscribeShared_ok:
  assumes "sharedOk tt"
  shows "sharedOk (UnsubscribeShared g f c tt)"
  using assms
proof (cases rule: UnsubscribeShared_cases [of tt g f c])
  case (gone fs cs)
  have "sharedOk (tt\<lparr>totalSubs := n, sharedSubs := mdel_key g (sharedSubs tt), sharedLast := mdel_key g (sharedLast tt)\<rparr>)" for n
    using assms by (auto simp: sharedOk_def list_all_delete)
  then show ?thesis by (simp add: gone)
qed (simp_all add: assms sharedSubs_update)

lemma UnsubscribeShared_table:
  assumes "sharedOk tt"
  shows "sharedTable (UnsubscribeShared g f c tt) =
     (sharedTable tt)(g := (sharedTable tt g)(f := (sharedTable tt g f)(c := None)))"
  using assms
proof (cases rule: UnsubscribeShared_cases [of tt g f c])
  case absent
  then show ?thesis by (auto simp: sharedTable_def fun_eq_iff)
next
  case (stays fs cs fs')
  then show ?thesis by (auto simp: sharedTable_def fun_eq_iff lookupMap_Some)
next
  case (gone fs cs)
  have "map_of (lookupMap fs h) d = None" if "h \<noteq> f" for h d
    using fun_cong [OF gone(3), of h] that by simp
  moreover have "map_of cs d = None" if "d \<noteq> c" for d
    using fun_cong [OF gone(3), of f] that map_of_delete [of c cs] by (metis fun_upd_apply map_of.simps(1))
  ultimately show ?thesis using gone(1,2,4) by (auto simp: sharedTable_def fun_eq_iff lookupMap_Some)
qed

lemma UnsubscribeShared_count:
  assumes "sharedOk tt"
  shows "totalSubs (UnsubscribeShared g f c tt) = totalSubs tt - (if sharedTable tt g f c = None then 0 else 1)"
  using assms by (cases rule: UnsubscribeShared_cases [of tt g f c]) (simp_all add: sharedTable_def lookupMap_Some)

interpretation topics: subscription_index NewTopicTree treeOk legalKey treeTable SubscriberCount treeSub treeUnsub
proof
  have table: "treeTable tt = (\<lambda>k. case k of Plain f \<Rightarrow> plainTable tt f | Shared g f \<Rightarrow> sharedTable tt g f)" for tt
    by (simp add: fun_eq_iff split: subKey.split)
  show "treeOk NewTopicTree"
    by (simp add: treeOk_def trieOk_def sharedOk_def NewTopicTree_def wfNode.simps)
  show "treeTable NewTopicTree = emptyTable"
    by (simp add: table fun_eq_iff plainTable_def sharedTable_def NewTopicTree_def lookupMap_def split: subKey.split)
  show "SubscriberCount NewTopicTree = 0"
    by (simp add: SubscriberCount_def NewTopicTree_def)
  fix tt k c q
  assume "treeOk tt"
  then have ok: "trieOk tt" "sharedOk tt" by (simp_all add: treeOk_def)
  show "treeOk (treeSub k c q tt)"
    by (cases k) (use ok Subscribe_trie(1) [of tt] SubscribeShared_ok [of tt] in
        \<open>auto simp: treeOk_def trieOk_def sharedOk_def\<close>)
  show "treeOk (treeUnsub k c tt)"
    by (cases k) (use ok Unsubscribe_trie(1) [of tt] UnsubscribeShared_ok [of tt] in
        \<open>auto simp: treeOk_def trieOk_def sharedOk_def\<close>)
  show "treeTable (treeSub k c q tt) = tableStep legalKey (OpSubscribe k c q) (treeTable tt)"
    using Subscribe_trie(2) [OF ok(1)]
    by (cases k) (auto simp: table fun_eq_iff SubscribeShared_table plainTable_def sharedTable_def split: subKey.split)
  show "treeTable (treeUnsub k c tt) = tableStep legalKey (OpUnsubscribe k c) (treeTable tt)"
    using Unsubscribe_trie(2) [OF ok(1)] UnsubscribeShared_table [OF ok(2)]
    by (cases k) (auto simp: table fun_eq_iff plainTable_def sharedTable_def split: subKey.split)
  show "SubscriberCount (treeSub k c q tt) = SubscriberCount tt + (if legalKey k \<and> treeTable tt k c = None then 1 else 0)"
    by (cases k) (simp_all add: SubscriberCount_def Subscribe_trie(3) [OF ok(1)] SubscribeShared_count)
  show "SubscriberCount (treeUnsub k c tt) = SubscriberCount tt - (if treeTable tt k c = None then 0 else 1)"
    by (cases k) (simp_all add: SubscriberCount_def Unsubscribe_trie(3) [OF ok(1)] UnsubscribeShared_count [OF ok(2)])
qed

section \<open>Matching against the specification\<close>

lemma ex_le_Suc: "(\<exists>k\<le>Suc n. P k) \<longleftrightarrow> P 0 \<or> (\<exists>k\<le>n. P (Suc k))"
  by (metis Suc_le_mono le0 not0_implies_Suc)

lemma reaches_wild: "reaches first True fs ts \<longleftrightarrow> (\<exists>k\<le>length ts. matchRec fs (take k ts))"
proof (induction fs arbitrary: first ts)
  case Nil
  then show ?case by (auto intro: exI [of _ 0])
next
  case (Cons x fs)
  show ?case
  proof (cases ts)
    case (Cons t rest)
    with Cons.IH show ?thesis by (auto simp: ex_le_Suc)
  qed simp
qed

text \<open>A filter that starts with a wildcard does not match a topic that starts with \<open>$\<close>.\<close>

definition sysBlocked :: "level list \<Rightarrow> level list \<Rightarrow> bool" where
  "sysBlocked fs ts \<longleftrightarrow> isSystem ts \<and> fs \<noteq> [] \<and> (hd fs = [hashc] \<or> hd fs = [plusc])"

lemma startsWithDollar_levels [simp]: "\<not> startsWithDollar [hashc]" "\<not> startsWithDollar [plusc]"
  by (simp_all add: startsWithDollar_def)

lemma reaches_sys:
  "reaches (isSystem ts) (\<not> isSystem ts) fs ts \<longleftrightarrow> (\<exists>k\<le>length ts. matchRec fs (take k ts)) \<and> \<not> sysBlocked fs ts"
proof (cases "isSystem ts")
  case True
  then obtain t rest where ts: "ts = t # rest" and t: "startsWithDollar t" by (cases ts) (auto simp: isSystem_def)
  show ?thesis
  proof (cases fs)
    case Nil
    then show ?thesis by (auto simp: sysBlocked_def intro: exI [of _ 0])
  next
    case (Cons x fs')
    with True t ts show ?thesis by (auto simp: ts sysBlocked_def ex_le_Suc reaches_wild)
  qed
qed (simp add: reaches_wild sysBlocked_def)

lemma IndexByte_Split: "hd (Split s) = (case IndexByte s slashc of Some i \<Rightarrow> take i s | None \<Rightarrow> s)"
  by (induction s) (auto simp: Split_Cons Split_slash split: option.splits simp del: Split.simps(2))

lemma startsWithDollar_Split: "startsWithDollar t \<longleftrightarrow> isSystem (Split t)"
proof (cases t)
  case (Cons b s)
  then show ?thesis
    by (cases "b = slashc") (simp_all add: startsWithDollar_def isSystem_def Split_Cons Split_slash del: Split.simps(2))
qed (simp add: startsWithDollar_def isSystem_def)

lemma matchSysProtected_levels:
  "matchSysProtected f t \<longleftrightarrow> matchRec (Split f) (Split t) \<and> \<not> sysBlocked (Split f) (Split t)"
  by (auto simp: matchSysProtected_def sysBlocked_def startsWithDollar_Split IndexByte_Split Let_def
      MatchTopic_def matchLevels_rec)

text \<open>The topics above a topic in the hierarchy, itself included.\<close>

definition ancestors :: "gostring \<Rightarrow> gostring list" where
  "ancestors topic = map (\<lambda>k. joinLevels (take k (Split topic))) [1..<Suc (length (Split topic))]"

lemma Split_ancestor: "1 \<le> k \<Longrightarrow> Split (joinLevels (take k (Split topic))) = take k (Split topic)"
  by (rule Split_joinLevels) (auto dest!: in_set_takeD Split_levels)

lemma isSystem_take: "1 \<le> k \<Longrightarrow> isSystem (take k ts) \<longleftrightarrow> isSystem ts"
  by (cases ts; cases k) (auto simp: isSystem_def)

lemma matchRec_hash: "matchRec fs [] \<Longrightarrow> fs \<noteq> [] \<Longrightarrow> matchRec fs ts"
  by (cases fs) auto

lemma reaches_ancestors:
  "reaches (isSystem (Split t)) (\<not> isSystem (Split t)) (Split f) (Split t) \<longleftrightarrow>
   (\<exists>a \<in> set (ancestors t). matchSysProtected f a)"
proof -
  have "(\<exists>a \<in> set (ancestors t). matchSysProtected f a) \<longleftrightarrow>
    (\<exists>k. 1 \<le> k \<and> k \<le> length (Split t) \<and> matchRec (Split f) (take k (Split t)) \<and> \<not> sysBlocked (Split f) (Split t))"
  proof -
    have "matchSysProtected f (joinLevels (take k (Split t))) \<longleftrightarrow>
      matchRec (Split f) (take k (Split t)) \<and> \<not> sysBlocked (Split f) (Split t)" if "1 \<le> k" for k
      using that by (simp add: matchSysProtected_levels Split_ancestor sysBlocked_def isSystem_take)
    then show ?thesis unfolding ancestors_def set_map bex_simps(7) by (auto simp: less_Suc_eq_le)
  qed
  also have "\<dots> \<longleftrightarrow> (\<exists>k\<le>length (Split t). matchRec (Split f) (take k (Split t))) \<and> \<not> sysBlocked (Split f) (Split t)"
  proof -
    have "\<exists>j\<ge>1. j \<le> length (Split t) \<and> matchRec (Split f) (take j (Split t))"
      if "k \<le> length (Split t)" "matchRec (Split f) (take k (Split t))" for k
    proof (cases k)
      case 0
      then show ?thesis using that matchRec_hash [of "Split f" "take 1 (Split t)"]
        by (intro exI [of _ 1]) (simp add: Suc_le_eq)
    qed (use that in auto)
    then show ?thesis by blast
  qed
  finally show ?thesis by (simp add: reaches_sys)
qed

lemma self_ancestor: "t \<in> set (ancestors t)"
  by (auto simp: ancestors_def joinLevels_Split Suc_le_eq intro!: image_eqI [of _ _ "length (Split t)"])

definition offers :: "gostring subTable \<Rightarrow> gostring \<Rightarrow> (gostring \<times> byte) set" where
  "offers tbl topic = {(c, q). \<exists>f. tbl f c = Some q \<and> (\<exists>a \<in> set (ancestors topic). matchSysProtected f a)}"

lemma Match_trie:
  assumes "trieOk tt"
  shows "distinct (map sb_ClientID (Match topic tt))"
    "s \<in> set (Match topic tt) \<longleftrightarrow> bestOf (offers (plainTable tt) topic) (sb_ClientID s) (sb_QoS s)"
proof -
  let ?ts = "Split topic" and ?r = "root tt"
  let ?vs = "visits ?r ?ts (isSystem ?ts) (\<not> isSystem ?ts)"
  have wf: "wfNode ?r" and ks: "entries ?r fs c \<noteq> None \<Longrightarrow> \<exists>f. fs = Split f" for fs c
    using assms by (auto simp: trieOk_def SplitTopic_eq_Split)
  have m: "Match topic tt = fst (fold addSubscriber ?vs ([], []))"
    by (simp add: Match_def Let_def matchNodeWithSys_fold SplitTopic_eq_Split)
  have ok: "accOk (set ?vs) (Match topic tt, snd (fold addSubscriber ?vs ([], [])))"
    using accOk_fold [OF accOk_empty, of ?vs] by (simp add: m)
  have "(c, q) \<in> set ?vs \<longleftrightarrow> (c, q) \<in> offers (plainTable tt) topic" for c q
    unfolding in_visits [OF wf] offers_def mem_Collect_eq prod.case reaches_ancestors [symmetric] plainTable_def
      SplitTopic_eq_Split using ks by (metis option.distinct(1))
  then have "set ?vs = offers (plainTable tt) topic" by auto
  with accOk_result [OF ok] show "distinct (map sb_ClientID (Match topic tt))"
    "s \<in> set (Match topic tt) \<longleftrightarrow> bestOf (offers (plainTable tt) topic) (sb_ClientID s) (sb_QoS s)"
    by simp_all
qed

section \<open>Properties\<close>

abbreviation "runTree ops \<equiv> fold (opStep treeSub treeUnsub) ops NewTopicTree"
abbreviation "runTable ops \<equiv> fold (tableStep legalKey) ops emptyTable"

lemma runTree_plain: "plainTable (runTree ops) f = runTable ops (Plain f)"
  using fun_cong [OF topics.run_refines(2) [of ops], of "Plain f"] by simp

lemma runTree_trieOk: "trieOk (runTree ops)"
  using topics.run_refines(1) [of ops] by (simp add: treeOk_def)

lemma Match_run:
  "distinct (map sb_ClientID (Match topic (runTree ops)))"
  "s \<in> set (Match topic (runTree ops)) \<longleftrightarrow>
   bestOf (offers (\<lambda>f. runTable ops (Plain f)) topic) (sb_ClientID s) (sb_QoS s)"
proof -
  have "plainTable (runTree ops) = (\<lambda>f. runTable ops (Plain f))" by (rule ext) (rule runTree_plain)
  with Match_trie [OF runTree_trieOk [of ops], where topic = topic]
  show "distinct (map sb_ClientID (Match topic (runTree ops)))"
    "s \<in> set (Match topic (runTree ops)) \<longleftrightarrow>
     bestOf (offers (\<lambda>f. runTable ops (Plain f)) topic) (sb_ClientID s) (sb_QoS s)"
    by simp_all
qed

text \<open>
  C6. After any sequence of subscribe and unsubscribe calls, plain and shared, on a new index,
  the trie is well formed and pruned, no share group is left empty, the subscriptions it holds
  are those of a plain table to which the same calls were applied, and the counter is the
  number of entries of that table. Illegal filters change nothing.
\<close>

theorem TopicTree_refines_table:
  "treeOk (runTree ops) \<and> treeTable (runTree ops) = runTable ops \<and>
   SubscriberCount (runTree ops) = tableSize (runTable ops)"
  by (intro conjI topics.run_refines)

text \<open>
  C3. After any sequence of calls, for every iteration order of the maps, \<open>Match\<close> lists no client
  twice, and lists a client with a QoS exactly when that QoS is the highest of the client's
  subscriptions whose filter matches the topic or a topic above it in the hierarchy, filters
  starting with a wildcard being kept off \<open>$\<close> topics.
\<close>

theorem Match_exact:
  "distinct (map sb_ClientID (Match topic (runTree ops))) \<and>
   (s \<in> set (Match topic (runTree ops)) \<longleftrightarrow>
      bestOf (offers (\<lambda>f. runTable ops (Plain f)) topic) (sb_ClientID s) (sb_QoS s))"
  by (intro conjI Match_run)

text \<open>
  C35. \<open>Match\<close> misses nobody: a client with a live subscription whose filter matches the topic
  is listed, at no less than the QoS of that subscription.
\<close>

theorem Match_misses_nobody:
  assumes "runTable ops (Plain f) c = Some q" "matchSysProtected f topic"
  shows "\<exists>s \<in> set (Match topic (runTree ops)). sb_ClientID s = c \<and> q \<le> sb_QoS s"
proof -
  let ?O = "offers (\<lambda>f. runTable ops (Plain f)) topic"
  have o: "(c, q) \<in> ?O" using assms self_ancestor by (auto simp: offers_def)
  then obtain q' where "bestOf ?O c q'" "q \<le> q'" by (rule bestOf_exists)
  then show ?thesis
    using Match_run(2) [of "\<lparr>sb_ClientID = c, sb_QoS = q'\<rparr>" topic ops] by (intro bexI) simp_all
qed

definition exOps :: "subKey subOp list" where
  "exOps = [OpSubscribe (Plain [0x61]) [1] 1, OpSubscribe (Plain [0x61, 0x2F, 0x2B]) [2] 0,
            OpSubscribe (Plain [0x23]) [2] 2, OpUnsubscribe (Plain [0x61, 0x2F, 0x2B]) [3]]"

theorem Match_misses_nobody_witness:
  "\<exists>s \<in> set (Match [0x61, 0x2F, 0x62] (runTree exOps)). sb_ClientID s = [2] \<and> 0 \<le> sb_QoS s"
proof (rule Match_misses_nobody [of exOps "[0x61, 0x2F, 0x2B]"])
  show "runTable exOps (Plain [0x61, 0x2F, 0x2B]) [2] = Some 0" by code_simp
  show "matchSysProtected [0x61, 0x2F, 0x2B] [0x61, 0x2F, 0x62]" by code_simp
qed

end
