(* ===== verification/TopicTreeShared.thy ===== *)
theory TopicTreeShared
  imports TopicTreeTheorems
begin

text \<open>
  Shared subscriptions: the selection of one member per share group. The members of a group are
  the clients with a matching filter, in ClientID order; binary search finds the member selected
  last, and the next one is selected. Lemmas: the members, the search, the effect of one call
  on every group, and the selections of successive calls, which go round the members.
\<close>

section \<open>Members of a group\<close>

definition groupOffers :: "gostring subTable \<Rightarrow> gostring \<Rightarrow> (gostring \<times> byte) set" where
  "groupOffers tbl topic = {(c, q). \<exists>f. tbl f c = Some q \<and> matchSysProtected f topic}"

lemma fold_groups:
  "accOk S acc \<Longrightarrow> accOk (S \<union> (\<Union>f \<in> set fs. set (g f))) (fold (\<lambda>f. fold addSubscriber (g f)) fs acc)"
proof (induction fs arbitrary: S acc)
  case (Cons f fs)
  from Cons.IH [OF accOk_fold [OF Cons.prems, of "g f"]] show ?case by (simp add: Un_assoc)
qed simp

lemma groupMembers_ok:
  assumes "groupOk fs \<or> fs = []"
  shows "sorted (map sb_ClientID (groupMembers fs topic))" "distinct (map sb_ClientID (groupMembers fs topic))"
    "s \<in> set (groupMembers fs topic) \<longleftrightarrow> bestOf (groupOffers (\<lambda>f. map_of (lookupMap fs f)) topic) (sb_ClientID s) (sb_QoS s)"
proof -
  let ?ms = "filter (\<lambda>f. matchSysProtected f topic) (map fst fs)"
  let ?acc = "fold (\<lambda>f. fold addSubscriber (lookupMap fs f)) ?ms ([], [])"
  have "(\<Union>f \<in> set ?ms. set (lookupMap fs f)) = groupOffers (\<lambda>f. map_of (lookupMap fs f)) topic"
  proof -
    have lk: "(c, q) \<in> set (lookupMap fs f) \<longleftrightarrow> map_of (lookupMap fs f) c = Some q" for f c q
      by (rule in_map) (rule groupOk_lookup(2) [OF assms])
    have dm: "f \<in> fst ` set fs" if "map_of (lookupMap fs f) c = Some q" for f c q
      using that by (cases "map_of fs f") (auto simp: lookupMap_def map_of_eq_None_iff dest: map_of_SomeD intro: rev_image_eqI)
    have "(c, q) \<in> (\<Union>f \<in> set ?ms. set (lookupMap fs f)) \<longleftrightarrow> (c, q) \<in> groupOffers (\<lambda>f. map_of (lookupMap fs f)) topic" for c q
      unfolding groupOffers_def mem_Collect_eq prod.case UN_iff lk set_filter set_map using dm by blast
    then show ?thesis by auto
  qed
  with fold_groups [OF accOk_empty, of "lookupMap fs" ?ms]
  have acc: "accOk (groupOffers (\<lambda>f. map_of (lookupMap fs f)) topic) (fst ?acc, snd ?acc)" by simp
  have gm: "groupMembers fs topic = sort_key sb_ClientID (fst ?acc)" by (simp add: groupMembers_def)
  show "sorted (map sb_ClientID (groupMembers fs topic))" by (simp add: gm)
  show "distinct (map sb_ClientID (groupMembers fs topic))"
    using accOk_result(1) [OF acc] by (simp add: gm distinct_map)
  show "s \<in> set (groupMembers fs topic) \<longleftrightarrow>
    bestOf (groupOffers (\<lambda>f. map_of (lookupMap fs f)) topic) (sb_ClientID s) (sb_QoS s)"
    using accOk_result(2) [OF acc] by (simp add: gm)
qed

section \<open>Binary search\<close>

lemma sortSearch_first:
  assumes mono: "\<And>a b. a \<le> b \<Longrightarrow> b < n \<Longrightarrow> f a \<Longrightarrow> f b"
  shows "i \<le> j \<Longrightarrow> j \<le> n \<Longrightarrow> (\<forall>k<i. \<not> f k) \<Longrightarrow> (j < n \<longrightarrow> f j) \<Longrightarrow>
    sortSearch f i j \<le> n \<and> (\<forall>k < sortSearch f i j. \<not> f k) \<and> (sortSearch f i j < n \<longrightarrow> f (sortSearch f i j))"
proof (induction "j - i" arbitrary: i j rule: less_induct)
  case less
  show ?case
  proof (cases "i < j")
    case True
    let ?h = "(i + j) div 2"
    have h: "i \<le> ?h" "?h < j" using True by auto
    show ?thesis
    proof (cases "f ?h")
      case fh: True
      have "sortSearch f i j = sortSearch f i ?h" using True fh by (simp add: sortSearch.simps [of f i j] Let_def)
      with less.hyps [of ?h i] less.prems h fh show ?thesis by simp
    next
      case fh: False
      have "\<not> f k" if "k \<le> ?h" for k using mono [of k ?h] that fh h less.prems(2) by auto
      then have "\<forall>k < ?h + 1. \<not> f k" by (simp add: less_Suc_eq_le)
      moreover have "sortSearch f i j = sortSearch f (?h + 1) j" using True fh by (simp add: sortSearch.simps [of f i j] Let_def)
      ultimately show ?thesis using less.hyps [of j "?h + 1"] less.prems h by simp
    qed
  next
    case False
    then have "sortSearch f i j = i" by (simp add: sortSearch.simps [of f i j])
    with False less.prems show ?thesis by simp
  qed
qed

abbreviation (input) ids :: "Subscriber list \<Rightarrow> gostring list" where
  "ids ms \<equiv> map sb_ClientID ms"

lemma sortSearch_member:
  assumes "sorted (ids ms)" "distinct (ids ms)" "i < length ms"
  shows "sortSearch (\<lambda>j. ids ms ! i \<le> sb_ClientID (ms ! j)) 0 (length ms) = i"
proof -
  let ?f = "\<lambda>j. ids ms ! i \<le> sb_ClientID (ms ! j)"
  let ?r = "sortSearch ?f 0 (length ms)"
  have le: "sb_ClientID (ms ! a) \<le> sb_ClientID (ms ! b)" if "a \<le> b" "b < length ms" for a b
    using sorted_nth_mono [OF assms(1), of a b] that by simp
  have r: "?r \<le> length ms \<and> (\<forall>k < ?r. \<not> ?f k) \<and> (?r < length ms \<longrightarrow> ?f ?r)"
  proof (rule sortSearch_first)
    show "?f b" if "a \<le> b" "b < length ms" "?f a" for a b using le [OF that(1,2)] that(3) by (rule order_trans [rotated])
  qed simp_all
  have "\<not> ?f k" if "k < i" for k
  proof
    assume "?f k"
    with le [of k i] that assms(3) have "ids ms ! k = ids ms ! i" by simp
    with nth_eq_iff_index_eq [OF assms(2), of k i] that assms(3) show False by simp
  qed
  then have "\<not> ?r < i" using r assms(3) by auto
  moreover have "?f i" using assms(3) by simp
  then have "\<not> i < ?r" using r by blast
  ultimately show ?thesis by simp
qed

lemma nextMember_member:
  assumes "sorted (ids ms)" "distinct (ids ms)" "i < length ms" "ids ms ! i \<noteq> []"
  shows "nextMember ms (ids ms ! i) = ids ms ! (Suc i mod length ms)"
proof -
  have "0 < length ms" using assms(3) by linarith
  then have "Suc i mod length ms < length ms" by simp
  then show ?thesis using assms(3,4) sortSearch_member [OF assms(1-3)] by (simp add: nextMember_def Let_def)
qed

lemma nextMember_other:
  assumes "ms \<noteq> []" "l \<notin> set (ids ms) \<or> l = []"
  shows "nextMember ms l = ids ms ! 0"
proof -
  have no: "\<not> (l \<noteq> [] \<and> k < length ms \<and> sb_ClientID (ms ! k) = l)" for k
    using assms(2) by (metis imageI nth_mem set_map)
  from assms(1) show ?thesis by (simp only: nextMember_def Let_def no if_False) simp
qed

text \<open>The selection moves on by one place, from the start when the last selection is not a member.\<close>

lemma nextMember_cases:
  assumes "sorted (ids ms)" "distinct (ids ms)" "ms \<noteq> []"
  obtains k where "k < length ms" "nextMember ms l = ids ms ! k"
proof (cases "l \<in> set (ids ms) \<and> l \<noteq> []")
  case True
  then obtain i where i: "i < length ms" "l = ids ms ! i" by (metis in_set_conv_nth length_map)
  then have "nextMember ms l = ids ms ! (Suc i mod length ms)" using nextMember_member [OF assms(1,2) i(1)] True by simp
  moreover have "0 < length ms" using i(1) by linarith
  then have "Suc i mod length ms < length ms" by simp
  ultimately show thesis by (rule that [rotated])
next
  case False
  then have "nextMember ms l = ids ms ! 0" using assms(3) by (intro nextMember_other) auto
  then show thesis using that [of 0] assms(3) by simp
qed

section \<open>One call\<close>

abbreviation (input) cursor :: "(gostring, gostring) gomap \<Rightarrow> gostring \<Rightarrow> gostring" where
  "cursor cur g \<equiv> (case map_of cur g of None \<Rightarrow> [] | Some l \<Rightarrow> l)"

text \<open>The members a call chooses from, and its choice, for one group.\<close>

definition candidates :: "gostring \<Rightarrow> (gostring \<Rightarrow> bool) option \<Rightarrow> (gostring, (gostring, byte) gomap) gomap \<Rightarrow> Subscriber list" where
  "candidates topic isOnline fs = onlineMembers isOnline (groupMembers fs topic)"

definition choice :: "Subscriber list \<Rightarrow> gostring \<Rightarrow> gostring \<Rightarrow> SharedSubscriber list" where
  "choice ms g l = (if ms = [] then [] else
     [\<lparr>ss_ClientID = nextMember ms l, ss_QoS = memberQoS ms (nextMember ms l), ss_ShareName = g\<rparr>])"

definition newCursor :: "Subscriber list \<Rightarrow> gostring option \<Rightarrow> gostring option" where
  "newCursor ms l = (if ms = [] then l else Some (nextMember ms (case l of None \<Rightarrow> [] | Some x \<Rightarrow> x)))"

lemma matchGroup_fold:
  assumes "mapOk gs" "fold (matchGroup topic on) gs (rs, cur) = (rs', cur')"
  shows "rs' = rs @ concat (map (\<lambda>gf. choice (candidates topic on (snd gf)) (fst gf) (cursor cur (fst gf))) gs) \<and>
    (\<forall>g. map_of cur' g = (case map_of gs g of None \<Rightarrow> map_of cur g | Some fs \<Rightarrow> newCursor (candidates topic on fs) (map_of cur g)))"
  using assms
proof (induction gs arbitrary: rs cur)
  case (Cons gf gs)
  obtain g fs where gf: "gf = (g, fs)" by fastforce
  obtain rs1 cur1 where m: "matchGroup topic on gf (rs, cur) = (rs1, cur1)" by fastforce
  have one: "rs1 = rs @ choice (candidates topic on fs) g (cursor cur g)"
    "map_of cur1 = (map_of cur)(g := newCursor (candidates topic on fs) (map_of cur g))"
    using m by (auto simp: matchGroup_def gf choice_def newCursor_def candidates_def Let_def fun_eq_iff split: if_splits)
  have g: "h \<in> fst ` set gs \<Longrightarrow> h \<noteq> g" for h using Cons.prems(1) by (auto simp: gf)
  have "concat (map (\<lambda>gf. choice (candidates topic on (snd gf)) (fst gf) (cursor cur1 (fst gf))) gs) =
    concat (map (\<lambda>gf. choice (candidates topic on (snd gf)) (fst gf) (cursor cur (fst gf))) gs)"
    by (rule arg_cong [where f = concat], rule map_cong) (use g in \<open>auto simp: one(2)\<close>)
  moreover have "map_of gs g = None" using g by (auto simp: map_of_eq_None_iff)
  ultimately show ?case
    using Cons.IH [of rs1 cur1] Cons.prems m by (auto simp: gf one split: option.split)
qed simp

lemma matchShared_tables:
  "sharedSubs (snd (matchShared topic on tt)) = sharedSubs tt" "root (snd (matchShared topic on tt)) = root tt"
  "totalSubs (snd (matchShared topic on tt)) = totalSubs tt"
  by (simp_all add: matchShared_def split: prod.split)

lemma matchShared_result:
  assumes "sharedOk tt"
  shows "fst (matchShared topic on tt) =
      concat (map (\<lambda>gf. choice (candidates topic on (snd gf)) (fst gf) (cursor (sharedLast tt) (fst gf))) (sharedSubs tt))"
    "map_of (sharedLast (snd (matchShared topic on tt))) g =
      (case map_of (sharedSubs tt) g of None \<Rightarrow> map_of (sharedLast tt) g
       | Some fs \<Rightarrow> newCursor (candidates topic on fs) (map_of (sharedLast tt) g))"
proof -
  obtain rs cur where f: "fold (matchGroup topic on) (sharedSubs tt) ([], sharedLast tt) = (rs, cur)" by fastforce
  with matchGroup_fold [OF _ f] assms show "fst (matchShared topic on tt) =
      concat (map (\<lambda>gf. choice (candidates topic on (snd gf)) (fst gf) (cursor (sharedLast tt) (fst gf))) (sharedSubs tt))"
    "map_of (sharedLast (snd (matchShared topic on tt))) g =
      (case map_of (sharedSubs tt) g of None \<Rightarrow> map_of (sharedLast tt) g
       | Some fs \<Rightarrow> newCursor (candidates topic on fs) (map_of (sharedLast tt) g))"
    by (simp_all add: matchShared_def sharedOk_def)
qed

lemma matchGroup_cursors: "mapOk (snd st) \<Longrightarrow> mapOk (snd (matchGroup topic on gf st))"
  by (auto simp: matchGroup_def Let_def split: prod.split)

lemma fold_matchGroup_cursors: "mapOk (snd st) \<Longrightarrow> mapOk (snd (fold (matchGroup topic on) gs st))"
  by (induction gs arbitrary: st) (simp_all add: matchGroup_cursors)

lemma matchShared_sharedOk:
  assumes "sharedOk tt"
  shows "sharedOk (snd (matchShared topic on tt))"
proof -
  have "mapOk (sharedLast (snd (matchShared topic on tt)))"
    using assms fold_matchGroup_cursors [of "([], sharedLast tt)" topic on "sharedSubs tt"]
    by (auto simp: matchShared_def sharedOk_def split: prod.splits)
  with assms matchShared_result(2) [OF assms] show ?thesis
    by (auto simp: sharedOk_def matchShared_tables)
qed

lemma matchShared_treeOk: "treeOk tt \<Longrightarrow> treeOk (snd (matchShared topic on tt))"
  by (auto simp: treeOk_def trieOk_def matchShared_sharedOk matchShared_tables)

lemma matchShared_table [simp]: "treeTable (snd (matchShared topic on tt)) = treeTable tt"
proof
  show "treeTable (snd (matchShared topic on tt)) k = treeTable tt k" for k
    by (cases k) (simp_all add: plainTable_def sharedTable_def matchShared_tables)
qed

lemma candidates_ok:
  assumes "sharedOk tt" "map_of (sharedSubs tt) g = Some fs"
  shows "sorted (ids (candidates topic on fs))" "distinct (ids (candidates topic on fs))"
    "m \<in> set (candidates topic on fs) \<longleftrightarrow>
      bestOf (groupOffers (sharedTable tt g) topic) (sb_ClientID m) (sb_QoS m) \<and>
      (case on of None \<Rightarrow> True | Some f \<Rightarrow> f (sb_ClientID m))"
proof -
  have fs: "groupOk fs \<or> fs = []" using sharedOk_lookup [OF assms(1), of g] assms(2) by (simp add: lookupMap_Some)
  have t: "(\<lambda>f. map_of (lookupMap fs f)) = sharedTable tt g" using assms(2) by (simp add: fun_eq_iff sharedTable_def lookupMap_Some)
  note gm = groupMembers_ok [OF fs, where topic = topic]
  show "sorted (ids (candidates topic on fs))" "distinct (ids (candidates topic on fs))"
    using gm(1,2) by (auto simp: candidates_def onlineMembers_def sorted_filter distinct_map_filter split: option.split)
  show "m \<in> set (candidates topic on fs) \<longleftrightarrow>
      bestOf (groupOffers (sharedTable tt g) topic) (sb_ClientID m) (sb_QoS m) \<and>
      (case on of None \<Rightarrow> True | Some f \<Rightarrow> f (sb_ClientID m))"
    using gm(3) [of m] by (auto simp: candidates_def onlineMembers_def t split: option.split)
qed

lemma memberQoS_member: "distinct (ids ms) \<Longrightarrow> m \<in> set ms \<Longrightarrow> memberQoS ms (sb_ClientID m) = sb_QoS m"
  by (induction ms) (auto intro: rev_image_eqI)

lemma choice_member:
  assumes "sorted (ids ms)" "distinct (ids ms)" "s \<in> set (choice ms g l)"
  shows "ss_ShareName s = g" "\<exists>m \<in> set ms. ss_ClientID s = sb_ClientID m \<and> ss_QoS s = sb_QoS m"
proof -
  have ne: "ms \<noteq> []" and s: "s = \<lparr>ss_ClientID = nextMember ms l, ss_QoS = memberQoS ms (nextMember ms l), ss_ShareName = g\<rparr>"
    using assms(3) by (auto simp: choice_def split: if_splits)
  obtain k where k: "k < length ms" "nextMember ms l = ids ms ! k" using nextMember_cases [OF assms(1,2) ne] .
  then show "ss_ShareName s = g" "\<exists>m \<in> set ms. ss_ClientID s = sb_ClientID m \<and> ss_QoS s = sb_QoS m"
    using memberQoS_member [OF assms(2), of "ms ! k"] by (auto simp: s intro!: bexI [of _ "ms ! k"])
qed

definition selected :: "SharedSubscriber list \<Rightarrow> gostring \<Rightarrow> gostring list" where
  "selected rs g = map ss_ClientID (filter (\<lambda>s. ss_ShareName s = g) rs)"

lemma selected_choice: "selected (choice ms h l) g = (if h = g \<and> ms \<noteq> [] then [nextMember ms l] else [])"
  by (simp add: selected_def choice_def)

lemma selected_groups:
  "mapOk gs \<Longrightarrow> selected (concat (map (\<lambda>gf. choice (cs (snd gf)) (fst gf) (l (fst gf))) gs)) g =
   (case map_of gs g of None \<Rightarrow> [] | Some fs \<Rightarrow> if cs fs = [] then [] else [nextMember (cs fs) (l g)])"
proof (induction gs)
  case (Cons gf gs)
  have app: "selected (a @ b) h = selected a h @ selected b h" for a b h by (simp add: selected_def)
  have "g = fst gf \<Longrightarrow> map_of gs g = None" using Cons.prems by (auto simp: map_of_eq_None_iff)
  with Cons show ?case by (cases gf; cases "g = fst gf") (simp_all add: app selected_choice)
qed (simp add: selected_def)

section \<open>Successive calls\<close>

text \<open>The results of \<open>n\<close> calls one after the other, the cursors being carried from each to the next.\<close>

fun rounds :: "gostring \<Rightarrow> (gostring \<Rightarrow> bool) \<Rightarrow> nat \<Rightarrow> TopicTree \<Rightarrow> SharedSubscriber list list" where
  "rounds topic isOnline 0 tt = []"
| "rounds topic isOnline (Suc n) tt =
     (case MatchSharedOnline topic isOnline tt of (rs, tt') \<Rightarrow> rs # rounds topic isOnline n tt')"

definition selections :: "gostring \<Rightarrow> SharedSubscriber list list \<Rightarrow> gostring list" where
  "selections g rss = concat (map (\<lambda>rs. selected rs g) rss)"

lemma MatchSharedOnline_selected:
  assumes "sharedOk tt" "map_of (sharedSubs tt) g = Some fs" "candidates topic (Some on) fs \<noteq> []"
  shows "selected (fst (MatchSharedOnline topic on tt)) g = [nextMember (candidates topic (Some on) fs) (cursor (sharedLast tt) g)]"
    "map_of (sharedLast (snd (MatchSharedOnline topic on tt))) g =
       Some (nextMember (candidates topic (Some on) fs) (cursor (sharedLast tt) g))"
proof -
  have ok: "mapOk (sharedSubs tt)" using assms(1) by (simp add: sharedOk_def)
  show "selected (fst (MatchSharedOnline topic on tt)) g = [nextMember (candidates topic (Some on) fs) (cursor (sharedLast tt) g)]"
    using selected_groups [OF ok, of "candidates topic (Some on)" "cursor (sharedLast tt)" g] assms(2,3)
    by (simp add: MatchSharedOnline_def matchShared_result(1) [OF assms(1)])
  show "map_of (sharedLast (snd (MatchSharedOnline topic on tt))) g =
       Some (nextMember (candidates topic (Some on) fs) (cursor (sharedLast tt) g))"
    using assms(2,3) by (simp add: MatchSharedOnline_def matchShared_result(2) [OF assms(1)] newCursor_def)
qed

lemma rounds_selections:
  assumes "sharedOk tt" "map_of (sharedSubs tt) g = Some fs" "ms = candidates topic (Some on) fs" "ms \<noteq> []"
    "[] \<notin> set (ids ms)" "k < length ms" "nextMember ms (cursor (sharedLast tt) g) = ids ms ! k"
  shows "selections g (rounds topic on n tt) = map (\<lambda>i. ids ms ! ((k + i) mod length ms)) [0..<n]"
  using assms
proof (induction n arbitrary: tt k)
  case (Suc n)
  obtain rs tt' where m: "MatchSharedOnline topic on tt = (rs, tt')" by fastforce
  have sel: "selected rs g = [ids ms ! k]" and cur: "map_of (sharedLast tt') g = Some (ids ms ! k)"
    using MatchSharedOnline_selected [of tt g fs topic on] Suc.prems m by simp_all
  have tt': "sharedOk tt'" "map_of (sharedSubs tt') g = Some fs"
    using matchShared_sharedOk [of tt topic "Some on"] matchShared_tables(1) [of topic "Some on" tt] Suc.prems(1,2) m
    by (simp_all add: MatchSharedOnline_def)
  have mem: "ids ms ! k \<noteq> []" using Suc.prems(5,6) by (metis length_map nth_mem)
  have srt: "sorted (ids ms)" "distinct (ids ms)" using candidates_ok(1,2) [OF Suc.prems(1,2)] Suc.prems(3) by simp_all
  have nx: "nextMember ms (cursor (sharedLast tt') g) = ids ms ! (Suc k mod length ms)"
    using nextMember_member [OF srt Suc.prems(6) mem] by (simp add: cur)
  have "Suc k mod length ms < length ms" using Suc.prems(4) by simp
  from Suc.IH [OF tt' Suc.prems(3,4,5) this nx]
  have "selections g (rounds topic on n tt') = map (\<lambda>i. ids ms ! ((k + Suc i) mod length ms)) [0..<n]"
    by (simp add: mod_simps)
  moreover have "[0..<Suc n] = 0 # map Suc [0..<n]" by (simp add: upt_conv_Cons map_Suc_upt del: upt_Suc)
  ultimately show ?case using Suc.prems(6) by (simp add: m selections_def sel comp_def del: upt_Suc)
qed (simp add: selections_def)

lemma rotation:
  assumes "distinct xs" "k < length xs"
  shows "distinct (map (\<lambda>i. xs ! ((k + i) mod length xs)) [0..<length xs])"
    "set (map (\<lambda>i. xs ! ((k + i) mod length xs)) [0..<length xs]) = set xs"
proof -
  have "rotate k xs = map (\<lambda>i. xs ! ((k + i) mod length xs)) [0..<length xs]"
    using assms(2) by (intro nth_equalityI) (auto simp: nth_rotate)
  then show "distinct (map (\<lambda>i. xs ! ((k + i) mod length xs)) [0..<length xs])"
    "set (map (\<lambda>i. xs ! ((k + i) mod length xs)) [0..<length xs]) = set xs"
    using assms(1) by (metis distinct_rotate set_rotate)+
qed

section \<open>Properties\<close>

text \<open>The online clients with a matching filter in a group.\<close>

definition members :: "TopicTree \<Rightarrow> gostring \<Rightarrow> gostring \<Rightarrow> (gostring \<Rightarrow> bool) \<Rightarrow> gostring set" where
  "members tt g topic on = {c. on c \<and> (\<exists>q. (c, q) \<in> groupOffers (sharedTable tt g) topic)}"

lemma members_no_group: "map_of (sharedSubs tt) g = None \<Longrightarrow> members tt g topic on = {}"
  by (simp add: members_def groupOffers_def sharedTable_def lookupMap_None)

lemma members_candidates:
  assumes "sharedOk tt" "map_of (sharedSubs tt) g = Some fs"
  shows "set (ids (candidates topic (Some on) fs)) = members tt g topic on"
proof -
  note mem = candidates_ok(3) [OF assms, where topic = topic and on = "Some on"]
  have "c \<in> members tt g topic on" if "m \<in> set (candidates topic (Some on) fs)" "c = sb_ClientID m" for c m
    using that by (auto simp: mem members_def bestOf_def)
  moreover have "c \<in> set (ids (candidates topic (Some on) fs))" if "c \<in> members tt g topic on" for c
  proof -
    from that obtain q where "on c" "(c, q) \<in> groupOffers (sharedTable tt g) topic" by (auto simp: members_def)
    then obtain q' where "bestOf (groupOffers (sharedTable tt g) topic) c q'" "on c" by (auto elim: bestOf_exists)
    then have "\<lparr>sb_ClientID = c, sb_QoS = q'\<rparr> \<in> set (candidates topic (Some on) fs)" by (simp add: mem)
    then show ?thesis by (force intro: rev_image_eqI)
  qed
  ultimately show ?thesis by auto
qed

lemma shareNames_choices:
  "map ss_ShareName (concat (map (\<lambda>gf. choice (cs (snd gf)) (fst gf) (l (fst gf))) gs)) =
   map fst (filter (\<lambda>gf. cs (snd gf) \<noteq> []) gs)"
  by (induction gs) (auto simp: choice_def)

text \<open>
  C23. A call of \<open>MatchSharedOnline\<close> selects at most one member per share group, and one in every
  group that has an online member with a matching filter; the member selected is online, has a
  matching filter in that group, and comes with the highest QoS of its matching filters there.
  The call changes no subscription and keeps the index well formed.
\<close>

theorem MatchShared_one_per_group:
  assumes "treeOk tt" "MatchSharedOnline topic on tt = (rs, tt')"
  shows "distinct (map ss_ShareName rs) \<and>
    (\<forall>g. g \<in> ss_ShareName ` set rs \<longleftrightarrow> members tt g topic on \<noteq> {}) \<and>
    (\<forall>s \<in> set rs. ss_ClientID s \<in> members tt (ss_ShareName s) topic on \<and>
       bestOf (groupOffers (sharedTable tt (ss_ShareName s)) topic) (ss_ClientID s) (ss_QoS s)) \<and>
    treeOk tt' \<and> treeTable tt' = treeTable tt \<and> SubscriberCount tt' = SubscriberCount tt"
proof -
  have ok: "sharedOk tt" "mapOk (sharedSubs tt)" using assms(1) by (simp_all add: treeOk_def sharedOk_def)
  have rs: "rs = concat (map (\<lambda>gf. choice (candidates topic (Some on) (snd gf)) (fst gf) (cursor (sharedLast tt) (fst gf))) (sharedSubs tt))"
    and tt': "tt' = snd (matchShared topic (Some on) tt)"
    using assms(2) matchShared_result(1) [OF ok(1), of topic "Some on"] by (simp_all add: MatchSharedOnline_def)
  have member: "ss_ClientID s \<in> members tt (ss_ShareName s) topic on \<and>
    bestOf (groupOffers (sharedTable tt (ss_ShareName s)) topic) (ss_ClientID s) (ss_QoS s)" if "s \<in> set rs" for s
  proof -
    from that obtain g fs where g: "map_of (sharedSubs tt) g = Some fs"
      and s: "s \<in> set (choice (candidates topic (Some on) fs) g (cursor (sharedLast tt) g))"
      using ok(2) by (auto simp: rs)
    note c = candidates_ok [OF ok(1) g, where topic = topic and on = "Some on"]
    note ch = choice_member [OF c(1,2) s]
    from ch(2) obtain m where m: "m \<in> set (candidates topic (Some on) fs)" "ss_ClientID s = sb_ClientID m" "ss_QoS s = sb_QoS m"
      by blast
    then show ?thesis using c(3) [of m] by (auto simp: ch(1) members_def bestOf_def)
  qed
  have names: "map ss_ShareName rs = map fst (filter (\<lambda>gf. candidates topic (Some on) (snd gf) \<noteq> []) (sharedSubs tt))"
    unfolding rs by (rule shareNames_choices)
  then have "distinct (map ss_ShareName rs)" using ok(2) by (simp add: distinct_map_filter)
  moreover have "g \<in> ss_ShareName ` set rs \<longleftrightarrow> members tt g topic on \<noteq> {}" for g
  proof -
    have "g \<in> ss_ShareName ` set rs \<longleftrightarrow> (\<exists>fs. map_of (sharedSubs tt) g = Some fs \<and> candidates topic (Some on) fs \<noteq> [])"
      unfolding in_map [OF ok(2), symmetric] set_map [symmetric] names by force
    also have "\<dots> \<longleftrightarrow> members tt g topic on \<noteq> {}"
      using members_candidates [OF ok(1), of g _ topic on] members_no_group [of tt g topic on]
      by (cases "map_of (sharedSubs tt) g") force+
    finally show ?thesis .
  qed
  moreover have "treeOk tt'" "treeTable tt' = treeTable tt" "SubscriberCount tt' = SubscriberCount tt"
    using assms(1) by (simp_all add: tt' matchShared_treeOk SubscriberCount_def matchShared_tables)
  ultimately show ?thesis using member by blast
qed

definition exShared :: TopicTree where
  "exShared = fold (opStep treeSub treeUnsub)
     [OpSubscribe (Shared [0x67] [0x61]) [2] 1, OpSubscribe (Shared [0x67] [0x23]) [1] 0,
      OpSubscribe (Shared [0x67] [0x23]) [3] 2] NewTopicTree"

lemma exShared_ok: "treeOk exShared"
  unfolding exShared_def by (rule topics.run_refines(1))

theorem MatchShared_one_per_group_witness:
  "\<exists>rs tt'. MatchSharedOnline [0x61] (\<lambda>c. c \<noteq> [3]) exShared = (rs, tt') \<and> distinct (map ss_ShareName rs) \<and>
     map ss_ClientID rs = [[1]]"
proof -
  obtain rs tt' where m: "MatchSharedOnline [0x61] (\<lambda>c. c \<noteq> [3]) exShared = (rs, tt')" by fastforce
  have "map ss_ClientID (fst (MatchSharedOnline [0x61] (\<lambda>c. c \<noteq> [3]) exShared)) = [[1]]" by code_simp
  with m MatchShared_one_per_group [OF exShared_ok m] show ?thesis by auto
qed

text \<open>
  C14. The round robin is fair: as long as the group does not change, as many successive calls as
  the group has eligible members select each of them exactly once, wherever the cursor stood.
\<close>

theorem shared_round_robin_fair:
  assumes "treeOk tt" "[] \<notin> members tt g topic on"
  shows "let sels = selections g (rounds topic on (card (members tt g topic on)) tt)
    in distinct sels \<and> set sels = members tt g topic on"
proof (cases "map_of (sharedSubs tt) g")
  case None
  then show ?thesis by (simp add: members_no_group selections_def)
next
  case (Some fs)
  have ok: "sharedOk tt" using assms(1) by (simp add: treeOk_def)
  let ?ms = "candidates topic (Some on) fs"
  note mem = members_candidates [OF ok Some, of topic on]
  note srt = candidates_ok(1,2) [OF ok Some, of topic "Some on"]
  show ?thesis
  proof (cases "?ms = []")
    case True
    then have "members tt g topic on = {}" using mem by simp
    then show ?thesis by (simp add: selections_def)
  next
    case False
    obtain k where k: "k < length ?ms" "nextMember ?ms (cursor (sharedLast tt) g) = ids ?ms ! k"
      using nextMember_cases [OF srt False] .
    have n: "card (members tt g topic on) = length (ids ?ms)" using srt(2) mem by (metis distinct_card)
    have "[] \<notin> set (ids ?ms)" using assms(2) mem by simp
    from rounds_selections [OF ok Some refl False this k, of "length (ids ?ms)"]
    have "selections g (rounds topic on (card (members tt g topic on)) tt) =
      map (\<lambda>i. ids ?ms ! ((k + i) mod length (ids ?ms))) [0..<length (ids ?ms)]" by (simp add: n)
    with rotation [OF srt(2), of k] k(1) mem show ?thesis by simp
  qed
qed

theorem shared_round_robin_fair_witness:
  "set (selections [0x67] (rounds [0x61] (\<lambda>_. True) (card (members exShared [0x67] [0x61] (\<lambda>_. True))) exShared)) =
     members exShared [0x67] [0x61] (\<lambda>_. True)"
proof -
  have "sharedTable exShared [0x67] f [] = None" for f
  proof -
    let ?fs = "lookupMap (sharedSubs exShared) [0x67]"
    have all: "list_all (\<lambda>fc. map_of (snd fc) [] = None) ?fs" by code_simp
    show ?thesis
    proof (cases "map_of ?fs f")
      case (Some cs)
      then have "map_of cs [] = None" using all map_of_SomeD [OF Some] by (auto simp: list_all_iff)
      with Some show ?thesis by (simp add: sharedTable_def lookupMap_Some)
    qed (simp add: sharedTable_def lookupMap_None)
  qed
  then have "[] \<notin> members exShared [0x67] [0x61] (\<lambda>_. True)" by (auto simp: members_def groupOffers_def)
  from shared_round_robin_fair [OF exShared_ok this] show ?thesis by (simp add: Let_def)
qed

lemma IndexByte_Some: "IndexByte s b = Some i \<longleftrightarrow> i < length s \<and> s ! i = b \<and> b \<notin> set (take i s)"
proof (induction s arbitrary: i)
  case (Cons x s)
  then show ?case by (cases i) auto
qed simp

lemma IndexByte_append: "b \<notin> set p \<Longrightarrow> IndexByte (p @ b # s) b = Some (length p)"
  by (simp add: IndexByte_Some)

text \<open>
  C40. The parser of shared filters accepts exactly the strings \<open>$share/<group>/<filter>\<close> with a
  non-empty group free of slashes and a non-empty filter, and returns those two parts.
\<close>

theorem ParseSharedFilter_exact:
  "ParseSharedFilter flt = Some (g, f) \<longleftrightarrow>
   flt = sharedSubPrefix @ g @ slashc # f \<and> g \<noteq> [] \<and> slashc \<notin> set g \<and> f \<noteq> []"
proof
  assume p: "ParseSharedFilter flt = Some (g, f)"
  let ?r = "drop (length sharedSubPrefix) flt"
  have "take (length sharedSubPrefix) flt = sharedSubPrefix"
    using p by (simp add: ParseSharedFilter_def IsSharedSubscription_def split: if_splits)
  then have pre: "flt = sharedSubPrefix @ ?r" by (metis append_take_drop_id)
  from p obtain i where i: "IndexByte ?r slashc = Some i" "0 < i" "i < length ?r - 1" "g = take i ?r" "f = drop (i + 1) ?r"
    by (auto simp: ParseSharedFilter_def Let_def split: if_splits option.splits)
  then have "?r = g @ slashc # f" using id_take_nth_drop [of i ?r] by (simp add: IndexByte_Some)
  then have "flt = sharedSubPrefix @ g @ slashc # f" using pre by metis
  moreover have "g \<noteq> []" "slashc \<notin> set g" "f \<noteq> []" using i by (auto simp: IndexByte_Some)
  ultimately show "flt = sharedSubPrefix @ g @ slashc # f \<and> g \<noteq> [] \<and> slashc \<notin> set g \<and> f \<noteq> []" by blast
next
  assume "flt = sharedSubPrefix @ g @ slashc # f \<and> g \<noteq> [] \<and> slashc \<notin> set g \<and> f \<noteq> []"
  then show "ParseSharedFilter flt = Some (g, f)"
    by (auto simp: ParseSharedFilter_def IsSharedSubscription_def Let_def IndexByte_append Suc_le_eq)
qed

section \<open>The listing\<close>

text \<open>The name the walk gives the node at the end of a path: levels joined by slashes.\<close>

fun pathName :: "gostring \<Rightarrow> level list \<Rightarrow> gostring" where
  "pathName prefix [] = prefix"
| "pathName prefix (x # xs) = pathName (if prefix = [] then x else prefix @ slashc # x) xs"

lemma pathName_join: "prefix \<noteq> [] \<Longrightarrow> xs \<noteq> [] \<Longrightarrow> pathName prefix xs = prefix @ slashc # joinLevels xs"
proof (induction xs arbitrary: prefix)
  case (Cons x xs)
  then show ?case by (cases "xs = []") (simp_all add: joinLevels_Cons)
qed simp

lemma pathName_Split: "pathName [] (Split f) = dropWhile (\<lambda>b. b = slashc) f"
proof (induction f)
  case (Cons b f)
  show ?case
  proof (cases "b = slashc")
    case True
    then show ?thesis using Cons by simp
  next
    case False
    have "pathName [] (Split (b # f)) = joinLevels (Split (b # f))"
      using False pathName_join [of "b # hd (Split f)" "tl (Split f)"]
      by (cases "tl (Split f) = []") (simp_all add: Split_Cons joinLevels_Cons del: Split.simps(2))
    then show ?thesis using False by (simp only: joinLevels_Split) simp
  qed
qed simp

lemma walk_lists:
  "entries node fs \<noteq> Map.empty \<Longrightarrow> \<exists>st \<in> set (walk node prefix).
     (tf_Filter st, tf_Group st, tf_Shared st) = splitSharedFilter (pathName prefix fs) \<and>
     map_of (tf_Subscribers st) = entries node fs"
proof (induction fs arbitrary: node prefix)
  case Nil
  obtain ch ss where node: "node = TopicNode ch ss" by (cases node)
  obtain flt g sh where sp: "splitSharedFilter prefix = (flt, g, sh)" by (metis prod_cases3)
  have "ss \<noteq> []" using Nil by (auto simp: node)
  then show ?case by (simp add: node sp)
next
  case (Cons x fs)
  obtain ch ss where node: "node = TopicNode ch ss" by (cases node)
  obtain child where c: "map_of ch x = Some child" "entries child fs \<noteq> Map.empty"
    using Cons.prems by (auto simp: node split: option.splits)
  from Cons.IH [OF c(2), of "if prefix = [] then x else prefix @ slashc # x"]
  obtain st where st: "st \<in> set (walk child (if prefix = [] then x else prefix @ slashc # x))"
    "(tf_Filter st, tf_Group st, tf_Shared st) = splitSharedFilter (pathName prefix (x # fs))"
    "map_of (tf_Subscribers st) = entries child fs" by auto
  have "\<exists>pc \<in> set ch. st \<in> set (walk (snd pc) (if prefix = [] then fst pc else prefix @ slashc # fst pc))"
    using st(1) map_of_SomeD [OF c(1)] by (intro bexI [of _ "(x, child)"]) (auto split: if_splits)
  then have "st \<in> set (walk node prefix)"
    unfolding node walk.simps set_append set_concat set_map Un_iff UN_iff image_iff bex_simps by blast
  moreover have "map_of (tf_Subscribers st) = entries node (x # fs)" using st(3) c(1) by (simp add: node)
  ultimately show ?case using st(2) by blast
qed



end
