(* ===== verification/QoSEngine.thy ===== *)
theory QoSEngine
  imports Packets GoMap "HOL-Library.Code_Target_Numeral"
begin

text \<open>
  The QoS engine, \<^verbatim>\<open>src/broker/qos_engine.go\<close>: the table of unacknowledged deliveries per client,
  the acknowledgement handlers and one tick of the retry loop. Every operation of the sources
  changes the table under one mutex, so an operation is one step of the model; the packets it
  sends and the reports it makes, which the sources pass to callbacks after the lock is
  released, are the list of actions it returns. Times are nanoseconds; one call of the retry
  tick reads one clock value.
\<close>

section \<open>Data\<close>

datatype InflightState = StateSent | StateAcked

record InflightMessage =
  im_PacketID :: u16
  im_ClientID :: gostring
  im_State :: InflightState
  im_SentAt :: int
  im_Retries :: int
  im_MaxRetries :: int
  im_Topic :: gostring
  im_Payload :: "byte list"
  im_QoS :: byte
  im_Retain :: bool
  im_IsOutbound :: bool

datatype qosErr = ErrInflightFull | ErrMaxRetriesExceeded | ErrSend

text \<open>What the engine asks its callbacks to do.\<close>

datatype qosAction =
    SendPubRel gostring u16
  | SendPubComp gostring u16
  | Republish gostring u16 gostring "byte list" byte bool
  | OnGiveUp gostring u16
  | OnError gostring u16 qosErr

text \<open>Which callbacks are set.\<close>

record qosCallbacks =
  cb_sendPubRel :: bool
  cb_sendPubComp :: bool
  cb_republish :: bool
  cb_onError :: bool
  cb_onGiveUp :: bool

record QoSEngine =
  q_inflight :: "(gostring, (u16, InflightMessage) gomap) gomap"
  q_maxInflight :: int
  q_retryInterval :: int
  q_maxRetries :: int
  q_sessionVersions :: "(gostring, byte) gomap"
  q_callbacks :: qosCallbacks

record qosOptions =
  qo_maxInflight :: int
  qo_retryInterval :: int
  qo_maxRetries :: int

definition defaultQoSOptions :: qosOptions where
  "defaultQoSOptions = \<lparr> qo_maxInflight = 100, qo_retryInterval = seconds 10, qo_maxRetries = 3 \<rparr>"

definition noCallbacks :: qosCallbacks where
  "noCallbacks = \<lparr> cb_sendPubRel = False, cb_sendPubComp = False, cb_republish = False,
     cb_onError = False, cb_onGiveUp = False \<rparr>"

definition NewQoSEngine :: "(qosOptions \<Rightarrow> qosOptions) list \<Rightarrow> QoSEngine" where
  "NewQoSEngine opts = (let p = fold (\<lambda>opt. opt) opts defaultQoSOptions in
     \<lparr> q_inflight = [], q_maxInflight = qo_maxInflight p, q_retryInterval = qo_retryInterval p,
       q_maxRetries = qo_maxRetries p, q_sessionVersions = [], q_callbacks = noCallbacks \<rparr>)"

definition WithMaxInflight :: "int \<Rightarrow> qosOptions \<Rightarrow> qosOptions" where
  "WithMaxInflight n p = p\<lparr>qo_maxInflight := n\<rparr>"

definition WithRetryInterval :: "int \<Rightarrow> qosOptions \<Rightarrow> qosOptions" where
  "WithRetryInterval d p = p\<lparr>qo_retryInterval := d\<rparr>"

definition WithMaxRetries :: "int \<Rightarrow> qosOptions \<Rightarrow> qosOptions" where
  "WithMaxRetries n p = p\<lparr>qo_maxRetries := n\<rparr>"

section \<open>Operations\<close>

definition SetClientVersion :: "gostring \<Rightarrow> byte \<Rightarrow> QoSEngine \<Rightarrow> QoSEngine" where
  "SetClientVersion clientID ver q = q\<lparr>q_sessionVersions := mset_key clientID ver (q_sessionVersions q)\<rparr>"

text \<open>A missing version reads as zero, which the capability table does not list.\<close>

definition retransmitPermitted :: "gostring \<Rightarrow> QoSEngine \<Rightarrow> bool" where
  "retransmitPermitted clientID q =
     (case SpecOf (case map_of (q_sessionVersions q) clientID of None \<Rightarrow> 0 | Some v \<Rightarrow> v) of
        (sp, ok) \<Rightarrow> if \<not> ok then True else sp_RetransmitUnacked sp)"

definition SetCallbacks :: "QoSEngine \<Rightarrow> QoSEngine" where
  "SetCallbacks q = q\<lparr>q_callbacks := (q_callbacks q)\<lparr>cb_sendPubRel := True, cb_sendPubComp := True, cb_republish := True\<rparr>\<rparr>"

definition SetErrorCallback :: "QoSEngine \<Rightarrow> QoSEngine" where
  "SetErrorCallback q = q\<lparr>q_callbacks := (q_callbacks q)\<lparr>cb_onError := True\<rparr>\<rparr>"

definition SetGiveUpCallback :: "QoSEngine \<Rightarrow> QoSEngine" where
  "SetGiveUpCallback q = q\<lparr>q_callbacks := (q_callbacks q)\<lparr>cb_onGiveUp := True\<rparr>\<rparr>"

definition reportError :: "gostring \<Rightarrow> u16 \<Rightarrow> qosErr \<Rightarrow> QoSEngine \<Rightarrow> qosAction list" where
  "reportError clientID packetID err q =
     (if cb_onError (q_callbacks q) then [OnError clientID packetID err] else [])"

definition clientInflight :: "gostring \<Rightarrow> QoSEngine \<Rightarrow> (u16, InflightMessage) gomap" where
  "clientInflight clientID q = (case map_of (q_inflight q) clientID of None \<Rightarrow> [] | Some m \<Rightarrow> m)"

definition setClient :: "gostring \<Rightarrow> (u16, InflightMessage) gomap \<Rightarrow> QoSEngine \<Rightarrow> QoSEngine" where
  "setClient clientID m q = q\<lparr>q_inflight := mset_key clientID m (q_inflight q)\<rparr>"

definition track ::
  "int \<Rightarrow> gostring \<Rightarrow> u16 \<Rightarrow> gostring \<Rightarrow> byte list \<Rightarrow> bool \<Rightarrow> byte \<Rightarrow> bool \<Rightarrow> QoSEngine \<Rightarrow> qosErr option \<times> QoSEngine" where
  "track now clientID packetID topic payload retain qos outbound q =
     (let m = clientInflight clientID q;
          q' = (if map_of (q_inflight q) clientID = None then setClient clientID [] q else q)
      in if 0 < q_maxInflight q \<and> q_maxInflight q \<le> int (length m) then (Some ErrInflightFull, q')
         else (None, setClient clientID (mset_key packetID
           \<lparr> im_PacketID = packetID, im_ClientID = clientID, im_State = StateSent, im_SentAt = now,
             im_Retries = 0, im_MaxRetries = q_maxRetries q, im_Topic = topic, im_Payload = payload,
             im_QoS = qos, im_Retain = retain, im_IsOutbound = outbound \<rparr> m) q'))"

definition TrackQoS1 where
  "TrackQoS1 now clientID packetID topic payload retain = track now clientID packetID topic payload retain 1 False"

definition TrackQoS2 where
  "TrackQoS2 now clientID packetID topic payload retain = track now clientID packetID topic payload retain 2 False"

definition TrackOutboundQoS1 where
  "TrackOutboundQoS1 now clientID packetID topic payload retain = track now clientID packetID topic payload retain 1 True"

definition TrackOutboundQoS2 where
  "TrackOutboundQoS2 now clientID packetID topic payload retain = track now clientID packetID topic payload retain 2 True"

text \<open>The state change \<open>AckPubRec\<close> and the restore path make, and whether an entry was there.\<close>

definition markAcked :: "gostring \<Rightarrow> u16 \<Rightarrow> QoSEngine \<Rightarrow> bool \<times> QoSEngine" where
  "markAcked clientID packetID q =
     (case map_of (q_inflight q) clientID of
        None \<Rightarrow> (False, q)
      | Some m \<Rightarrow>
     (case map_of m packetID of
        None \<Rightarrow> (False, q)
      | Some msg \<Rightarrow> (True, setClient clientID (mset_key packetID (msg\<lparr>im_State := StateAcked\<rparr>) m) q)))"

definition TrackOutboundQoS2AwaitingPubComp ::
  "int \<Rightarrow> gostring \<Rightarrow> u16 \<Rightarrow> gostring \<Rightarrow> byte list \<Rightarrow> bool \<Rightarrow> QoSEngine \<Rightarrow> qosErr option \<times> QoSEngine" where
  "TrackOutboundQoS2AwaitingPubComp now clientID packetID topic payload retain q =
     (case TrackOutboundQoS2 now clientID packetID topic payload retain q of
        (Some err, q') \<Rightarrow> (Some err, q')
      | (None, q') \<Rightarrow> (None, snd (markAcked clientID packetID q')))"

definition AckQoS1 :: "gostring \<Rightarrow> u16 \<Rightarrow> QoSEngine \<Rightarrow> QoSEngine" where
  "AckQoS1 clientID packetID q =
     (case map_of (q_inflight q) clientID of
        None \<Rightarrow> q
      | Some m \<Rightarrow> setClient clientID (mdel_key packetID m) q)"

text \<open>\<open>fails\<close> tells which sends return an error; it is the transport's business.\<close>

definition AckPubRec :: "(qosAction \<Rightarrow> bool) \<Rightarrow> gostring \<Rightarrow> u16 \<Rightarrow> QoSEngine \<Rightarrow> qosAction list \<times> QoSEngine" where
  "AckPubRec fails clientID packetID q =
     (case markAcked clientID packetID q of (found, q') \<Rightarrow>
        (if found \<and> cb_sendPubRel (q_callbacks q)
         then SendPubRel clientID packetID #
           (if fails (SendPubRel clientID packetID) then reportError clientID packetID ErrSend q else [])
         else [], q'))"

definition ReleaseInflight :: "gostring \<Rightarrow> u16 \<Rightarrow> QoSEngine \<Rightarrow> QoSEngine" where
  "ReleaseInflight clientID packetID q =
     (case map_of (q_inflight q) clientID of
        None \<Rightarrow> q
      | Some m \<Rightarrow> setClient clientID (mdel_key packetID m) q)"

definition AckPubRel :: "(qosAction \<Rightarrow> bool) \<Rightarrow> gostring \<Rightarrow> u16 \<Rightarrow> QoSEngine \<Rightarrow> qosAction list \<times> QoSEngine" where
  "AckPubRel fails clientID packetID q =
     (if cb_sendPubComp (q_callbacks q)
      then SendPubComp clientID packetID #
        (if fails (SendPubComp clientID packetID) then reportError clientID packetID ErrSend q else [])
      else [], AckQoS1 clientID packetID q)"

definition AckPubComp :: "gostring \<Rightarrow> u16 \<Rightarrow> QoSEngine \<Rightarrow> QoSEngine" where
  "AckPubComp clientID packetID q =
     (case map_of (q_inflight q) clientID of
        None \<Rightarrow> q
      | Some m \<Rightarrow> setClient clientID (mdel_key packetID m) q)"

definition RemoveClient :: "gostring \<Rightarrow> QoSEngine \<Rightarrow> QoSEngine" where
  "RemoveClient clientID q = q\<lparr>q_inflight := mdel_key clientID (q_inflight q),
     q_sessionVersions := mdel_key clientID (q_sessionVersions q)\<rparr>"

definition InflightCount :: "gostring \<Rightarrow> QoSEngine \<Rightarrow> nat" where
  "InflightCount clientID q = (case map_of (q_inflight q) clientID of None \<Rightarrow> 0 | Some m \<Rightarrow> length m)"

definition GetInflight :: "gostring \<Rightarrow> u16 \<Rightarrow> QoSEngine \<Rightarrow> InflightMessage option" where
  "GetInflight clientID packetID q =
     (case map_of (q_inflight q) clientID of None \<Rightarrow> None | Some m \<Rightarrow> map_of m packetID)"

section \<open>The retry tick\<close>

text \<open>
  One entry at time \<open>now\<close>: kept as it is, dropped with a report, or kept with its retry count
  raised and a copy to send.
\<close>

definition retryEntry :: "int \<Rightarrow> int \<Rightarrow> InflightMessage \<Rightarrow> InflightMessage option \<times> bool" where
  "retryEntry now interval msg =
     (if now - im_SentAt msg < interval then (Some msg, False)
      else if im_MaxRetries msg \<le> im_Retries msg then (None, False)
      else (Some (msg\<lparr>im_Retries := im_Retries msg + 1, im_SentAt := now\<rparr>), True))"

text \<open>The loop over the entries of one client: what is left, what to send and what was given up.\<close>

fun retryClient :: "int \<Rightarrow> int \<Rightarrow> gostring \<Rightarrow> (u16, InflightMessage) gomap \<Rightarrow>
  (u16, InflightMessage) gomap \<times> (gostring \<times> InflightMessage) list \<times> (gostring \<times> u16) list" where
  "retryClient now interval clientID [] = ([], [], [])"
| "retryClient now interval clientID ((packetID, msg) # m) =
     (case retryClient now interval clientID m of (m', toRetry, toReport) \<Rightarrow>
       (case retryEntry now interval msg of
          (None, _) \<Rightarrow> (m', toRetry, (clientID, packetID) # toReport)
        | (Some msg', resend) \<Rightarrow>
            ((packetID, msg') # m', if resend then (clientID, msg') # toRetry else toRetry, toReport)))"

fun retryClients :: "int \<Rightarrow> int \<Rightarrow> (gostring \<Rightarrow> bool) \<Rightarrow> (gostring, (u16, InflightMessage) gomap) gomap \<Rightarrow>
  (gostring, (u16, InflightMessage) gomap) gomap \<times> (gostring \<times> InflightMessage) list \<times> (gostring \<times> u16) list" where
  "retryClients now interval permitted [] = ([], [], [])"
| "retryClients now interval permitted ((clientID, m) # cs) =
     (case retryClients now interval permitted cs of (cs', toRetry, toReport) \<Rightarrow>
       (if \<not> permitted clientID then ((clientID, m) # cs', toRetry, toReport)
        else case retryClient now interval clientID m of
               (m', rs, es) \<Rightarrow> ((clientID, m') # cs', rs @ toRetry, es @ toReport)))"

definition reportActions :: "qosCallbacks \<Rightarrow> gostring \<times> u16 \<Rightarrow> qosAction list" where
  "reportActions cb cp =
     (if cb_onGiveUp cb then [OnGiveUp (fst cp) (snd cp)] else []) @
     (if cb_onError cb then [OnError (fst cp) (snd cp) ErrMaxRetriesExceeded] else [])"

definition retryActions :: "(qosAction \<Rightarrow> bool) \<Rightarrow> qosCallbacks \<Rightarrow> gostring \<times> InflightMessage \<Rightarrow> qosAction list" where
  "retryActions fails cb cm = (case cm of (clientID, msg) \<Rightarrow>
     (let send = (if im_IsOutbound msg \<and> im_QoS msg = 2 \<and> im_State msg = StateAcked
           then (if cb_sendPubRel cb then [SendPubRel clientID (im_PacketID msg)] else [])
           else (if cb_republish cb
             then [Republish clientID (im_PacketID msg) (im_Topic msg) (im_Payload msg) (im_QoS msg) (im_Retain msg)]
             else []))
      in send @ (if (\<exists>a \<in> set send. fails a) \<and> cb_onError cb then [OnError clientID (im_PacketID msg) ErrSend] else [])))"

definition doRetry :: "(qosAction \<Rightarrow> bool) \<Rightarrow> int \<Rightarrow> QoSEngine \<Rightarrow> qosAction list \<times> QoSEngine" where
  "doRetry fails now q =
     (case retryClients now (q_retryInterval q) (\<lambda>c. retransmitPermitted c q) (q_inflight q) of
        (m, toRetry, toReport) \<Rightarrow>
          (concat (map (reportActions (q_callbacks q)) toReport) @
           concat (map (retryActions fails (q_callbacks q)) toRetry),
           q\<lparr>q_inflight := m\<rparr>))"

section \<open>One entry at a time\<close>

text \<open>
  The table is well formed: keys are distinct, an entry carries its own key, its retry count is
  within bounds, and no client holds more entries than the limit.
\<close>

definition entryOk :: "gostring \<Rightarrow> u16 \<times> InflightMessage \<Rightarrow> bool" where
  "entryOk c pm \<longleftrightarrow> im_PacketID (snd pm) = fst pm \<and> im_ClientID (snd pm) = c \<and> 0 \<le> im_Retries (snd pm) \<and>
     (im_Retries (snd pm) \<le> im_MaxRetries (snd pm) \<or> im_Retries (snd pm) = 0)"

definition clientOk :: "int \<Rightarrow> gostring \<times> (u16, InflightMessage) gomap \<Rightarrow> bool" where
  "clientOk limit cm \<longleftrightarrow> mapOk (snd cm) \<and> list_all (entryOk (fst cm)) (snd cm) \<and>
     (0 < limit \<longrightarrow> int (length (snd cm)) \<le> limit)"

definition engineOk :: "QoSEngine \<Rightarrow> bool" where
  "engineOk q \<longleftrightarrow> mapOk (q_inflight q) \<and> list_all (clientOk (q_maxInflight q)) (q_inflight q)"

lemma list_all_keyed_update: "list_all P m \<Longrightarrow> P (k, v) \<Longrightarrow> list_all P (mset_key k v m)"
  by (induction m) auto

lemma list_all_keyed_delete: "list_all P m \<Longrightarrow> list_all P (mdel_key k m)"
  by (auto simp: list_all_iff AList.delete_eq)

lemma clientOk_lookup: "engineOk q \<Longrightarrow> map_of (q_inflight q) c = Some m \<Longrightarrow> clientOk (q_maxInflight q) (c, m)"
  by (auto simp: engineOk_def list_all_iff dest!: map_of_SomeD)

lemma clientOk_empty: "0 \<le> limit \<or> \<not> 0 < limit \<Longrightarrow> clientOk limit (c, [])"
  by (auto simp: clientOk_def)

lemma clientOk_clientInflight: "engineOk q \<Longrightarrow> clientOk (q_maxInflight q) (c, clientInflight c q)"
  by (auto simp: clientInflight_def clientOk_def dest: clientOk_lookup split: option.split)

lemma engineOk_setClient: "engineOk q \<Longrightarrow> clientOk (q_maxInflight q) (c, m) \<Longrightarrow> engineOk (setClient c m q)"
  by (simp add: engineOk_def setClient_def list_all_keyed_update)

lemma setClient_simps [simp]:
  "q_maxInflight (setClient c m q) = q_maxInflight q" "q_retryInterval (setClient c m q) = q_retryInterval q"
  "q_maxRetries (setClient c m q) = q_maxRetries q" "q_sessionVersions (setClient c m q) = q_sessionVersions q"
  "q_callbacks (setClient c m q) = q_callbacks q"
  "map_of (q_inflight (setClient c m q)) = (map_of (q_inflight q))(c \<mapsto> m)"
  by (simp_all add: setClient_def)

lemma GetInflight_setClient:
  "GetInflight d p (setClient c m q) = (if d = c then map_of m p else GetInflight d p q)"
  by (simp add: GetInflight_def)

lemma GetInflight_clientInflight: "GetInflight c p q = map_of (clientInflight c q) p"
  by (simp add: GetInflight_def clientInflight_def split: option.split)

lemma InflightCount_clientInflight: "InflightCount c q = length (clientInflight c q)"
  by (simp add: InflightCount_def clientInflight_def split: option.split)

lemma GetInflight_entryOk: "engineOk q \<Longrightarrow> GetInflight c p q = Some msg \<Longrightarrow> entryOk c (p, msg)"
  using clientOk_clientInflight [of q c]
  by (auto simp: GetInflight_clientInflight clientOk_def list_all_iff dest!: map_of_SomeD)

subsection \<open>Tracking and acknowledging\<close>

abbreviation (input) newEntry where
  "newEntry now c p topic payload retain qos outbound q \<equiv>
     \<lparr> im_PacketID = p, im_ClientID = c, im_State = StateSent, im_SentAt = now,
       im_Retries = 0, im_MaxRetries = q_maxRetries q, im_Topic = topic, im_Payload = payload,
       im_QoS = qos, im_Retain = retain, im_IsOutbound = outbound \<rparr>"

lemma track_cases:
  obtains (full) "0 < q_maxInflight q" "q_maxInflight q \<le> int (InflightCount c q)"
      "track now c p topic payload retain qos ob q = (Some ErrInflightFull, q)"
  | (stored) "\<not> (0 < q_maxInflight q \<and> q_maxInflight q \<le> int (InflightCount c q))" "fst (track now c p topic payload retain qos ob q) = None"
      "map_of (q_inflight (snd (track now c p topic payload retain qos ob q))) =
         (map_of (q_inflight q))(c \<mapsto> mset_key p (newEntry now c p topic payload retain qos ob q) (clientInflight c q))"
proof (cases "0 < q_maxInflight q \<and> q_maxInflight q \<le> int (InflightCount c q)")
  case True
  then obtain m where "map_of (q_inflight q) c = Some m" by (cases "map_of (q_inflight q) c") (auto simp: InflightCount_def)
  with True show thesis by (intro full) (simp_all add: track_def Let_def InflightCount_clientInflight)
next
  case False
  then show thesis
    by (intro stored) (auto simp: track_def Let_def InflightCount_clientInflight)
qed

lemma removed_GetInflight:
  "GetInflight d r (AckQoS1 c p q) = (if d = c \<and> r = p then None else GetInflight d r q)"
  "GetInflight d r (ReleaseInflight c p q) = (if d = c \<and> r = p then None else GetInflight d r q)"
  "GetInflight d r (AckPubComp c p q) = (if d = c \<and> r = p then None else GetInflight d r q)"
  by (simp_all add: AckQoS1_def ReleaseInflight_def AckPubComp_def GetInflight_def split: option.split)

lemma markAcked_GetInflight:
  "fst (markAcked c p q) \<longleftrightarrow> GetInflight c p q \<noteq> None"
  "GetInflight d r (snd (markAcked c p q)) =
     (if d = c \<and> r = p then map_option (\<lambda>msg. msg\<lparr>im_State := StateAcked\<rparr>) (GetInflight c p q) else GetInflight d r q)"
  by (auto simp: markAcked_def GetInflight_def split: option.split)

lemma RemoveClient_GetInflight: "GetInflight d r (RemoveClient c q) = (if d = c then None else GetInflight d r q)"
  by (simp add: RemoveClient_def GetInflight_def)

subsection \<open>The retry tick\<close>

lemma retryEntry_cases:
  "retryEntry now interval msg = (Some msg, False) \<or> retryEntry now interval msg = (None, False) \<or>
   retryEntry now interval msg = (Some (msg\<lparr>im_Retries := im_Retries msg + 1, im_SentAt := now\<rparr>), True) \<and>
     im_Retries msg < im_MaxRetries msg"
  by (auto simp: retryEntry_def)

lemma retryClient_keys: "r \<notin> fst ` set m \<Longrightarrow> r \<notin> fst ` set (fst (retryClient now interval c m))"
  by (induction now interval c m rule: retryClient.induct) (auto simp del: image_iff split: prod.split option.split)

lemma retryClient_mapOk: "mapOk m \<Longrightarrow> mapOk (fst (retryClient now interval c m))"
proof (induction now interval c m rule: retryClient.induct)
  case (2 now interval c p msg m)
  then show ?case using retryClient_keys [of p m now interval c] by (auto split: prod.splits option.splits)
qed simp

lemma retryClient_length: "length (fst (retryClient now interval c m)) \<le> length m"
  by (induction now interval c m rule: retryClient.induct) (auto split: prod.splits option.splits)

lemma retryClient_entryOk: "list_all (entryOk c) m \<Longrightarrow> list_all (entryOk c) (fst (retryClient now interval c m))"
proof (induction now interval c m rule: retryClient.induct)
  case (2 now interval c p msg m)
  then show ?case using retryEntry_cases [of now interval msg] by (auto simp: entryOk_def split: prod.splits)
qed simp

lemma retryClient_clientOk: "clientOk limit (c, m) \<Longrightarrow> clientOk limit (c, fst (retryClient now interval c m))"
  using retryClient_length [of now interval c m]
  by (auto simp: clientOk_def retryClient_mapOk retryClient_entryOk)

lemma retryClient_lookup:
  "mapOk m \<Longrightarrow> map_of (fst (retryClient now interval c m)) p =
     (case map_of m p of None \<Rightarrow> None | Some msg \<Rightarrow> fst (retryEntry now interval msg))"
proof (induction now interval c m rule: retryClient.induct)
  case (2 now interval c r msg m)
  obtain m' a b where m: "retryClient now interval c m = (m', a, b)" by (metis prod_cases3)
  have "map_of m' r = None" using retryClient_keys [of r m now interval c] "2.prems" m by (simp add: map_of_eq_None_iff)
  then show ?case using 2 m by (auto split: prod.splits option.splits)
qed simp

text \<open>The actions about one delivery.\<close>

fun actOn :: "gostring \<Rightarrow> u16 \<Rightarrow> qosAction \<Rightarrow> bool" where
  "actOn c p (SendPubRel d r) = (d = c \<and> r = p)"
| "actOn c p (SendPubComp d r) = (d = c \<and> r = p)"
| "actOn c p (Republish d r t pl qos rt) = (d = c \<and> r = p)"
| "actOn c p (OnGiveUp d r) = (d = c \<and> r = p)"
| "actOn c p (OnError d r e) = (d = c \<and> r = p)"

definition entryActions :: "(qosAction \<Rightarrow> bool) \<Rightarrow> qosCallbacks \<Rightarrow> int \<Rightarrow> int \<Rightarrow> gostring \<Rightarrow> u16 \<Rightarrow> InflightMessage \<Rightarrow> qosAction list" where
  "entryActions fails cb now interval c p msg =
     (case retryEntry now interval msg of
        (None, _) \<Rightarrow> reportActions cb (c, p)
      | (Some msg', resend) \<Rightarrow> if resend then retryActions fails cb (c, msg') else [])"

lemma reportActions_actOn:
  "filter (actOn c p) (reportActions cb (d, r)) = (if d = c \<and> r = p then reportActions cb (d, r) else [])"
  by (auto simp: reportActions_def)

lemma retryActions_actOn:
  "filter (actOn c p) (retryActions fails cb (d, msg)) =
     (if d = c \<and> im_PacketID msg = p then retryActions fails cb (d, msg) else [])"
  by (auto simp: retryActions_def Let_def)

text \<open>The reports and the sends of one loop that concern one delivery.\<close>

definition about :: "(qosAction \<Rightarrow> bool) \<Rightarrow> qosCallbacks \<Rightarrow> gostring \<Rightarrow> u16 \<Rightarrow>
  (gostring \<times> InflightMessage) list \<Rightarrow> (gostring \<times> u16) list \<Rightarrow> qosAction list \<times> qosAction list" where
  "about fails cb c p toRetry toReport =
     (filter (actOn c p) (concat (map (reportActions cb) toReport)),
      filter (actOn c p) (concat (map (retryActions fails cb) toRetry)))"

definition plus :: "qosAction list \<times> qosAction list \<Rightarrow> qosAction list \<times> qosAction list \<Rightarrow> qosAction list \<times> qosAction list" where
  "plus x y = (fst x @ fst y, snd x @ snd y)"

lemma about_simps:
  "about fails cb c p [] [] = ([], [])"
  "about fails cb c p (xs @ xs') (ys @ ys') = plus (about fails cb c p xs ys) (about fails cb c p xs' ys')"
  by (simp_all add: about_def plus_def)

lemma plus_simps [simp]: "plus ([], []) x = x" "plus x ([], []) = x"
  by (simp_all add: plus_def)

lemma retryClient_other:
  "d \<noteq> c \<or> p \<notin> fst ` set m \<Longrightarrow> list_all (entryOk d) m \<Longrightarrow> retryClient now interval d m = (m', a, b) \<Longrightarrow>
   about fails cb c p a b = ([], [])"
proof (induction now interval d m arbitrary: m' a b rule: retryClient.induct)
  case (2 now interval d r msg m)
  obtain m1 a1 b1 where m: "retryClient now interval d m = (m1, a1, b1)" by (metis prod_cases3)
  have "im_PacketID msg = r" using "2.prems"(2) by (simp add: entryOk_def)
  moreover have "about fails cb c p a1 b1 = ([], [])" using 2 m by auto
  ultimately show ?case using "2.prems" m retryEntry_cases [of now interval msg]
    by (auto simp: about_def reportActions_actOn retryActions_actOn)
qed (simp add: about_def)

lemma retryClient_about:
  "mapOk m \<Longrightarrow> list_all (entryOk c) m \<Longrightarrow> retryClient now interval c m = (m', a, b) \<Longrightarrow>
   fst (about fails cb c p a b) @ snd (about fails cb c p a b) =
     (case map_of m p of None \<Rightarrow> [] | Some msg \<Rightarrow> entryActions fails cb now interval c p msg)"
proof (induction now interval c m arbitrary: m' a b rule: retryClient.induct)
  case (2 now interval c r msg m)
  obtain m1 a1 b1 where m: "retryClient now interval c m = (m1, a1, b1)" by (metis prod_cases3)
  have id: "im_PacketID msg = r" using "2.prems"(2) by (simp add: entryOk_def)
  show ?case
  proof (cases "r = p")
    case True
    then have "about fails cb c p a1 b1 = ([], [])"
      using retryClient_other [OF _ _ m, of c p] "2.prems" by simp
    with "2.prems"(3) m id True retryEntry_cases [of now interval msg] show ?thesis
      by (auto simp: about_def entryActions_def reportActions_actOn retryActions_actOn)
  next
    case False
    with 2 m id retryEntry_cases [of now interval msg] show ?thesis
      by (auto simp: about_def reportActions_actOn retryActions_actOn)
  qed
qed (simp add: about_def)

subsection \<open>All clients\<close>

lemma retryClients_keys: "map fst (fst (retryClients now interval permitted cs)) = map fst cs"
  by (induction now interval permitted cs rule: retryClients.induct) (auto split: prod.splits)

lemma retryClients_lookup:
  "mapOk cs \<Longrightarrow> map_of (fst (retryClients now interval permitted cs)) c =
   (case map_of cs c of None \<Rightarrow> None | Some m \<Rightarrow> Some (if permitted c then fst (retryClient now interval c m) else m))"
proof (induction now interval permitted cs rule: retryClients.induct)
  case (2 now interval permitted d m cs)
  then show ?case by (auto split: prod.splits)
qed simp

lemma retryClients_clientOk:
  "list_all (clientOk limit) cs \<Longrightarrow> list_all (clientOk limit) (fst (retryClients now interval permitted cs))"
proof (induction now interval permitted cs rule: retryClients.induct)
  case (2 now interval permitted d m cs)
  then show ?case using retryClient_clientOk [of limit d m now interval] by (auto split: prod.splits)
qed simp

lemma retryClients_about:
  "mapOk cs \<Longrightarrow> list_all (clientOk limit) cs \<Longrightarrow> retryClients now interval permitted cs = (cs', a, b) \<Longrightarrow>
   about fails cb c p a b =
     (case map_of cs c of None \<Rightarrow> ([], [])
      | Some m \<Rightarrow> if permitted c then (case retryClient now interval c m of (m', a', b') \<Rightarrow> about fails cb c p a' b') else ([], []))"
proof (induction now interval permitted cs arbitrary: cs' a b rule: retryClients.induct)
  case (2 now interval permitted d m cs)
  obtain cs1 a1 b1 where cs: "retryClients now interval permitted cs = (cs1, a1, b1)" by (metis prod_cases3)
  obtain m2 a2 b2 where m: "retryClient now interval d m = (m2, a2, b2)" by (metis prod_cases3)
  note IH = "2.IH" [OF _ _ cs]
  have ok: "list_all (entryOk d) m" using "2.prems"(2) by (simp add: clientOk_def)
  have oth: "d \<noteq> c \<Longrightarrow> about fails cb c p a2 b2 = ([], [])" using retryClient_other [OF _ ok m] by simp
  have "map_of cs d = None" using "2.prems"(1) by (simp add: map_of_eq_None_iff)
  then show ?case using "2.prems" cs m IH oth by (auto simp: about_simps)
qed (simp add: about_simps)

lemma doRetry_GetInflight:
  assumes "engineOk q"
  shows "GetInflight c p (snd (doRetry fails now q)) =
    (if retransmitPermitted c q
     then (case GetInflight c p q of None \<Rightarrow> None | Some msg \<Rightarrow> fst (retryEntry now (q_retryInterval q) msg))
     else GetInflight c p q)"
proof -
  have ok: "mapOk (q_inflight q)" using assms by (simp add: engineOk_def)
  have "map_of (q_inflight q) c = Some m \<Longrightarrow> mapOk m" for m using clientOk_lookup [OF assms] by (simp add: clientOk_def)
  then show ?thesis
    using retryClients_lookup [OF ok, of now "q_retryInterval q" "\<lambda>c. retransmitPermitted c q" c]
    by (auto simp: doRetry_def GetInflight_def retryClient_lookup split: prod.splits option.splits)
qed

lemma doRetry_actions:
  assumes "engineOk q"
  shows "filter (actOn c p) (fst (doRetry fails now q)) =
    (if retransmitPermitted c q
     then (case GetInflight c p q of None \<Rightarrow> [] | Some msg \<Rightarrow> entryActions fails (q_callbacks q) now (q_retryInterval q) c p msg)
     else [])"
proof -
  obtain cs a b where r: "retryClients now (q_retryInterval q) (\<lambda>c. retransmitPermitted c q) (q_inflight q) = (cs, a, b)"
    by (metis prod_cases3)
  have ok: "mapOk (q_inflight q)" "list_all (clientOk (q_maxInflight q)) (q_inflight q)"
    using assms by (simp_all add: engineOk_def)
  have "filter (actOn c p) (fst (doRetry fails now q)) =
    fst (about fails (q_callbacks q) c p a b) @ snd (about fails (q_callbacks q) c p a b)"
    by (simp add: doRetry_def r about_def)
  also have "\<dots> = (if retransmitPermitted c q
     then (case GetInflight c p q of None \<Rightarrow> [] | Some msg \<Rightarrow> entryActions fails (q_callbacks q) now (q_retryInterval q) c p msg)
     else [])"
  proof (cases "map_of (q_inflight q) c")
    case None
    then show ?thesis by (simp add: retryClients_about [OF ok r] GetInflight_def)
  next
    case (Some m)
    obtain m2 a2 b2 where m: "retryClient now (q_retryInterval q) c m = (m2, a2, b2)" by (metis prod_cases3)
    have "mapOk m" "list_all (entryOk c) m" using clientOk_lookup [OF assms Some] by (simp_all add: clientOk_def)
    from retryClient_about [OF this m] Some show ?thesis
      by (simp add: retryClients_about [OF ok r] GetInflight_def m)
  qed
  finally show ?thesis .
qed

end
