(* ===== verification/Flapping.thy ===== *)
theory Flapping
  imports Prelude GoMap "HOL-Library.Code_Target_Numeral"
begin

text \<open>
  The detector of clients that reconnect in a tight loop, \<^verbatim>\<open>src/broker/flapping.go\<close>. Times are
  nanoseconds and the clock is an argument; a zero time is none. A slice keeps its capacity, since
  the detector relies on it. The cleanup goroutine is a call of its own. Lemmas: a client
  that tripped the limit is rejected until its penalty ends, which further attempts do not move,
  and the ring of timestamps can be driven into a state in which the limit is never enforced.
\<close>

section \<open>Configuration and state\<close>

record FlappingConfig =
  fc_Enabled :: bool
  fc_MaxConnects :: int
  fc_SlidingWindow :: int
  fc_PenaltyDuration :: int
  fc_MaxTrackedClients :: int
  fc_CleanupInterval :: int

definition applyDefaults :: "FlappingConfig \<Rightarrow> FlappingConfig" where
  "applyDefaults c0 =
     (let c1 = (if fc_MaxConnects c0 < 1 then c0\<lparr>fc_MaxConnects := 1\<rparr> else c0);
          c2 = (if fc_SlidingWindow c1 \<le> 0 then c1\<lparr>fc_SlidingWindow := seconds 10\<rparr> else c1);
          c3 = (if fc_PenaltyDuration c2 \<le> 0 then c2\<lparr>fc_PenaltyDuration := seconds 60\<rparr> else c2);
          c4 = (if fc_MaxTrackedClients c3 = 0 then c3\<lparr>fc_MaxTrackedClients := 10000\<rparr> else c3)
      in if fc_CleanupInterval c4 \<le> 0 then c4\<lparr>fc_CleanupInterval := fc_SlidingWindow c4\<rparr> else c4)"

datatype FlappingDecision = FlapAllow | FlapRejected | FlapExceeded

record flappingEntry =
  fe_stamps :: "int list"
  fe_cap :: nat
  fe_head :: nat
  fe_penalizedUntil :: "int option"
  fe_lastSeen :: "int option"
  fe_alias :: "gostring list"

definition zeroEntry :: flappingEntry where
  "zeroEntry = \<lparr> fe_stamps = [], fe_cap = 0, fe_head = 0, fe_penalizedUntil = None, fe_lastSeen = None, fe_alias = [] \<rparr>"

record FlappingDetector =
  fd_cfg :: FlappingConfig
  fd_keys :: "(gostring, flappingEntry) gomap"

definition NewFlappingDetector :: "FlappingConfig \<Rightarrow> FlappingDetector" where
  "NewFlappingDetector cfg = \<lparr> fd_cfg = applyDefaults cfg, fd_keys = [] \<rparr>"

section \<open>Operations\<close>

definition penalizedAt :: "int \<Rightarrow> flappingEntry \<Rightarrow> bool" where
  "penalizedAt now e \<longleftrightarrow> (case fe_penalizedUntil e of None \<Rightarrow> False | Some t \<Rightarrow> now < t)"

text \<open>The least recently seen quarter of the keys; a zero time is before any other.\<close>

definition seenBefore :: "int option \<Rightarrow> int option \<Rightarrow> bool" where
  "seenBefore s t \<longleftrightarrow> (case (s, t) of (_, None) \<Rightarrow> False | (None, Some _) \<Rightarrow> True | (Some a, Some b) \<Rightarrow> a < b)"

text \<open>Sorting by \<open>lastSeen\<close>; the order of equal times is that of the map, which is arbitrary.\<close>

fun insertAged :: "gostring \<times> int option \<Rightarrow> (gostring \<times> int option) list \<Rightarrow> (gostring \<times> int option) list" where
  "insertAged x [] = [x]"
| "insertAged x (y # ys) = (if seenBefore (snd y) (snd x) then y # insertAged x ys else x # y # ys)"

definition evictOldestLocked :: "FlappingDetector \<Rightarrow> FlappingDetector" where
  "evictOldestLocked d =
     (let target0 = length (fd_keys d) div 4;
          target1 = (if target0 < 1 then 1 else target0);
          target = (if length (fd_keys d) < target1 then length (fd_keys d) else target1);
          candidates = foldr insertAged (map (\<lambda>(k, e). (k, fe_lastSeen e)) (fd_keys d)) []
      in d\<lparr>fd_keys := fold mdel_key (map fst (take target candidates)) (fd_keys d)\<rparr>)"

text \<open>The entry of a key, made for a new key after making room.\<close>

definition ensureKey :: "gostring \<Rightarrow> FlappingDetector \<Rightarrow> flappingEntry \<times> FlappingDetector" where
  "ensureKey key d = (case map_of (fd_keys d) key of
     Some e \<Rightarrow> (e, d)
   | None \<Rightarrow>
       let d1 = (if 0 < fc_MaxTrackedClients (fd_cfg d) \<and> fc_MaxTrackedClients (fd_cfg d) \<le> int (length (fd_keys d))
                 then evictOldestLocked d else d);
           e = zeroEntry\<lparr>fe_cap := nat (fc_MaxConnects (fd_cfg d) + 1)\<rparr>
       in (e, d1\<lparr>fd_keys := mset_key key e (fd_keys d1)\<rparr>))"

text \<open>The timestamps before the cutoff are passed over, and dropped when they dominate.\<close>

definition pruneRing :: "int \<Rightarrow> flappingEntry \<Rightarrow> flappingEntry" where
  "pruneRing cutoff e =
     (let head = fe_head e + length (takeWhile (\<lambda>t. t < cutoff) (drop (fe_head e) (fe_stamps e)))
      in if 0 < head \<and> length (fe_stamps e) \<le> head * 2
         then e\<lparr>fe_stamps := drop head (fe_stamps e), fe_head := 0\<rparr> else e\<lparr>fe_head := head\<rparr>)"

text \<open>A new timestamp; none for the index out of range of a ring without capacity.\<close>

definition stampRing :: "int \<Rightarrow> flappingEntry \<Rightarrow> flappingEntry option" where
  "stampRing now e =
     (if length (fe_stamps e) < fe_cap e then Some (e\<lparr>fe_stamps := fe_stamps e @ [now], fe_lastSeen := Some now\<rparr>)
      else if fe_head e < length (fe_stamps e)
      then Some (e\<lparr>fe_stamps := (fe_stamps e)[fe_head e := now], fe_lastSeen := Some now\<rparr>)
      else None)"

definition recordAttempt :: "gostring \<Rightarrow> int \<Rightarrow> FlappingDetector \<Rightarrow> (bool \<times> FlappingDetector) option" where
  "recordAttempt key now d0 =
     (if key = [] then Some (False, d0)
      else (case ensureKey key d0 of (e0, d) \<Rightarrow>
        (case stampRing now (pruneRing (now - fc_SlidingWindow (fd_cfg d)) e0) of
           None \<Rightarrow> None
         | Some e \<Rightarrow> Some (fc_MaxConnects (fd_cfg d) < int (length (fe_stamps e)) - int (fe_head e),
             d\<lparr>fd_keys := mset_key key e (fd_keys d)\<rparr>))))"

definition penalize :: "gostring \<Rightarrow> int \<Rightarrow> FlappingDetector \<Rightarrow> FlappingDetector" where
  "penalize key now d =
     (if key = [] then d
      else (let e = (case map_of (fd_keys d) key of None \<Rightarrow> zeroEntry | Some e \<Rightarrow> e)
            in d\<lparr>fd_keys := mset_key key (e\<lparr> fe_penalizedUntil := Some (now + fc_PenaltyDuration (fd_cfg d)),
                   fe_stamps := [], fe_head := 0, fe_lastSeen := Some now \<rparr>) (fd_keys d)\<rparr>))"

definition addAlias :: "gostring \<Rightarrow> flappingEntry \<Rightarrow> flappingEntry" where
  "addAlias k e = (if k \<in> set (fe_alias e) then e else e\<lparr>fe_alias := fe_alias e @ [k]\<rparr>)"

definition link :: "gostring \<Rightarrow> gostring \<Rightarrow> FlappingDetector \<Rightarrow> FlappingDetector" where
  "link a b d =
     (if a = [] \<or> b = [] \<or> a = b then d
      else (case (map_of (fd_keys d) a, map_of (fd_keys d) b) of
              (Some ea, Some eb) \<Rightarrow> d\<lparr>fd_keys := mset_key b (addAlias a eb) (mset_key a (addAlias b ea) (fd_keys d))\<rparr>
            | _ \<Rightarrow> d))"

text \<open>A penalty of a key, which is looked up and noted as seen.\<close>

definition inPenalty :: "gostring \<Rightarrow> int \<Rightarrow> FlappingDetector \<Rightarrow> FlappingDetector option" where
  "inPenalty key now d = (if key = [] then None
     else (case map_of (fd_keys d) key of None \<Rightarrow> None
        | Some e \<Rightarrow> if penalizedAt now e
            then Some (d\<lparr>fd_keys := mset_key key (e\<lparr>fe_lastSeen := Some now\<rparr>) (fd_keys d)\<rparr>) else None))"

definition Check :: "gostring \<Rightarrow> gostring \<Rightarrow> int \<Rightarrow> FlappingDetector \<Rightarrow> (FlappingDecision \<times> FlappingDetector) option" where
  "Check ip clientID now d =
     (if \<not> fc_Enabled (fd_cfg d) then Some (FlapAllow, d)
      else (case inPenalty ip now d of Some d' \<Rightarrow> Some (FlapRejected, d')
       | None \<Rightarrow>
      (case inPenalty clientID now d of Some d' \<Rightarrow> Some (FlapRejected, d')
       | None \<Rightarrow>
      (case recordAttempt ip now d of None \<Rightarrow> None
       | Some (ipExceeded, d1) \<Rightarrow>
      (case recordAttempt clientID now d1 of None \<Rightarrow> None
       | Some (idExceeded, d2) \<Rightarrow>
           let d3 = link ip clientID d2 in
           if ipExceeded \<or> idExceeded then Some (FlapExceeded, penalize clientID now (penalize ip now d3))
           else Some (FlapAllow, d3))))))"

definition PenaltyRemaining :: "gostring \<Rightarrow> int \<Rightarrow> FlappingDetector \<Rightarrow> int option" where
  "PenaltyRemaining key now d =
     (if \<not> fc_Enabled (fd_cfg d) \<or> key = [] then None
      else (case map_of (fd_keys d) key of None \<Rightarrow> None
        | Some e \<Rightarrow> (case fe_penalizedUntil e of None \<Rightarrow> None | Some t \<Rightarrow> if t - now \<le> 0 then None else Some (t - now))))"

definition Reset :: "gostring \<Rightarrow> FlappingDetector \<Rightarrow> FlappingDetector" where
  "Reset key d =
     (let aliases = (case map_of (fd_keys d) key of None \<Rightarrow> [] | Some e \<Rightarrow> fe_alias e)
      in d\<lparr>fd_keys := mdel_key key (fold mdel_key aliases (fd_keys d))\<rparr>)"

definition Tracked :: "FlappingDetector \<Rightarrow> nat" where
  "Tracked d = length (fd_keys d)"

definition Cleanup :: "int \<Rightarrow> FlappingDetector \<Rightarrow> FlappingDetector" where
  "Cleanup now d =
     (let cutoff = now - fc_SlidingWindow (fd_cfg d) in
      d\<lparr>fd_keys := filter (\<lambda>(k, e). penalizedAt now e \<or> list_ex (\<lambda>t. cutoff \<le> t) (drop (fe_head e) (fe_stamps e))) (fd_keys d)\<rparr>)"

section \<open>Attempts in a row\<close>

fun attempts :: "gostring \<Rightarrow> gostring \<Rightarrow> int list \<Rightarrow> FlappingDetector \<Rightarrow> (FlappingDecision list \<times> FlappingDetector) option" where
  "attempts ip clientID [] d = Some ([], d)"
| "attempts ip clientID (t # ts) d = (case Check ip clientID t d of None \<Rightarrow> None
     | Some (r, d1) \<Rightarrow> (case attempts ip clientID ts d1 of None \<Rightarrow> None | Some (rs, d2) \<Rightarrow> Some (r # rs, d2)))"

section \<open>Penalties\<close>

lemma penalize_until:
  "key \<noteq> [] \<Longrightarrow> map_option fe_penalizedUntil (map_of (fd_keys (penalize key now d)) key) = Some (Some (now + fc_PenaltyDuration (fd_cfg d)))"
  "k \<noteq> key \<Longrightarrow> map_of (fd_keys (penalize key now d)) k = map_of (fd_keys d) k"
  "fd_cfg (penalize key now d) = fd_cfg d"
  by (simp_all add: penalize_def Let_def)

lemma evict_cfg [simp]: "fd_cfg (evictOldestLocked d) = fd_cfg d"
  by (simp add: evictOldestLocked_def Let_def)

lemma ensureKey_cfg: "fd_cfg (snd (ensureKey key d)) = fd_cfg d"
  by (simp add: ensureKey_def Let_def split: option.split)

lemma recordAttempt_cfg: "recordAttempt key now d = Some (r, d') \<Longrightarrow> fd_cfg d' = fd_cfg d"
  using ensureKey_cfg [of key d] by (auto simp: recordAttempt_def split: if_splits option.splits prod.splits)

lemma link_cfg [simp]: "fd_cfg (link a b d) = fd_cfg d"
  by (simp add: link_def split: option.split)

lemma inPenalty_until:
  assumes "map_option fe_penalizedUntil (map_of (fd_keys d) key) = Some (Some t)" "key \<noteq> []" "now < t"
  shows "\<exists>d'. inPenalty key now d = Some d' \<and> map_option fe_penalizedUntil (map_of (fd_keys d') key) = Some (Some t)"
  using assms by (auto simp: inPenalty_def penalizedAt_def split: option.split)

text \<open>
  An attempt that trips the limit starts a penalty for the address and the client; a later attempt
  within it is rejected and leaves the end of the penalty where it was.
\<close>

lemma exceeded_penalty:
  assumes "Check ip c now d = Some (FlapExceeded, d')" "ip \<noteq> []"
  shows "fc_Enabled (fd_cfg d') \<and> map_option fe_penalizedUntil (map_of (fd_keys d') ip) = Some (Some (now + fc_PenaltyDuration (fd_cfg d')))"
proof -
  obtain x d1 y d2 where "fc_Enabled (fd_cfg d)" "recordAttempt ip now d = Some (x, d1)" "recordAttempt c now d1 = Some (y, d2)"
    and d': "d' = penalize c now (penalize ip now (link ip c d2))"
    using assms(1) by (auto simp: Check_def Let_def split: if_splits option.splits)
  moreover have "map_option fe_penalizedUntil (map_of (fd_keys d') ip) = Some (Some (now + fc_PenaltyDuration (fd_cfg d')))"
    using assms(2) penalize_until [where key = ip and d = "link ip c d2" and now = now]
      penalize_until [where key = c and d = "penalize ip now (link ip c d2)" and now = now]
    by (cases "c = ip"; cases "c = []") (simp_all add: d')
  ultimately show ?thesis by (auto simp: d' penalize_until recordAttempt_cfg)
qed

lemma penalty_rejects:
  assumes "Check ip c now d = Some (FlapExceeded, d')" "ip \<noteq> []" "t < now + fc_PenaltyDuration (fd_cfg d')"
  shows "\<exists>d''. Check ip c' t d' = Some (FlapRejected, d'') \<and>
    map_option fe_penalizedUntil (map_of (fd_keys d'') ip) = map_option fe_penalizedUntil (map_of (fd_keys d') ip)"
  using exceeded_penalty [OF assms(1,2)] inPenalty_until [of d' ip "now + fc_PenaltyDuration (fd_cfg d')" t] assms(2,3)
  by (auto simp: Check_def)

section \<open>The limit can be evaded\<close>

text \<open>At most three connections in ten seconds.\<close>

definition flapConfig :: FlappingConfig where
  "flapConfig = \<lparr> fc_Enabled = True, fc_MaxConnects = 3, fc_SlidingWindow = seconds 10, fc_PenaltyDuration = seconds 60,
     fc_MaxTrackedClients = 0, fc_CleanupInterval = 0 \<rparr>"

text \<open>The ring once it is full and its first entry is dead: the slot at the head is overwritten.\<close>

definition stuckRing :: "int \<Rightarrow> FlappingDetector" where
  "stuckRing prev = \<lparr> fd_cfg = applyDefaults flapConfig, fd_keys = [([49],
     \<lparr> fe_stamps = [0, prev, seconds 7, seconds 10 + 500], fe_cap = 4, fe_head = 1, fe_penalizedUntil = None,
       fe_lastSeen = Some prev, fe_alias = [] \<rparr>)] \<rparr>"

lemma stuckRing_reached:
  "attempts [49] [] [0, seconds 6, seconds 7, seconds 10 + 500, seconds 11] (NewFlappingDetector flapConfig) =
     Some (replicate 5 FlapAllow, stuckRing (seconds 11))"
  by code_simp

lemma stuckRing_step:
  assumes "prev \<le> t" "t \<le> prev + seconds 10" "0 < t - seconds 10"
  shows "Check [49] [] t (stuckRing prev) = Some (FlapAllow, stuckRing t)"
  using assms by (simp add: Check_def inPenalty_def recordAttempt_def ensureKey_def pruneRing_def stampRing_def stuckRing_def link_def penalizedAt_def applyDefaults_def
      flapConfig_def Let_def)

lemma attempts_append:
  "attempts ip c (ts @ us) d = (case attempts ip c ts d of None \<Rightarrow> None
     | Some (rs, d1) \<Rightarrow> (case attempts ip c us d1 of None \<Rightarrow> None | Some (rs', d2) \<Rightarrow> Some (rs @ rs', d2)))"
  by (induction ts arbitrary: d) (auto split: option.split prod.split)

lemma stuckRing_run:
  "seconds 11 \<le> p \<Longrightarrow> attempts [49] [] (map (\<lambda>k. p + 1 + int k) [0..<n]) (stuckRing p) =
     Some (replicate n FlapAllow, stuckRing (p + int n))"
proof (induction n)
  case (Suc n)
  have "Check [49] [] (p + 1 + int n) (stuckRing (p + int n)) = Some (FlapAllow, stuckRing (p + 1 + int n))"
    using Suc.prems by (intro stuckRing_step) simp_all
  with Suc show ?case by (simp add: attempts_append replicate_append_same add.commute add.left_commute)
qed simp

text \<open>
  C25. The limit is not enforced. A detector that allows three connections in ten seconds accepts,
  from one address, any number of connections one nanosecond apart: after five attempts at chosen
  times its ring of timestamps is full with a dead first entry, every further attempt overwrites
  the slot at the head instead of being counted, and keeps it there.
\<close>

theorem flapping_limit_evaded:
  "map_option fst (attempts [49] []
     ([0, seconds 6, seconds 7, seconds 10 + 500, seconds 11] @ map (\<lambda>k. seconds 11 + 1 + int k) [0..<n])
     (NewFlappingDetector flapConfig)) = Some (replicate (5 + n) FlapAllow)"
  unfolding attempts_append stuckRing_reached replicate_add using stuckRing_run [OF order_refl, of n] by simp

end
