(* ===== verification/StoreTypes.thy ===== *)
theory StoreTypes
  imports Packets GoMap "HOL-Library.Code_Target_Numeral"
begin

text \<open>
  The records of the storage layer, \<^verbatim>\<open>src/store/types.go\<close>, and the property sets of
  \<^verbatim>\<open>src/broker/publish_properties.go\<close>: what is forwarded to a subscriber, what is kept with a
  stored message and what is put back on the wire. A \<^verbatim>\<open>time.Time\<close> is a number of nanoseconds,
  and one that may be zero is an option.
\<close>

datatype storeErr = ErrSessionNotFound | ErrMessageNotFound | ErrRetainedNotFound | ErrStoreUnavailable

section \<open>The stored records\<close>

text \<open>A message identifier is printed from a clock value and a sequence number; here it is the pair.\<close>

record StoreUserProperty =
  sup_Key :: gostring
  sup_Value :: gostring

record MessageProperties =
  mp_PayloadFormat :: "byte option"
  mp_ContentType :: gostring
  mp_ResponseTopic :: gostring
  mp_CorrelationData :: "byte list option"
  mp_UserProperties :: "StoreUserProperty list"
  mp_SubscriptionIdentifier :: "u32 list"

record StoreInflight =
  si_PacketID :: u16
  si_QoS :: byte
  si_Topic :: gostring
  si_Payload :: "byte list"
  si_Retain :: bool
  si_Properties :: MessageProperties
  si_ExpiresAt :: "int option"
  si_PendingPubRel :: bool

record StoreSubscription =
  sub_Topic :: gostring
  sub_QoS :: byte
  sub_NoLocal :: bool
  sub_RetainAsPublished :: bool
  sub_RetainHandling :: byte
  sub_SubscriptionIdentifier :: "u32 option"

record SessionData =
  sd_ClientID :: gostring
  sd_Username :: gostring
  sd_IsClean :: bool
  sd_KeepAlive :: u16
  sd_ProtocolVer :: byte
  sd_ExpiryInterval :: u32
  sd_ExpiryTime :: "int option"
  sd_Subscriptions :: "StoreSubscription list"
  sd_Inflight :: "(u16, StoreInflight) gomap"
  sd_InboundQoS2 :: "(u16, StoreInflight) gomap"

record StoredMessage =
  sm_ID :: "int \<times> nat"
  sm_Topic :: gostring
  sm_QoS :: byte
  sm_Payload :: "byte list"
  sm_Retain :: bool
  sm_Timestamp :: int
  sm_ExpiresAt :: "int option"

record RetainedMessage =
  rm_Topic :: gostring
  rm_QoS :: byte
  rm_Payload :: "byte list"
  rm_Timestamp :: "int option"
  rm_Properties :: MessageProperties
  rm_ExpiresAt :: "int option"

definition emptyMessageProperties :: MessageProperties where
  "emptyMessageProperties = \<lparr> mp_PayloadFormat = None, mp_ContentType = [], mp_ResponseTopic = [],
     mp_CorrelationData = None, mp_UserProperties = [], mp_SubscriptionIdentifier = [] \<rparr>"

section \<open>Property sets\<close>

text \<open>
  \<open>remainingExpiry\<close> at time \<open>now\<close>. The quotient is converted to 32 bits, as the source does.
\<close>

definition remainingExpiry :: "int \<Rightarrow> int \<Rightarrow> u32" where
  "remainingExpiry now expiresAt =
     (let d = expiresAt - now in
      if d \<le> 0 then 0
      else let d' = (if d < seconds 1 then seconds 1 else d) in word_of_int (d' div seconds 1))"

definition hasRelayData :: "Properties \<Rightarrow> bool" where
  "hasRelayData p \<longleftrightarrow> PayloadFormat p \<noteq> None \<or> ContentType p \<noteq> [] \<or> ResponseTopic p \<noteq> [] \<or>
     CorrelationData p \<noteq> None \<or> 0 < length (UserProperties p)"

definition relayData :: "Properties \<Rightarrow> Properties" where
  "relayData p = emptyProperties\<lparr> PayloadFormat := PayloadFormat p, ContentType := ContentType p,
     ResponseTopic := ResponseTopic p, CorrelationData := CorrelationData p, UserProperties := UserProperties p \<rparr>"

definition forwardedPublishProperties ::
  "int \<Rightarrow> Properties option \<Rightarrow> u32 list \<Rightarrow> int option \<Rightarrow> Properties option" where
  "forwardedPublishProperties now inp subIDs expiresAt =
     (let out = (case inp of None \<Rightarrow> None | Some p \<Rightarrow> if hasRelayData p then Some (relayData p) else None) in
      if subIDs = [] \<and> expiresAt = None then out
      else let o1 = (case out of None \<Rightarrow> emptyProperties | Some p \<Rightarrow> p);
               o2 = o1\<lparr>SubscriptionIdentifier := subIDs\<rparr>
           in Some (case expiresAt of None \<Rightarrow> o2
                    | Some t \<Rightarrow> o2\<lparr>MessageExpiryInterval := Some (remainingExpiry now t)\<rparr>))"

definition storeProperties :: "Properties option \<Rightarrow> MessageProperties" where
  "storeProperties po = (case po of None \<Rightarrow> emptyMessageProperties
     | Some p \<Rightarrow> \<lparr> mp_PayloadFormat = PayloadFormat p, mp_ContentType = ContentType p,
         mp_ResponseTopic = ResponseTopic p, mp_CorrelationData = CorrelationData p,
         mp_UserProperties = map (\<lambda>u. \<lparr> sup_Key = up_Key u, sup_Value = up_Value u \<rparr>) (UserProperties p),
         mp_SubscriptionIdentifier = SubscriptionIdentifier p \<rparr>)"

definition protocolProperties :: "MessageProperties \<Rightarrow> Properties option" where
  "protocolProperties sp =
     (if mp_PayloadFormat sp = None \<and> mp_ContentType sp = [] \<and> mp_ResponseTopic sp = [] \<and>
         mp_CorrelationData sp = None \<and> length (mp_UserProperties sp) = 0 \<and>
         length (mp_SubscriptionIdentifier sp) = 0
      then None
      else Some (emptyProperties\<lparr> PayloadFormat := mp_PayloadFormat sp, ContentType := mp_ContentType sp,
         ResponseTopic := mp_ResponseTopic sp, CorrelationData := mp_CorrelationData sp,
         SubscriptionIdentifier := mp_SubscriptionIdentifier sp,
         UserProperties := map (\<lambda>u. \<lparr> up_Key = sup_Key u, up_Value = sup_Value u \<rparr>) (mp_UserProperties sp) \<rparr>))"

text \<open>
  A set is relay only when it holds nothing but what is stored; such a set survives the store,
  except that a set with nothing in it comes back as no set.
\<close>

definition relayOnly :: "Properties \<Rightarrow> bool" where
  "relayOnly p \<longleftrightarrow> p = (relayData p)\<lparr>SubscriptionIdentifier := SubscriptionIdentifier p\<rparr>"

lemma storeUserProperties [simp]:
  "map ((\<lambda>u. \<lparr> up_Key = sup_Key u, up_Value = sup_Value u \<rparr>) \<circ> (\<lambda>u. \<lparr> sup_Key = up_Key u, sup_Value = up_Value u \<rparr>)) us = us"
  by (induction us) simp_all

lemma protocolProperties_store:
  "protocolProperties (storeProperties (Some p)) =
     (if hasRelayData p \<or> SubscriptionIdentifier p \<noteq> []
      then Some ((relayData p)\<lparr>SubscriptionIdentifier := SubscriptionIdentifier p\<rparr>) else None)"
  by (auto simp: protocolProperties_def storeProperties_def hasRelayData_def relayData_def emptyProperties_def)

lemma protocolProperties_none [simp]: "protocolProperties (storeProperties None) = None"
  by (simp add: protocolProperties_def storeProperties_def emptyMessageProperties_def)

lemma remainingExpiry_zero: "expiresAt \<le> now \<Longrightarrow> remainingExpiry now expiresAt = 0"
  by (simp add: remainingExpiry_def)

end
