(* ===== verification/RateLimit.thy ===== *)
theory RateLimit
  imports Prelude Complex_Main "HOL-Library.Code_Target_Numeral"
begin

text \<open>
  The two rate limiters of \<^verbatim>\<open>src/broker/rate_limit.go\<close>: the sliding window over connection
  attempts and the fixed window over the publishes of one client. The clock is an argument. The
  configured connection rate is a rational number, the product with the window is exact.
\<close>

section \<open>Connections\<close>

record connRateLimiter =
  cr_window :: int
  cr_maxRate :: rat
  cr_timestamps :: "int list"

definition newConnRateLimiter :: "int \<Rightarrow> connRateLimiter" where
  "newConnRateLimiter window = \<lparr> cr_window = window, cr_maxRate = 0, cr_timestamps = [] \<rparr>"

text \<open>The pruning loop stops at the first timestamp after the cutoff.\<close>

fun pruneBefore :: "int \<Rightarrow> int list \<Rightarrow> int list" where
  "pruneBefore cutoff [] = []"
| "pruneBefore cutoff (ts # tss) = (if cutoff < ts then ts # tss else pruneBefore cutoff tss)"

definition maxInWindow :: "connRateLimiter \<Rightarrow> int" where
  "maxInWindow r =
     (let n = \<lceil>cr_maxRate r * (of_int (cr_window r) / 1000000000)\<rceil> in if n < 1 then 1 else n)"

definition AllowConn :: "int \<Rightarrow> connRateLimiter \<Rightarrow> bool \<times> connRateLimiter" where
  "AllowConn now r =
     (if cr_maxRate r \<le> 0 then (True, r)
      else let kept = pruneBefore (now - cr_window r) (cr_timestamps r) in
        if maxInWindow r \<le> int (length kept) then (False, r\<lparr>cr_timestamps := kept\<rparr>)
        else (True, r\<lparr>cr_timestamps := kept @ [now]\<rparr>))"

definition SetRate :: "rat \<Rightarrow> connRateLimiter \<Rightarrow> connRateLimiter" where
  "SetRate rate r = r\<lparr>cr_maxRate := rate\<rparr>"

section \<open>Publishes of one client\<close>

record publishRateTracker =
  pr_window :: int
  pr_maxRate :: int
  pr_count :: int
  pr_windowStart :: int

definition newPublishRateTracker :: "int \<Rightarrow> int \<Rightarrow> publishRateTracker" where
  "newPublishRateTracker now window = \<lparr> pr_window = window, pr_maxRate = 0, pr_count = 0, pr_windowStart = now \<rparr>"

definition AllowPublish :: "int \<Rightarrow> publishRateTracker \<Rightarrow> bool \<times> publishRateTracker" where
  "AllowPublish now t =
     (if pr_maxRate t \<le> 0 then (True, t)
      else let t' = (if pr_window t \<le> now - pr_windowStart t then t\<lparr>pr_count := 0, pr_windowStart := now\<rparr> else t) in
        if pr_maxRate t' \<le> pr_count t' then (False, t')
        else (True, t'\<lparr>pr_count := pr_count t' + 1\<rparr>))"

definition SetMaxRate :: "int \<Rightarrow> publishRateTracker \<Rightarrow> publishRateTracker" where
  "SetMaxRate rate t = t\<lparr>pr_maxRate := rate\<rparr>"

section \<open>The bound on connections\<close>

lemma pruneBefore_sorted: "sorted tss \<Longrightarrow> pruneBefore c tss = filter (\<lambda>t. c < t) tss"
  by (induction tss) (auto intro!: filter_True [symmetric])

lemma filter_filter_le: "c \<le> d \<Longrightarrow> filter (\<lambda>t. (d :: int) < t) (filter (\<lambda>t. c < t) xs) = filter (\<lambda>t. d < t) xs"
  by (induction xs) auto

text \<open>The limiter over a sequence of attempts: the times of those it let through.\<close>

fun connRun :: "int list \<Rightarrow> connRateLimiter \<Rightarrow> int list" where
  "connRun [] r = []"
| "connRun (now # nows) r =
     (case AllowConn now r of (ok, r') \<Rightarrow> (if ok then now # connRun nows r' else connRun nows r'))"

text \<open>
  The limiter remembers the accepted times \<open>hist\<close> after its last cutoff \<open>c\<close>, and no window
  holds more than its share of them.
\<close>

definition rateInv :: "int list \<Rightarrow> int \<Rightarrow> connRateLimiter \<Rightarrow> bool" where
  "rateInv hist now r \<longleftrightarrow> 0 < cr_window r \<and> sorted hist \<and> (\<forall>t \<in> set hist. t \<le> now) \<and>
     (\<exists>c \<le> now - cr_window r. cr_timestamps r = filter (\<lambda>t. c < t) hist) \<and>
     (\<forall>t. int (length (filter (\<lambda>x. t - cr_window r < x \<and> x \<le> t) hist)) \<le> maxInWindow r)"

lemma AllowConn_keeps: "cr_window (snd (AllowConn now r)) = cr_window r" "cr_maxRate (snd (AllowConn now r)) = cr_maxRate r"
  "maxInWindow (snd (AllowConn now r)) = maxInWindow r"
  by (simp_all add: AllowConn_def maxInWindow_def Let_def)

lemma rateInv_accept:
  assumes inv: "rateInv hist t0 r" and le: "t0 \<le> now"
    and room: "int (length (filter (\<lambda>t. now - cr_window r < t) hist)) < maxInWindow r"
  shows "int (length (filter (\<lambda>x. t - cr_window r < x \<and> x \<le> t) (hist @ [now]))) \<le> maxInWindow r"
proof (cases "t < now")
  case True
  thus ?thesis using inv by (simp add: rateInv_def)
next
  case False
  have "length (filter (\<lambda>x. t - cr_window r < x \<and> x \<le> t) hist) \<le> length (filter (\<lambda>x. now - cr_window r < x) hist)"
  proof -
    have "filter (\<lambda>x. t - cr_window r < x \<and> x \<le> t) hist = filter (\<lambda>x. t - cr_window r < x \<and> x \<le> t) (filter (\<lambda>x. now - cr_window r < x) hist)"
      unfolding filter_filter using False by (intro filter_cong) auto
    thus ?thesis by (metis length_filter_le)
  qed
  with room show ?thesis by auto
qed

lemma rateInv_step:
  assumes inv: "rateInv hist t0 r" and le: "t0 \<le> now" and rate: "0 < cr_maxRate r"
    and a: "AllowConn now r = (ok, r')"
  shows "rateInv (if ok then hist @ [now] else hist) now r'"
proof -
  obtain c where c: "c \<le> t0 - cr_window r" "cr_timestamps r = filter (\<lambda>t. c < t) hist" and s: "sorted hist"
    and h: "\<forall>t \<in> set hist. t \<le> t0"
    using inv by (auto simp: rateInv_def)
  have k: "pruneBefore (now - cr_window r) (cr_timestamps r) = filter (\<lambda>t. now - cr_window r < t) hist"
    unfolding c(2) pruneBefore_sorted [OF sorted_wrt_filter [OF s]] by (rule filter_filter_le) (use c(1) le in linarith)
  have r': "cr_window r' = cr_window r" "maxInWindow r' = maxInWindow r" using AllowConn_keeps [of now r] a by simp_all
  show ?thesis
  proof (cases ok)
    case True
    with a rate k have t: "cr_timestamps r' = filter (\<lambda>t. now - cr_window r < t) hist @ [now]"
      and room: "int (length (filter (\<lambda>t. now - cr_window r < t) hist)) < maxInWindow r"
      by (auto simp: AllowConn_def Let_def split: if_splits)
    have "0 < cr_window r" using inv by (simp add: rateInv_def)
    hence "cr_timestamps r' = filter (\<lambda>t. now - cr_window r < t) (hist @ [now])" using t by simp
    moreover have "sorted (hist @ [now])" "\<forall>t \<in> set (hist @ [now]). t \<le> now" using s h le by (auto simp: sorted_append)
    ultimately show ?thesis
      using True r' rateInv_accept [OF inv le room] \<open>0 < cr_window r\<close> unfolding rateInv_def by auto
  next
    case False
    with a rate k have t: "cr_timestamps r' = filter (\<lambda>t. now - cr_window r < t) hist"
      by (auto simp: AllowConn_def Let_def split: if_splits)
    have "\<forall>t \<in> set hist. t \<le> now" using h le by fastforce
    with False t inv r' show ?thesis unfolding rateInv_def by auto
  qed
qed

lemma rateInv_run:
  assumes "rateInv hist t0 r" "sorted (t0 # nows)" "0 < cr_maxRate r"
  shows "int (length (filter (\<lambda>x. t - cr_window r < x \<and> x \<le> t) (hist @ connRun nows r))) \<le> maxInWindow r"
  using assms
proof (induction nows arbitrary: hist t0 r)
  case Nil
  thus ?case by (simp add: rateInv_def)
next
  case (Cons now nows)
  obtain ok r' where a: "AllowConn now r = (ok, r')" by (cases "AllowConn now r")
  have "rateInv (if ok then hist @ [now] else hist) now r'"
    using Cons.prems by (intro rateInv_step [OF _ _ _ a, of _ t0]) simp_all
  moreover have "0 < cr_maxRate r'" "cr_window r' = cr_window r" "maxInWindow r' = maxInWindow r"
    using AllowConn_keeps [of now r] a Cons.prems(3) by simp_all
  ultimately have "int (length (filter (\<lambda>x. t - cr_window r < x \<and> x \<le> t)
      ((if ok then hist @ [now] else hist) @ connRun nows r'))) \<le> maxInWindow r"
    using Cons.IH [of "if ok then hist @ [now] else hist" now r'] Cons.prems(2) by simp
  with a show ?case by (cases ok) simp_all
qed

text \<open>
  C24. However connection attempts are spread over time, no window of the configured length
  contains more accepted connections than the rate allows for it (and at least one is allowed).
\<close>

theorem conn_rate_bound:
  assumes "0 < window" "0 < rate" "sorted nows"
  shows "int (length (filter (\<lambda>x. t - window < x \<and> x \<le> t) (connRun nows (SetRate rate (newConnRateLimiter window)))))
    \<le> max 1 \<lceil>rate * (of_int window / 1000000000)\<rceil>"
proof -
  let ?r = "SetRate rate (newConnRateLimiter window)"
  have m: "maxInWindow ?r = max 1 \<lceil>rate * (of_int window / 1000000000)\<rceil>" "cr_window ?r = window" "0 < cr_maxRate ?r"
    using assms(2) by (auto simp: maxInWindow_def SetRate_def newConnRateLimiter_def max_def Let_def)
  define t0 where "t0 = (case nows of [] \<Rightarrow> 0 | x # _ \<Rightarrow> x)"
  have "sorted (t0 # nows)" using assms(3) by (cases nows) (auto simp: t0_def)
  moreover have "rateInv [] t0 ?r"
    using assms(1) m(1) max.cobounded1 [of 1 "\<lceil>rate * (of_int window / 1000000000)\<rceil>"]
    unfolding rateInv_def m(1,2) by (auto simp: SetRate_def newConnRateLimiter_def simp del: max.cobounded1)
  ultimately have "int (length (filter (\<lambda>x. t - cr_window ?r < x \<and> x \<le> t) ([] @ connRun nows ?r))) \<le> maxInWindow ?r"
    using m(3) by (intro rateInv_run)
  thus ?thesis using m(1,2) by simp
qed

theorem conn_rate_bound_witness:
  "int (length (filter (\<lambda>x. 5 - 10 < x \<and> x \<le> 5) (connRun [1, 2, 5, 12] (SetRate 200000000 (newConnRateLimiter 10))))) \<le> 2"
  using conn_rate_bound [of 10 200000000 "[1, 2, 5, 12]" 5] by simp

end
