(* ===== verification/Session.thy ===== *)
theory Session
  imports TopicTree StoreTypes RateLimit
begin

text \<open>
  Sessions and their manager, \<^verbatim>\<open>src/broker/session.go\<close> and \<^verbatim>\<open>src/broker/session_types.go\<close>. Every
  method holds the session's lock, so it is one step. \<open>SubOptions\<close> and the publish rate tracker
  are compared with nil and are options; the other maps are never nil after construction, or a
  nil one behaves as an empty one. The counter of unacknowledged deliveries never leaves the
  range of its 32 bits, since it is bounded by a window of 16 bits, and is an integer.
\<close>

section \<open>Data\<close>

datatype SessState = StateDisconnected | StateConnecting | StateConnected | StateDisconnecting

datatype CloseReason = ReasonClientDisconnect | ReasonServerKick | ReasonServerShut
  | ReasonKeepAliveExpired | ReasonProtocolError | ReasonReplacedByNewConnection

record SessStats =
  st_MessagesReceived :: nat
  st_MessagesSent :: nat
  st_BytesReceived :: nat
  st_BytesSent :: nat
  st_ConnectCount :: nat
  st_LastConnectedAt :: "int option"
  st_Subscriptions :: nat
  st_InflightCount :: nat

record SubscriptionOptions =
  so_QoS :: byte
  so_NoLocal :: bool
  so_RetainAsPublished :: bool
  so_RetainHandling :: byte
  so_SubscriptionIdentifier :: "u32 option"

definition zeroSubOptions :: SubscriptionOptions where
  "zeroSubOptions = \<lparr> so_QoS = 0, so_NoLocal = False, so_RetainAsPublished = False,
     so_RetainHandling = 0, so_SubscriptionIdentifier = None \<rparr>"

record outboundMsg =
  om_pkt :: PublishPacket
  om_deliverQoS :: byte
  om_subOpts :: SubscriptionOptions
  om_subIDs :: "u32 list"
  om_expiresAt :: "int option"

abbreviation (input) "maxBufferedOutbound \<equiv> 1000 :: nat"

record InflightMsg =
  if_PacketID :: u16
  if_QoS :: byte
  if_Topic :: gostring
  if_Payload :: "byte list"
  if_Retain :: bool
  if_SentAt :: "int option"
  if_ExpiresAt :: "int option"
  if_Properties :: "Properties option"
  if_PendingPubRel :: bool

record InboundQoS2 =
  iq_PacketID :: u16
  iq_QoS :: byte
  iq_Topic :: gostring
  iq_Payload :: "byte list"
  iq_Retain :: bool
  iq_ReceivedAt :: int
  iq_Properties :: "Properties option"

record Session =
  s_ClientID :: gostring
  s_Username :: gostring
  s_IsClean :: bool
  s_ProtocolVer :: byte
  s_KeepAlive :: u16
  s_ConnectedAt :: "int option"
  s_LastActivity :: "int option"
  s_Subscriptions :: "(gostring, byte) gomap"
  s_SubOptions :: "(gostring, SubscriptionOptions) gomap option"
  s_Inflight :: "(u16, InflightMsg) gomap"
  s_inboundQoS2 :: "(u16, InboundQoS2) gomap"
  s_packetIDSeq :: u16
  s_ReceiveMax :: u16
  s_TopicAliasMax :: u16
  s_ClientTopicAliasMax :: u16
  s_OutboundWindow :: u16
  s_outboundUnacked :: int
  s_outboundQueue :: "outboundMsg list"
  s_publishRate :: "publishRateTracker option"
  s_ExpiryInterval :: u32
  s_AssignedClientID :: gostring
  s_RequestResponseInfo :: bool
  s_ServerKeepAlive :: "u16 option"
  s_topicAliases :: "(u16, gostring) gomap"
  s_state :: SessState
  s_closeReason :: CloseReason
  s_stats :: SessStats
  s_sentCount :: nat
  s_sentBytes :: nat

type_synonym Manager = "(gostring, Session) gomap"

definition zeroStats :: SessStats where
  "zeroStats = \<lparr> st_MessagesReceived = 0, st_MessagesSent = 0, st_BytesReceived = 0, st_BytesSent = 0,
     st_ConnectCount = 0, st_LastConnectedAt = None, st_Subscriptions = 0, st_InflightCount = 0 \<rparr>"

text \<open>The zero value of a session, with the maps every constructor makes.\<close>

definition zeroSession :: Session where
  "zeroSession = \<lparr> s_ClientID = [], s_Username = [], s_IsClean = False, s_ProtocolVer = 0, s_KeepAlive = 0,
     s_ConnectedAt = None, s_LastActivity = None, s_Subscriptions = [], s_SubOptions = Some [],
     s_Inflight = [], s_inboundQoS2 = [], s_packetIDSeq = 0, s_ReceiveMax = 0, s_TopicAliasMax = 0,
     s_ClientTopicAliasMax = 0, s_OutboundWindow = 0, s_outboundUnacked = 0, s_outboundQueue = [],
     s_publishRate = None, s_ExpiryInterval = 0, s_AssignedClientID = [], s_RequestResponseInfo = False,
     s_ServerKeepAlive = None, s_topicAliases = [], s_state = StateDisconnected,
     s_closeReason = ReasonClientDisconnect, s_stats = zeroStats, s_sentCount = 0, s_sentBytes = 0 \<rparr>"

definition sessSpec :: "Session \<Rightarrow> Spec" where
  "sessSpec s = (case SpecOf (s_ProtocolVer s) of (sp, True) \<Rightarrow> sp | (_, False) \<Rightarrow> fst (SpecOf Version311))"

section \<open>The manager\<close>

definition SetCloseReason :: "CloseReason \<Rightarrow> Session \<Rightarrow> Session" where
  "SetCloseReason reason s = s\<lparr>s_closeReason := reason, s_state := StateDisconnecting\<rparr>"

definition SetState :: "SessState \<Rightarrow> Session \<Rightarrow> Session" where
  "SetState st s = s\<lparr>s_state := st\<rparr>"

definition IsConnected :: "Session \<Rightarrow> bool" where
  "IsConnected s \<longleftrightarrow> s_state s = StateConnected"

text \<open>The options a nil map is filled with.\<close>

definition fillSubOptions :: "Session \<Rightarrow> (gostring, SubscriptionOptions) gomap" where
  "fillSubOptions s = (case s_SubOptions s of Some m \<Rightarrow> m
     | None \<Rightarrow> map (\<lambda>(topic, qos). (topic, zeroSubOptions\<lparr>so_QoS := qos\<rparr>)) (s_Subscriptions s))"

definition resumeSession :: "int \<Rightarrow> ConnectPacket \<Rightarrow> Session \<Rightarrow> Session" where
  "resumeSession now pkt s = s\<lparr> s_KeepAlive := cp_KeepAlive pkt, s_Username := cp_Username pkt,
     s_ProtocolVer := cp_ProtocolVersion pkt, s_LastActivity := Some now, s_ConnectedAt := Some now,
     s_SubOptions := Some (fillSubOptions s), s_topicAliases := [] \<rparr>"

definition newSession :: "int \<Rightarrow> gostring \<Rightarrow> ConnectPacket \<Rightarrow> Session" where
  "newSession now clientID pkt = zeroSession\<lparr> s_ClientID := clientID, s_Username := cp_Username pkt,
     s_IsClean := cf_CleanSession (cp_Flags pkt), s_ProtocolVer := cp_ProtocolVersion pkt,
     s_KeepAlive := cp_KeepAlive pkt, s_ConnectedAt := Some now, s_LastActivity := Some now,
     s_packetIDSeq := 1, s_ReceiveMax := 65535, s_OutboundWindow := 65535, s_state := StateConnected,
     s_stats := zeroStats\<lparr> st_ConnectCount := 1, st_LastConnectedAt := Some now \<rparr>,
     s_publishRate := Some (newPublishRateTracker now (seconds 1)) \<rparr>"

text \<open>
  \<open>CreateSession\<close> gives the session, the replaced session as the kick callback sees it, and the
  manager's map.
\<close>

definition CreateSession ::
  "int \<Rightarrow> gostring \<Rightarrow> ConnectPacket \<Rightarrow> bool \<Rightarrow> Manager \<Rightarrow> Session \<times> Session option \<times> Manager" where
  "CreateSession now clientID pkt isResuming m =
     (case map_of m clientID of
        Some existing \<Rightarrow>
          (if \<not> cf_CleanSession (cp_Flags pkt) \<and> isResuming
           then (let s = resumeSession now pkt existing in (s, None, mset_key clientID s m))
           else (let s = newSession now clientID pkt in
                 (s, Some (SetCloseReason ReasonReplacedByNewConnection existing),
                  mset_key clientID s (mdel_key clientID m))))
      | None \<Rightarrow> (let s = newSession now clientID pkt in (s, None, mset_key clientID s m)))"

definition GetSession :: "gostring \<Rightarrow> Manager \<Rightarrow> Session option" where
  "GetSession clientID m = map_of m clientID"

definition RemoveSession :: "gostring \<Rightarrow> Manager \<Rightarrow> Session option \<times> Manager" where
  "RemoveSession clientID m =
     (case map_of m clientID of
        Some s \<Rightarrow> (Some (if s_state s = StateConnected then SetState StateDisconnecting s else s), mdel_key clientID m)
      | None \<Rightarrow> (None, mdel_key clientID m))"

definition ListSessions :: "Manager \<Rightarrow> gostring list" where
  "ListSessions m = map fst m"

definition SessionExists :: "gostring \<Rightarrow> Manager \<Rightarrow> bool" where
  "SessionExists clientID m \<longleftrightarrow> map_of m clientID \<noteq> None"

section \<open>Activity and subscriptions\<close>

definition UpdateActivity :: "int \<Rightarrow> Session \<Rightarrow> Session" where
  "UpdateActivity now s = s\<lparr>s_LastActivity := Some now\<rparr>"

text \<open>A zero \<open>LastActivity\<close> lies further back than any keep-alive.\<close>

definition IsExpired :: "int \<Rightarrow> Session \<Rightarrow> bool" where
  "IsExpired now s =
     (if s_KeepAlive s = 0 then False
      else case s_LastActivity s of None \<Rightarrow> True
        | Some t \<Rightarrow> now - t > uint (s_KeepAlive s) * seconds 1 * 3 div 2)"

definition AddSubscriptionFilter :: "TopicFilter \<Rightarrow> Session \<Rightarrow> Session" where
  "AddSubscriptionFilter flt s = s\<lparr>
     s_Subscriptions := mset_key (tf_Topic flt) (tf_QoS flt) (s_Subscriptions s),
     s_SubOptions := Some (mset_key (tf_Topic flt)
       \<lparr> so_QoS = tf_QoS flt, so_NoLocal = tf_NoLocal flt, so_RetainAsPublished = tf_RetainAsPublished flt,
         so_RetainHandling = tf_RetainHandling flt,
         so_SubscriptionIdentifier = tf_SubscriptionIdentifier flt \<rparr> (fillSubOptions s)) \<rparr>"

definition AddSubscription :: "gostring \<Rightarrow> byte \<Rightarrow> Session \<Rightarrow> Session" where
  "AddSubscription topic qos = AddSubscriptionFilter \<lparr> tf_Topic = topic, tf_QoS = qos, tf_NoLocal = False,
     tf_RetainAsPublished = False, tf_RetainHandling = 0, tf_SubscriptionIdentifier = None \<rparr>"

definition RemoveSubscription :: "gostring \<Rightarrow> Session \<Rightarrow> Session" where
  "RemoveSubscription topic s = s\<lparr> s_Subscriptions := mdel_key topic (s_Subscriptions s),
     s_SubOptions := map_option (mdel_key topic) (s_SubOptions s) \<rparr>"

definition HasSubscription :: "gostring \<Rightarrow> Session \<Rightarrow> bool" where
  "HasSubscription topic s \<longleftrightarrow> map_of (s_Subscriptions s) topic \<noteq> None"

definition subOption :: "Session \<Rightarrow> gostring \<Rightarrow> SubscriptionOptions option" where
  "subOption s pattern = (case s_SubOptions s of None \<Rightarrow> None | Some m \<Rightarrow> map_of m pattern)"

text \<open>An index expression on the options gives the zero value for a missing key.\<close>

definition subOptionOrZero :: "Session \<Rightarrow> gostring \<Rightarrow> SubscriptionOptions" where
  "subOptionOrZero s pattern = (case subOption s pattern of None \<Rightarrow> zeroSubOptions | Some opts \<Rightarrow> opts)"

definition moreSpecific :: "gostring \<Rightarrow> gostring \<Rightarrow> bool" where
  "moreSpecific candidate current \<longleftrightarrow> candidate < current"

text \<open>The filter a subscription applies to a topic; none for a malformed shared subscription.\<close>

definition realPattern :: "gostring \<Rightarrow> gostring option" where
  "realPattern pattern =
     (if IsSharedSubscription pattern then map_option snd (ParseSharedFilter pattern) else Some pattern)"

definition patternMatches :: "gostring \<Rightarrow> bool \<Rightarrow> gostring \<Rightarrow> bool" where
  "patternMatches topic sysProtect pattern \<longleftrightarrow>
     (case realPattern pattern of
        None \<Rightarrow> False
      | Some rp \<Rightarrow> \<not> (sysProtect \<and> \<not> matchSysProtected rp topic) \<and> MatchTopic rp topic)"

record matchState =
  ms_matched :: bool
  ms_bestQoS :: byte
  ms_bestOpts :: SubscriptionOptions
  ms_bestPattern :: gostring
  ms_identifiers :: "u32 list"

definition noMatch :: matchState where
  "noMatch = \<lparr> ms_matched = False, ms_bestQoS = 0, ms_bestOpts = zeroSubOptions, ms_bestPattern = [], ms_identifiers = [] \<rparr>"

text \<open>One turn of the loop of \<open>matchSubscriptions\<close>.\<close>

definition matchStep :: "Session \<Rightarrow> gostring \<Rightarrow> bool \<Rightarrow> gostring \<times> byte \<Rightarrow> matchState \<Rightarrow> matchState" where
  "matchStep s topic sysProtect pq ms = (case pq of (pattern, qos) \<Rightarrow>
     (if patternMatches topic sysProtect pattern
      then (let opts = subOptionOrZero s pattern;
                ms' = (if \<not> ms_matched ms \<or> ms_bestQoS ms < qos \<or>
                          (qos = ms_bestQoS ms \<and> moreSpecific pattern (ms_bestPattern ms))
                       then ms\<lparr>ms_bestQoS := qos, ms_bestOpts := opts, ms_bestPattern := pattern\<rparr> else ms);
                ms'' = (case so_SubscriptionIdentifier opts of None \<Rightarrow> ms'
                        | Some i \<Rightarrow> ms'\<lparr>ms_identifiers := ms_identifiers ms' @ [i]\<rparr>)
            in ms''\<lparr>ms_matched := True\<rparr>)
      else ms))"

definition sortCompact :: "u32 list \<Rightarrow> u32 list" where
  "sortCompact is = (if length is > 1 then remdups_adj (sort is) else is)"

definition matchSubscriptions ::
  "Session \<Rightarrow> gostring \<Rightarrow> bool \<Rightarrow> bool \<times> byte \<times> SubscriptionOptions \<times> u32 list" where
  "matchSubscriptions s topic sysProtect =
     (let ms = fold (matchStep s topic sysProtect) (s_Subscriptions s) noMatch in
      (ms_matched ms, ms_bestQoS ms, ms_bestOpts ms, sortCompact (ms_identifiers ms)))"

definition MatchesSubscription where
  "MatchesSubscription s topic = matchSubscriptions s topic False"

definition MatchesRetainedSubscription where
  "MatchesRetainedSubscription s topic = matchSubscriptions s topic True"

text \<open>The loop returns at the first subscription without the No Local option.\<close>

fun allowsLocalLoop :: "Session \<Rightarrow> gostring \<Rightarrow> bool \<Rightarrow> gostring list \<Rightarrow> bool" where
  "allowsLocalLoop s topic matched [] = (\<not> matched)"
| "allowsLocalLoop s topic matched (pattern # ps) =
     (if \<not> MatchTopic pattern topic then allowsLocalLoop s topic matched ps
      else case subOption s pattern of
             None \<Rightarrow> True
           | Some opts \<Rightarrow> if \<not> so_NoLocal opts then True else allowsLocalLoop s topic True ps)"

definition AllowsLocalPublish :: "Session \<Rightarrow> gostring \<Rightarrow> bool" where
  "AllowsLocalPublish s topic = allowsLocalLoop s topic False (map fst (s_Subscriptions s))"

section \<open>Packet identifiers and unacknowledged messages\<close>

definition bumpSeq :: "u16 \<Rightarrow> u16" where
  "bumpSeq q = (if q + 1 = 0 then 1 else q + 1)"

text \<open>The bounded search: the identifier, if one was found, and the sequence after it.\<close>

fun nextIDLoop :: "nat \<Rightarrow> (u16, InflightMsg) gomap \<Rightarrow> u16 \<Rightarrow> u16 \<times> u16" where
  "nextIDLoop 0 inflight q = (q, bumpSeq q)"
| "nextIDLoop (Suc n) inflight q =
     (if map_of inflight q = None then (q, bumpSeq q) else nextIDLoop n inflight (bumpSeq q))"

definition NextPacketID :: "Session \<Rightarrow> u16 \<times> Session" where
  "NextPacketID s = (case nextIDLoop 65535 (s_Inflight s) (s_packetIDSeq s) of
     (i, q) \<Rightarrow> (i, s\<lparr>s_packetIDSeq := q\<rparr>))"

definition AddInflight :: "InflightMsg \<Rightarrow> Session \<Rightarrow> Session" where
  "AddInflight msg s = s\<lparr>s_Inflight := mset_key (if_PacketID msg) msg (s_Inflight s)\<rparr>"

definition RemoveInflight :: "u16 \<Rightarrow> Session \<Rightarrow> bool \<times> Session" where
  "RemoveInflight packetID s =
     (if map_of (s_Inflight s) packetID = None then (False, s)
      else (True, s\<lparr>s_Inflight := mdel_key packetID (s_Inflight s)\<rparr>))"

definition AddInboundQoS2 :: "InboundQoS2 \<Rightarrow> int \<Rightarrow> Session \<Rightarrow> bool \<times> Session" where
  "AddInboundQoS2 msg maxPending s =
     (if 0 < maxPending \<and> maxPending \<le> int (length (s_inboundQoS2 s)) then (False, s)
      else (True, s\<lparr>s_inboundQoS2 := mset_key (iq_PacketID msg) msg (s_inboundQoS2 s)\<rparr>))"

definition HasInboundQoS2 :: "u16 \<Rightarrow> Session \<Rightarrow> bool" where
  "HasInboundQoS2 packetID s \<longleftrightarrow> map_of (s_inboundQoS2 s) packetID \<noteq> None"

definition TakeInboundQoS2 :: "u16 \<Rightarrow> Session \<Rightarrow> InboundQoS2 option \<times> Session" where
  "TakeInboundQoS2 packetID s =
     (case map_of (s_inboundQoS2 s) packetID of
        None \<Rightarrow> (None, s)
      | Some msg \<Rightarrow> (Some msg, s\<lparr>s_inboundQoS2 := mdel_key packetID (s_inboundQoS2 s)\<rparr>))"

definition GetInflightMsg :: "u16 \<Rightarrow> Session \<Rightarrow> InflightMsg option" where
  "GetInflightMsg packetID s = map_of (s_Inflight s) packetID"

definition MarkInflightPubRel :: "u16 \<Rightarrow> Session \<Rightarrow> bool \<times> Session" where
  "MarkInflightPubRel packetID s =
     (case map_of (s_Inflight s) packetID of
        None \<Rightarrow> (False, s)
      | Some msg \<Rightarrow>
          if if_QoS msg \<noteq> 2 then (False, s)
          else (True, s\<lparr>s_Inflight := mset_key packetID (msg\<lparr>if_PendingPubRel := True\<rparr>) (s_Inflight s)\<rparr>))"

definition InflightSnapshot :: "Session \<Rightarrow> InflightMsg list" where
  "InflightSnapshot s = map snd (s_Inflight s)"

section \<open>Persistence\<close>

definition storeInflight :: "InflightMsg \<Rightarrow> StoreInflight" where
  "storeInflight msg = \<lparr> si_PacketID = if_PacketID msg, si_QoS = if_QoS msg, si_Topic = if_Topic msg,
     si_Payload = if_Payload msg, si_Retain = if_Retain msg, si_Properties = storeProperties (if_Properties msg),
     si_ExpiresAt = if_ExpiresAt msg, si_PendingPubRel = if_PendingPubRel msg \<rparr>"

definition storeInbound :: "InboundQoS2 \<Rightarrow> StoreInflight" where
  "storeInbound msg = \<lparr> si_PacketID = iq_PacketID msg, si_QoS = iq_QoS msg, si_Topic = iq_Topic msg,
     si_Payload = iq_Payload msg, si_Retain = iq_Retain msg, si_Properties = storeProperties (iq_Properties msg),
     si_ExpiresAt = None, si_PendingPubRel = False \<rparr>"

definition storeSubscription :: "Session \<Rightarrow> gostring \<times> byte \<Rightarrow> StoreSubscription" where
  "storeSubscription s tq = (case tq of (topic, qos) \<Rightarrow>
     (let opts = subOptionOrZero s topic in
      \<lparr> sub_Topic = topic, sub_QoS = qos, sub_NoLocal = so_NoLocal opts,
        sub_RetainAsPublished = so_RetainAsPublished opts, sub_RetainHandling = so_RetainHandling opts,
        sub_SubscriptionIdentifier = so_SubscriptionIdentifier opts \<rparr>))"

text \<open>The record \<open>Save\<close> hands to the session store.\<close>

definition Save :: "int \<Rightarrow> Session \<Rightarrow> SessionData" where
  "Save now s = \<lparr> sd_ClientID = s_ClientID s, sd_Username = s_Username s, sd_IsClean = s_IsClean s,
     sd_KeepAlive = s_KeepAlive s, sd_ProtocolVer = s_ProtocolVer s, sd_ExpiryInterval = s_ExpiryInterval s,
     sd_ExpiryTime = (if 0 < s_ExpiryInterval s then Some (now + uint (s_ExpiryInterval s) * seconds 1) else None),
     sd_Subscriptions = map (storeSubscription s) (s_Subscriptions s),
     sd_Inflight = fold (\<lambda>msg. mset_key (if_PacketID msg) (storeInflight msg)) (map snd (s_Inflight s)) [],
     sd_InboundQoS2 = fold (\<lambda>msg. mset_key (iq_PacketID msg) (storeInbound msg)) (map snd (s_inboundQoS2 s)) [] \<rparr>"

definition restoreSubscription :: "StoreSubscription \<Rightarrow> Session \<Rightarrow> Session" where
  "restoreSubscription sub s = s\<lparr>
     s_Subscriptions := mset_key (sub_Topic sub) (sub_QoS sub) (s_Subscriptions s),
     s_SubOptions := map_option (mset_key (sub_Topic sub)
       \<lparr> so_QoS = sub_QoS sub, so_NoLocal = sub_NoLocal sub, so_RetainAsPublished = sub_RetainAsPublished sub,
         so_RetainHandling = sub_RetainHandling sub,
         so_SubscriptionIdentifier = sub_SubscriptionIdentifier sub \<rparr>) (s_SubOptions s) \<rparr>"

definition restoreInflight :: "StoreInflight \<Rightarrow> InflightMsg" where
  "restoreInflight msg = \<lparr> if_PacketID = si_PacketID msg, if_QoS = si_QoS msg, if_Topic = si_Topic msg,
     if_Payload = si_Payload msg, if_Retain = si_Retain msg, if_SentAt = None, if_ExpiresAt = si_ExpiresAt msg,
     if_Properties = protocolProperties (si_Properties msg), if_PendingPubRel = si_PendingPubRel msg \<rparr>"

definition restoreInbound :: "int \<Rightarrow> StoreInflight \<Rightarrow> InboundQoS2" where
  "restoreInbound now msg = \<lparr> iq_PacketID = si_PacketID msg, iq_QoS = si_QoS msg, iq_Topic = si_Topic msg,
     iq_Payload = si_Payload msg, iq_Retain = si_Retain msg, iq_ReceivedAt = now,
     iq_Properties = protocolProperties (si_Properties msg) \<rparr>"

definition restoreSession :: "int \<Rightarrow> SessionData \<Rightarrow> Session" where
  "restoreSession now d =
     (fold restoreSubscription (sd_Subscriptions d)
       (zeroSession\<lparr> s_ClientID := sd_ClientID d, s_Username := sd_Username d, s_IsClean := sd_IsClean d,
          s_KeepAlive := sd_KeepAlive d, s_ProtocolVer := sd_ProtocolVer d, s_ExpiryInterval := sd_ExpiryInterval d,
          s_packetIDSeq := 1, s_ReceiveMax := 65535, s_OutboundWindow := 65535 \<rparr>))
     \<lparr> s_Inflight := map (\<lambda>(i, msg). (i, restoreInflight msg)) (sd_Inflight d),
       s_inboundQoS2 := map (\<lambda>(i, msg). (i, restoreInbound now msg)) (sd_InboundQoS2 d) \<rparr>"

text \<open>The session store is an interface; its \<^verbatim>\<open>GetSession\<close> is an argument, absent for a nil store.\<close>

definition Restore ::
  "(gostring \<Rightarrow> storeErr + SessionData) option \<Rightarrow> int \<Rightarrow> gostring \<Rightarrow> Manager \<Rightarrow> (storeErr + Session) \<times> Manager" where
  "Restore store now clientID m =
     (case store of None \<Rightarrow> (Inl ErrStoreUnavailable, m)
      | Some getSession \<Rightarrow>
     (case getSession clientID of Inl err \<Rightarrow> (Inl err, m)
      | Inr d \<Rightarrow> let s = restoreSession now d in (Inr s, mset_key clientID s m)))"

section \<open>Statistics and topic aliases\<close>

definition statsOf :: "Session \<Rightarrow> SessStats" where
  "statsOf s = (let st = (s_stats s)\<lparr>st_Subscriptions := length (s_Subscriptions s), st_InflightCount := length (s_Inflight s)\<rparr>
     in st\<lparr>st_MessagesSent := st_MessagesSent st + s_sentCount s, st_BytesSent := st_BytesSent st + s_sentBytes s\<rparr>)"

definition TrackReceived :: "nat \<Rightarrow> Session \<Rightarrow> Session" where
  "TrackReceived msgSize s = s\<lparr>s_stats := (s_stats s)\<lparr>
     st_MessagesReceived := st_MessagesReceived (s_stats s) + 1,
     st_BytesReceived := st_BytesReceived (s_stats s) + msgSize\<rparr>\<rparr>"

definition TrackSent :: "nat \<Rightarrow> Session \<Rightarrow> Session" where
  "TrackSent msgSize s = s\<lparr>s_sentCount := s_sentCount s + 1, s_sentBytes := s_sentBytes s + msgSize\<rparr>"

text \<open>The result is \<open>False\<close> for \<^verbatim>\<open>ErrTopicAliasOutOfRange\<close>.\<close>

definition RegisterTopicAlias :: "u16 \<Rightarrow> gostring \<Rightarrow> Session \<Rightarrow> bool \<times> Session" where
  "RegisterTopicAlias alias topic s =
     (if s_TopicAliasMax s = 0 \<or> s_TopicAliasMax s < alias then (False, s)
      else (True, s\<lparr>s_topicAliases := mset_key alias topic (s_topicAliases s)\<rparr>))"

definition ResolveTopicAlias :: "u16 \<Rightarrow> Session \<Rightarrow> gostring option" where
  "ResolveTopicAlias alias s = map_of (s_topicAliases s) alias"

section \<open>Outbound flow control\<close>

definition CanSendOutbound :: "Session \<Rightarrow> bool" where
  "CanSendOutbound s \<longleftrightarrow> s_outboundUnacked s < uint (s_OutboundWindow s)"

definition IncOutboundUnacked :: "Session \<Rightarrow> Session" where
  "IncOutboundUnacked s = s\<lparr>s_outboundUnacked := s_outboundUnacked s + 1\<rparr>"

definition DecOutboundUnacked :: "Session \<Rightarrow> Session" where
  "DecOutboundUnacked s = (if s_outboundUnacked s \<le> 0 then s else s\<lparr>s_outboundUnacked := s_outboundUnacked s - 1\<rparr>)"

definition ResetOutboundUnacked :: "Session \<Rightarrow> Session" where
  "ResetOutboundUnacked s = s\<lparr>s_outboundUnacked := 0\<rparr>"

definition BufferOutbound :: "outboundMsg \<Rightarrow> Session \<Rightarrow> bool \<times> Session" where
  "BufferOutbound msg s =
     (if maxBufferedOutbound \<le> length (s_outboundQueue s) then (False, s)
      else (True, s\<lparr>s_outboundQueue := s_outboundQueue s @ [msg]\<rparr>))"

definition PopOutbound :: "Session \<Rightarrow> outboundMsg option \<times> Session" where
  "PopOutbound s = (case s_outboundQueue s of [] \<Rightarrow> (None, s)
     | msg # rest \<Rightarrow> (Some msg, s\<lparr>s_outboundQueue := rest\<rparr>))"

definition OutboundQueueLen :: "Session \<Rightarrow> nat" where
  "OutboundQueueLen s = length (s_outboundQueue s)"

end
