(* ===== verification/BoundedQueue.thy ===== *)
theory BoundedQueue
  imports Main
begin

text \<open>
  The contract of a bounded queue: a push is refused when the bound is reached and otherwise
  appends, a pop takes the oldest element. What follows for every sequence of calls is that the
  elements taken, followed by those still there, are the elements accepted in their order.
\<close>

datatype 'a queueOp = Push 'a | Pop

locale bounded_queue =
  fixes contents :: "'s \<Rightarrow> 'a list"
    and push :: "'a \<Rightarrow> 's \<Rightarrow> bool \<times> 's"
    and pop :: "'s \<Rightarrow> 'a option \<times> 's"
    and bound :: nat
  assumes push_full: "bound \<le> length (contents q) \<Longrightarrow> push x q = (False, q)"
    and push_room: "length (contents q) < bound \<Longrightarrow>
      fst (push x q) \<and> contents (snd (push x q)) = contents q @ [x]"
    and pop_empty: "contents q = [] \<Longrightarrow> pop q = (None, q)"
    and pop_cons: "contents q = x # xs \<Longrightarrow> fst (pop q) = Some x \<and> contents (snd (pop q)) = xs"
begin

text \<open>A run of calls: the elements accepted, the elements taken and the queue after it.\<close>

fun queueRun :: "'a queueOp list \<Rightarrow> 's \<Rightarrow> 'a list \<times> 'a list \<times> 's" where
  "queueRun [] q = ([], [], q)"
| "queueRun (Push x # ops) q = (case push x q of (ok, q') \<Rightarrow>
     (case queueRun ops q' of (acc, out, q'') \<Rightarrow> (if ok then x # acc else acc, out, q'')))"
| "queueRun (Pop # ops) q = (case pop q of (r, q') \<Rightarrow>
     (case queueRun ops q' of (acc, out, q'') \<Rightarrow> (acc, case r of None \<Rightarrow> out | Some x \<Rightarrow> x # out, q'')))"

lemma run_order: "queueRun ops q = (acc, out, q') \<Longrightarrow> out @ contents q' = contents q @ acc"
proof (induction ops arbitrary: q acc out)
  case (Cons a ops)
  show ?case
  proof (cases a)
    case (Push x)
    obtain ok q1 where p: "push x q = (ok, q1)" by (cases "push x q")
    obtain acc1 where r: "queueRun ops q1 = (acc1, out, q')" "acc = (if ok then x # acc1 else acc1)"
      using Cons.prems Push p by (auto split: prod.splits)
    have "contents q1 = (if ok then contents q @ [x] else contents q)"
      using push_full [of q x] push_room [of q x] p by (cases "bound \<le> length (contents q)") auto
    with Cons.IH [OF r(1)] r(2) show ?thesis by simp
  next
    case Pop
    obtain r q1 where p: "pop q = (r, q1)" by (cases "pop q")
    obtain out1 where o: "queueRun ops q1 = (acc, out1, q')" "out = (case r of None \<Rightarrow> out1 | Some x \<Rightarrow> x # out1)"
      using Cons.prems Pop p by (auto split: prod.splits)
    show ?thesis
      using Cons.IH [OF o(1)] o(2) p pop_empty [of q] pop_cons [of q] by (cases "contents q") auto
  qed
qed simp

lemma run_bounded:
  "queueRun ops q = (acc, out, q') \<Longrightarrow> length (contents q) \<le> bound \<Longrightarrow> length (contents q') \<le> bound"
proof (induction ops arbitrary: q acc out)
  case (Cons a ops)
  show ?case
  proof (cases a)
    case (Push x)
    obtain ok q1 where p: "push x q = (ok, q1)" by (cases "push x q")
    then obtain acc1 where r: "queueRun ops q1 = (acc1, out, q')"
      using Cons.prems(1) Push by (auto split: prod.splits)
    have "length (contents q1) \<le> bound"
      using push_full [of q x] push_room [of q x] p Cons.prems(2) by (cases "bound \<le> length (contents q)") auto
    from Cons.IH [OF r this] show ?thesis .
  next
    case Pop
    obtain r q1 where p: "pop q = (r, q1)" by (cases "pop q")
    then obtain out1 where o: "queueRun ops q1 = (acc, out1, q')"
      using Cons.prems(1) Pop by (auto split: prod.splits)
    have "length (contents q1) \<le> bound"
      using pop_empty [of q] pop_cons [of q] p Cons.prems(2) by (cases "contents q") auto
    from Cons.IH [OF o this] show ?thesis .
  qed
qed simp

end

end
