(* ===== verification/SessionTheorems.thy ===== *)
theory SessionTheorems
  imports Session BoundedQueue
begin

text \<open>
  What a session guarantees: identifiers handed out are fresh, the choice among overlapping
  subscriptions does not depend on the order a map is visited in, the outbound buffer is a
  bounded queue that keeps its order, and a session survives being saved and restored.
\<close>

section \<open>Packet identifiers\<close>

lemma unat_u16: "unat (w :: u16) < 65536"
proof -
  have "unat w < 2 ^ LENGTH(16)" by (rule unsigned_less)
  moreover have "(2 :: nat) ^ LENGTH(16) = 65536" by simp
  ultimately show ?thesis by (rule back_subst)
qed

lemma bumpSeq_nonzero [simp]: "bumpSeq q \<noteq> 0"
  by (simp add: bumpSeq_def)

lemma unat_bumpSeq:
  assumes "q \<noteq> 0"
  shows "unat (bumpSeq q) = (unat q mod 65535) + 1"
proof (cases "q + 1 = 0")
  case True
  hence "q = - 1" by (simp add: eq_neg_iff_add_eq_0)
  moreover have "unat (- 1 :: u16) = 65535" by code_simp
  ultimately have "unat q = 65535" by simp
  with True show ?thesis by (simp add: bumpSeq_def)
next
  case False
  hence "unat (q + 1) = unat q + 1" by (simp add: unatSuc add.commute)
  moreover have "unat q + 1 < 65536" using calculation unat_u16 [of "q + 1"] by simp
  ultimately show ?thesis using False by (simp add: bumpSeq_def)
qed

lemma bumpSeq_iterate_nonzero [simp]: "q \<noteq> 0 \<Longrightarrow> (bumpSeq ^^ k) q \<noteq> 0"
  by (induction k) auto

lemma unat_iterate:
  assumes "q \<noteq> 0"
  shows "unat ((bumpSeq ^^ k) q) = (unat q + k - 1) mod 65535 + 1"
proof (induction k)
  case 0
  have "0 < unat q" "unat q < 65536" using assms unat_u16 [of q] by (simp_all add: unat_gt_0)
  thus ?case by (simp add: mod_less)
next
  case (Suc k)
  have "0 < unat q" using assms by (simp add: unat_gt_0)
  have "unat ((bumpSeq ^^ Suc k) q) = ((unat q + k - 1) mod 65535 + 1) mod 65535 + 1"
    using assms Suc by (simp add: unat_bumpSeq)
  also have "\<dots> = (unat q + k - 1 + 1) mod 65535 + 1" by (simp add: mod_Suc_eq)
  finally show ?case using \<open>0 < unat q\<close> by simp
qed

lemma mod_shift_inj:
  assumes "i < m" "j < m" "((c :: nat) + i) mod m = (c + j) mod m"
  shows "i = j"
proof -
  from assms(3) have "int (c + i) mod int m = int (c + j) mod int m" by (metis of_nat_mod)
  hence "int m dvd int i - int j" by (simp add: mod_eq_dvd_iff)
  moreover have "\<bar>int i - int j\<bar> < int m" using assms by linarith
  ultimately have "int i - int j = 0" using zdvd_not_zless [of "\<bar>int i - int j\<bar>" "int m"] by auto
  thus ?thesis by simp
qed

lemma iterate_inj:
  assumes "q \<noteq> 0"
  shows "inj_on (\<lambda>k. (bumpSeq ^^ k) q) {..<65535}"
proof (rule inj_onI)
  fix i j :: nat
  assume ij: "i \<in> {..<65535}" "j \<in> {..<65535}" and eq: "(bumpSeq ^^ i) q = (bumpSeq ^^ j) q"
  define c where "c = unat q - 1"
  have c: "unat q + k - 1 = c + k" for k
    using assms by (cases "unat q") (simp_all add: c_def unat_eq_zero)
  from eq have "(c + i) mod 65535 + 1 = (c + j) mod 65535 + 1"
    unfolding c [symmetric] unat_iterate [OF assms, symmetric] by (rule arg_cong)
  hence "(c + i) mod 65535 = (c + j) mod 65535" unfolding add_right_cancel .
  with ij show "i = j" unfolding lessThan_iff by (rule mod_shift_inj)
qed

lemma nextIDLoop_finds:
  assumes "k < n" "map_of inflight ((bumpSeq ^^ k) q) = None"
  shows "map_of inflight (fst (nextIDLoop n inflight q)) = None"
  using assms
proof (induction n arbitrary: k q)
  case (Suc n)
  show ?case
  proof (cases "map_of inflight q = None")
    case False
    with Suc.prems have "k \<noteq> 0" by (metis funpow_0)
    then obtain k' where k: "k = Suc k'" by (cases k) auto
    with Suc.prems have "k' < n" "map_of inflight ((bumpSeq ^^ k') (bumpSeq q)) = None"
      by (simp_all add: funpow_swap1)
    from Suc.IH [OF this] False show ?thesis by simp
  qed simp
qed simp

lemma nextIDLoop_nonzero: "q \<noteq> 0 \<Longrightarrow> fst (nextIDLoop n inflight q) \<noteq> 0 \<and> snd (nextIDLoop n inflight q) \<noteq> 0"
  by (induction n arbitrary: q) auto

lemma free_id_reached:
  assumes "q \<noteq> 0" "length (inflight :: (u16, InflightMsg) gomap) < 65535"
  obtains k where "k < 65535" "map_of inflight ((bumpSeq ^^ k) q) = None"
proof -
  let ?ids = "(\<lambda>k. (bumpSeq ^^ k) q) ` {..<65535}"
  have "card ?ids = 65535" using card_image [OF iterate_inj [OF assms(1)]] by simp
  moreover have "card (fst ` set inflight) < 65535"
    using assms(2) card_length [of "map fst inflight"] by simp
  ultimately have "\<not> ?ids \<subseteq> fst ` set inflight"
    using card_mono [of "fst ` set inflight" ?ids] by auto
  thus thesis using that by (auto simp: map_of_eq_None_iff)
qed

text \<open>
  C8. \<open>NextPacketID\<close> never returns zero and, while fewer than 65535 messages are
  unacknowledged, never an identifier still in use; it changes nothing but the sequence, which
  stays non-zero across the wrap-around of its 16 bits. The search loop always ends.
\<close>

theorem NextPacketID_fresh:
  assumes "s_packetIDSeq s \<noteq> 0" "length (s_Inflight s) < 65535"
  shows "case NextPacketID s of (i, s') \<Rightarrow>
    i \<noteq> 0 \<and> map_of (s_Inflight s) i = None \<and> s_packetIDSeq s' \<noteq> 0 \<and> s' = s\<lparr>s_packetIDSeq := s_packetIDSeq s'\<rparr>"
proof -
  obtain k where "k < 65535" "map_of (s_Inflight s) ((bumpSeq ^^ k) (s_packetIDSeq s)) = None"
    using assms by (rule free_id_reached)
  hence "map_of (s_Inflight s) (fst (nextIDLoop 65535 (s_Inflight s) (s_packetIDSeq s))) = None"
    by (rule nextIDLoop_finds)
  with nextIDLoop_nonzero [OF assms(1)] show ?thesis
    by (simp add: NextPacketID_def split_beta)
qed

definition exInflight :: "u16 \<Rightarrow> InflightMsg" where
  "exInflight i = \<lparr> if_PacketID = i, if_QoS = 1, if_Topic = [97], if_Payload = [], if_Retain = False,
     if_SentAt = None, if_ExpiresAt = None, if_Properties = None, if_PendingPubRel = False \<rparr>"

definition exWrap :: Session where
  "exWrap = zeroSession\<lparr> s_packetIDSeq := 65535, s_Inflight := [(65535, exInflight 65535), (1, exInflight 1)] \<rparr>"

theorem NextPacketID_fresh_witness: "fst (NextPacketID exWrap) = 2 \<and> map_of (s_Inflight exWrap) 2 = None"
proof -
  have "s_packetIDSeq exWrap \<noteq> 0" "length (s_Inflight exWrap) < 65535" by (simp_all add: exWrap_def)
  hence "map_of (s_Inflight exWrap) (fst (NextPacketID exWrap)) = None"
    using NextPacketID_fresh [of exWrap] by (simp add: split_beta)
  moreover have "fst (NextPacketID exWrap) = 2"
    by code_simp
  ultimately show ?thesis by simp
qed

section \<open>Overlapping subscriptions\<close>

lemma sorted_distinct_remdups_adj: "sorted xs \<Longrightarrow> distinct (remdups_adj (xs :: 'a :: linorder list))"
proof (induction xs rule: remdups_adj.induct)
  case (3 x y xs)
  show ?case
  proof (cases "x = y")
    case False
    with 3(3) have "x < y" "\<forall>z \<in> set xs. y \<le> z" by auto
    hence "x \<notin> set (y # xs)" by auto
    with 3 False show ?thesis by simp
  qed (use 3 in simp)
qed simp_all

lemma sortCompact_set: "sortCompact is = sorted_list_of_set (set is)"
proof (cases "length is > 1")
  case True
  have "sorted (remdups_adj (sort is))" "distinct (remdups_adj (sort is))"
    by (simp_all add: sorted_remdups_adj sorted_distinct_remdups_adj)
  hence "remdups_adj (sort is) = sorted_list_of_set (set is)"
    by (intro sorted_distinct_set_unique) simp_all
  with True show ?thesis by (simp add: sortCompact_def)
next
  case False
  then consider "is = []" | i where "is = [i]" by (cases "is"; cases "tl is") auto
  thus ?thesis by cases (simp_all add: sortCompact_def)
qed

text \<open>The subscriptions a topic matches, and the choice among them as a set.\<close>

definition matching :: "Session \<Rightarrow> gostring \<Rightarrow> bool \<Rightarrow> (gostring \<times> byte) set" where
  "matching s topic sysProtect = {pq \<in> set (s_Subscriptions s). patternMatches topic sysProtect (fst pq)}"

definition leastOf :: "byte \<Rightarrow> (gostring \<times> byte) set \<Rightarrow> gostring" where
  "leastOf q M = Min (fst ` {m \<in> M. snd m = q})"

definition identifiersOf :: "Session \<Rightarrow> (gostring \<times> byte) set \<Rightarrow> u32 set" where
  "identifiersOf s M = (\<Union>m \<in> M. set_option (so_SubscriptionIdentifier (subOptionOrZero s (fst m))))"

definition bestSubscription :: "Session \<Rightarrow> (gostring \<times> byte) set \<Rightarrow> bool \<times> byte \<times> SubscriptionOptions \<times> u32 list" where
  "bestSubscription s M =
     (if M = {} then (False, 0, zeroSubOptions, [])
      else let q = Max (snd ` M) in
        (True, q, subOptionOrZero s (leastOf q M), sorted_list_of_set (identifiersOf s M)))"

definition stateOf :: "Session \<Rightarrow> (gostring \<times> byte) set \<Rightarrow> matchState \<Rightarrow> bool" where
  "stateOf s M ms \<longleftrightarrow> ms_matched ms = (M \<noteq> {}) \<and> set (ms_identifiers ms) = identifiersOf s M \<and>
     (if M = {} then ms_bestQoS ms = 0 \<and> ms_bestOpts ms = zeroSubOptions
      else ms_bestQoS ms = Max (snd ` M) \<and> ms_bestPattern ms = leastOf (ms_bestQoS ms) M \<and>
           ms_bestOpts ms = subOptionOrZero s (ms_bestPattern ms))"

lemma leastOf_insert:
  assumes "finite M" "\<exists>m \<in> M. snd m = q"
  shows "leastOf q (insert (p, q) M) = min p (leastOf q M)"
proof -
  have "fst ` {m \<in> insert (p, q) M. snd m = q} = insert p (fst ` {m \<in> M. snd m = q})" by force
  moreover have "fst ` {m \<in> M. snd m = q} \<noteq> {}" using assms(2) by auto
  moreover have "finite (fst ` {m \<in> M. snd m = q})" using assms(1) by simp
  ultimately show ?thesis unfolding leastOf_def by (simp only: Min_insert not_False_eq_True)
qed

lemma leastOf_other: "q \<noteq> q' \<Longrightarrow> leastOf q (insert (p, q') M) = leastOf q M"
proof -
  assume "q \<noteq> q'"
  hence "{m \<in> insert (p, q') M. snd m = q} = {m \<in> M. snd m = q}" by auto
  thus ?thesis by (simp add: leastOf_def)
qed

lemma leastOf_new: "\<forall>m \<in> M. snd m < q \<Longrightarrow> leastOf q (insert (p, q) M) = p"
proof -
  assume "\<forall>m \<in> M. snd m < q"
  hence "{m \<in> insert (p, q) M. snd m = q} = {(p, q)}" by auto
  thus ?thesis by (simp add: leastOf_def)
qed

lemma identifiersOf_insert:
  "identifiersOf s (insert (p, q) M) =
     set_option (so_SubscriptionIdentifier (subOptionOrZero s p)) \<union> identifiersOf s M"
  by (simp add: identifiersOf_def)

lemma matchStep_identifiers:
  assumes "patternMatches topic sp p"
  shows "ms_matched (matchStep s topic sp (p, q) ms)"
    and "set (ms_identifiers (matchStep s topic sp (p, q) ms)) =
      set_option (so_SubscriptionIdentifier (subOptionOrZero s p)) \<union> set (ms_identifiers ms)"
  using assms by (auto simp: matchStep_def Let_def split: option.splits)

lemma matchStep_best:
  assumes "patternMatches topic sp p"
  shows "(ms_bestQoS (matchStep s topic sp (p, q) ms), ms_bestOpts (matchStep s topic sp (p, q) ms),
      ms_bestPattern (matchStep s topic sp (p, q) ms)) =
    (if \<not> ms_matched ms \<or> ms_bestQoS ms < q \<or> (q = ms_bestQoS ms \<and> p < ms_bestPattern ms)
     then (q, subOptionOrZero s p, p) else (ms_bestQoS ms, ms_bestOpts ms, ms_bestPattern ms))"
  using assms by (auto simp: matchStep_def Let_def moreSpecific_def split: option.splits)

lemma Max_insert_snd:
  assumes "finite M" "M \<noteq> {}"
  shows "Max (snd ` insert (p, q :: byte) M) = max q (Max (snd ` M))"
  using assms by simp

lemma stateOf_step:
  assumes "stateOf s M ms" "patternMatches topic sp p" "finite M"
  shows "stateOf s (insert (p, q) M) (matchStep s topic sp (p, q) ms)"
proof (cases "M = {}")
  case True
  have "leastOf q {(p, q)} = p" using leastOf_new [of "{}" q p] by simp
  with True assms(1) matchStep_best [OF assms(2), of s q ms] matchStep_identifiers [OF assms(2), of s q ms] show ?thesis
    by (simp add: stateOf_def identifiersOf_insert)
next
  case False
  define b where "b = Max (snd ` M)"
  have b: "ms_bestQoS ms = b" "ms_bestPattern ms = leastOf b M" "ms_matched ms"
    "ms_bestOpts ms = subOptionOrZero s (ms_bestPattern ms)" "set (ms_identifiers ms) = identifiersOf s M"
    using assms(1) False by (simp_all add: stateOf_def b_def)
  have bM: "\<exists>m \<in> M. snd m = b" using Max_in [of "snd ` M"] assms(3) False unfolding b_def by fastforce
  have bmax: "Max (snd ` insert (p, q) M) = max q b"
    unfolding b_def by (rule Max_insert_snd [OF assms(3) False])
  consider "b < q" | "q = b" | "q < b" by fastforce
  thus ?thesis
  proof cases
    case 1
    have "\<forall>m \<in> M. snd m < q" using 1 assms(3) unfolding b_def by (meson Max_ge finite_imageI imageI le_less_trans)
    from leastOf_new [OF this, of p] bmax b 1 matchStep_best [OF assms(2), of s q ms] matchStep_identifiers [OF assms(2), of s q ms]
    show ?thesis by (auto simp: stateOf_def identifiersOf_insert max_def)
  next
    case 2
    have "leastOf b (insert (p, b) M) = min p (leastOf b M)" by (rule leastOf_insert [OF assms(3) bM])
    with 2 bmax b matchStep_best [OF assms(2), of s q ms] matchStep_identifiers [OF assms(2), of s q ms]
    show ?thesis by (cases "p < leastOf b M") (auto simp: stateOf_def identifiersOf_insert min_def)
  next
    case 3
    have "leastOf b (insert (p, q) M) = leastOf b M" by (rule leastOf_other) (use 3 in simp)
    moreover have "\<not> b < q" "q \<noteq> b" "max q b = b" using 3 by auto
    ultimately show ?thesis using bmax b matchStep_best [OF assms(2), of s q ms] matchStep_identifiers [OF assms(2), of s q ms]
      by (simp add: stateOf_def identifiersOf_insert)
  qed
qed

lemma stateOf_fold:
  "stateOf s {pq \<in> set subs. patternMatches topic sp (fst pq)} (fold (matchStep s topic sp) subs noMatch)"
proof (induction subs rule: rev_induct)
  case Nil
  show ?case by (simp add: stateOf_def noMatch_def identifiersOf_def)
next
  case (snoc pq subs)
  obtain p q where pq: "pq = (p, q)" by (cases pq)
  let ?M = "{pq \<in> set subs. patternMatches topic sp (fst pq)}"
  show ?case
  proof (cases "patternMatches topic sp p")
    case True
    hence "{pq' \<in> set (subs @ [pq]). patternMatches topic sp (fst pq')} = insert (p, q) ?M"
      using pq by auto
    moreover have "stateOf s (insert (p, q) ?M) (matchStep s topic sp (p, q) (fold (matchStep s topic sp) subs noMatch))"
      using snoc True by (rule stateOf_step) simp
    ultimately show ?thesis using pq by simp
  next
    case False
    hence "{pq' \<in> set (subs @ [pq]). patternMatches topic sp (fst pq')} = ?M" using pq by auto
    with snoc False pq show ?thesis by (simp add: matchStep_def)
  qed
qed

lemma match_best: "matchSubscriptions s topic sysProtect = bestSubscription s (matching s topic sysProtect)"
  using stateOf_fold [of s "s_Subscriptions s" topic sysProtect]
  by (auto simp: matchSubscriptions_def Let_def bestSubscription_def stateOf_def sortCompact_set
      matching_def [symmetric] identifiersOf_def)

text \<open>
  C16. The subscription a delivery is made under does not depend on the order in which the map
  of subscriptions is visited: it is the one of the highest QoS and, among those, the one with
  the least filter, and the identifiers sent are those of all matching subscriptions, sorted
  and without duplicates.
\<close>

theorem matchSubscriptions_order_free:
  "matchSubscriptions s topic sysProtect = bestSubscription s (matching s topic sysProtect)"
  by (rule match_best)

section \<open>The outbound buffer\<close>

text \<open>A run of buffering and flushing calls on a session.\<close>

fun bufferRun :: "outboundMsg queueOp list \<Rightarrow> Session \<Rightarrow> outboundMsg list \<times> outboundMsg list \<times> Session" where
  "bufferRun [] s = ([], [], s)"
| "bufferRun (Push x # ops) s = (case BufferOutbound x s of (ok, s') \<Rightarrow>
     (case bufferRun ops s' of (acc, out, s'') \<Rightarrow> (if ok then x # acc else acc, out, s'')))"
| "bufferRun (Pop # ops) s = (case PopOutbound s of (r, s') \<Rightarrow>
     (case bufferRun ops s' of (acc, out, s'') \<Rightarrow> (acc, case r of None \<Rightarrow> out | Some x \<Rightarrow> x # out, s'')))"

interpretation outbound: bounded_queue s_outboundQueue BufferOutbound PopOutbound maxBufferedOutbound
  by unfold_locales (simp_all add: BufferOutbound_def PopOutbound_def)

lemma bufferRun_queueRun: "bufferRun ops s = outbound.queueRun ops s"
  by (induction ops s rule: bufferRun.induct) (auto simp: outbound.queueRun.simps split: prod.split)

text \<open>
  C13. The buffer that holds back deliveries while the receive window is full neither loses,
  duplicates nor reorders a message it accepted: over any sequence of calls, the messages taken
  followed by the messages left are the messages first there followed by the accepted ones, and
  the buffer never grows beyond its bound of 1000.
\<close>

theorem outbound_buffer_fifo:
  assumes "bufferRun ops s = (accepted, taken, s')"
  shows "taken @ s_outboundQueue s' = s_outboundQueue s @ accepted \<and>
    (length (s_outboundQueue s) \<le> maxBufferedOutbound \<longrightarrow> length (s_outboundQueue s') \<le> maxBufferedOutbound)"
  using assms outbound.run_order [of ops s] outbound.run_bounded [of ops s]
  unfolding bufferRun_queueRun by blast

definition exOutbound :: "u16 \<Rightarrow> outboundMsg" where
  "exOutbound n = \<lparr> om_pkt = \<lparr> pp_fh = \<lparr> fh_PacketType = 3, fh_Dup = False, fh_QoS = 1, fh_Retain = False,
       fh_RemainingLength = 0, fh_HeaderSize = 0 \<rparr>, pp_PacketID = n, pp_Topic = [97], pp_Payload = [],
       pp_Properties = None \<rparr>, om_deliverQoS = 1, om_subOpts = zeroSubOptions, om_subIDs = [], om_expiresAt = None \<rparr>"

theorem outbound_buffer_fifo_witness:
  "[exOutbound 1] @ s_outboundQueue (snd (snd (bufferRun [Push (exOutbound 1), Push (exOutbound 2), Pop] zeroSession))) =
     [exOutbound 1, exOutbound 2]"
proof -
  have r: "bufferRun [Push (exOutbound 1), Push (exOutbound 2), Pop] zeroSession =
    ([exOutbound 1, exOutbound 2], [exOutbound 1],
     snd (snd (bufferRun [Push (exOutbound 1), Push (exOutbound 2), Pop] zeroSession)))"
    by (simp add: BufferOutbound_def PopOutbound_def zeroSession_def)
  from outbound_buffer_fifo [OF r] show ?thesis by (simp add: zeroSession_def)
qed

section \<open>Well-formed sessions\<close>

text \<open>
  The invariant of a session: every map has one entry per key, unacknowledged and staged
  messages sit under their own identifier, the options are those of the subscriptions, and the
  counters are in range.
\<close>

definition subsOk :: "Session \<Rightarrow> bool" where
  "subsOk s \<longleftrightarrow> mapOk (s_Subscriptions s) \<and>
     (\<exists>m. s_SubOptions s = Some m \<and> mapOk m \<and> map_option so_QoS \<circ> map_of m = map_of (s_Subscriptions s))"

definition sessionOk :: "Session \<Rightarrow> bool" where
  "sessionOk s \<longleftrightarrow> subsOk s \<and> keyedBy if_PacketID (s_Inflight s) \<and> keyedBy iq_PacketID (s_inboundQoS2 s) \<and>
     mapOk (s_topicAliases s) \<and> s_packetIDSeq s \<noteq> 0 \<and> 0 \<le> s_outboundUnacked s \<and>
     length (s_outboundQueue s) \<le> maxBufferedOutbound"

lemma subsOk_new: "subsOk (newSession now clientID pkt)"
  by (simp add: subsOk_def newSession_def zeroSession_def)

lemma subsOk_add: "subsOk s \<Longrightarrow> subsOk (AddSubscriptionFilter f s)"
  by (auto simp: subsOk_def AddSubscriptionFilter_def fillSubOptions_def fun_eq_iff)

lemma subsOk_remove: "subsOk s \<Longrightarrow> subsOk (RemoveSubscription t s)"
  by (auto simp: subsOk_def RemoveSubscription_def fun_eq_iff)

lemma subsOk_frame [simp]:
  "subsOk (s\<lparr>s_LastActivity := a\<rparr>) = subsOk s" "subsOk (s\<lparr>s_packetIDSeq := b\<rparr>) = subsOk s"
  "subsOk (s\<lparr>s_Inflight := c\<rparr>) = subsOk s" "subsOk (s\<lparr>s_inboundQoS2 := d\<rparr>) = subsOk s"
  "subsOk (s\<lparr>s_topicAliases := e\<rparr>) = subsOk s" "subsOk (s\<lparr>s_stats := f\<rparr>) = subsOk s"
  "subsOk (s\<lparr>s_sentCount := g\<rparr>) = subsOk s" "subsOk (s\<lparr>s_sentBytes := h\<rparr>) = subsOk s" "subsOk (s\<lparr>s_outboundUnacked := i\<rparr>) = subsOk s"
  "subsOk (s\<lparr>s_outboundQueue := j\<rparr>) = subsOk s" "subsOk (s\<lparr>s_state := k\<rparr>) = subsOk s"
  "subsOk (s\<lparr>s_closeReason := l\<rparr>) = subsOk s"
  by (simp_all add: subsOk_def)

text \<open>The calls that change a session.\<close>

datatype sessOp =
    SUpdateActivity int
  | SAddSubscription TopicFilter
  | SRemoveSubscription gostring
  | SNextPacketID
  | SAddInflight InflightMsg
  | SRemoveInflight u16
  | SAddInboundQoS2 InboundQoS2 int
  | STakeInboundQoS2 u16
  | SMarkInflightPubRel u16
  | SRegisterTopicAlias u16 gostring
  | STrackReceived nat
  | STrackSent nat
  | SIncOutbound
  | SDecOutbound
  | SResetOutbound
  | SBufferOutbound outboundMsg
  | SPopOutbound
  | SSetState SessState
  | SSetCloseReason CloseReason
  | SResume int ConnectPacket

fun sessStep :: "sessOp \<Rightarrow> Session \<Rightarrow> Session" where
  "sessStep (SUpdateActivity now) s = UpdateActivity now s"
| "sessStep (SAddSubscription f) s = AddSubscriptionFilter f s"
| "sessStep (SRemoveSubscription t) s = RemoveSubscription t s"
| "sessStep SNextPacketID s = snd (NextPacketID s)"
| "sessStep (SAddInflight m) s = AddInflight m s"
| "sessStep (SRemoveInflight i) s = snd (RemoveInflight i s)"
| "sessStep (SAddInboundQoS2 m n) s = snd (AddInboundQoS2 m n s)"
| "sessStep (STakeInboundQoS2 i) s = snd (TakeInboundQoS2 i s)"
| "sessStep (SMarkInflightPubRel i) s = snd (MarkInflightPubRel i s)"
| "sessStep (SRegisterTopicAlias a t) s = snd (RegisterTopicAlias a t s)"
| "sessStep (STrackReceived n) s = TrackReceived n s"
| "sessStep (STrackSent n) s = TrackSent n s"
| "sessStep SIncOutbound s = IncOutboundUnacked s"
| "sessStep SDecOutbound s = DecOutboundUnacked s"
| "sessStep SResetOutbound s = ResetOutboundUnacked s"
| "sessStep (SBufferOutbound m) s = snd (BufferOutbound m s)"
| "sessStep SPopOutbound s = snd (PopOutbound s)"
| "sessStep (SSetState st) s = SetState st s"
| "sessStep (SSetCloseReason r) s = SetCloseReason r s"
| "sessStep (SResume now pkt) s = resumeSession now pkt s"

lemmas sess_op_defs = UpdateActivity_def NextPacketID_def AddInflight_def RemoveInflight_def
  AddInboundQoS2_def TakeInboundQoS2_def MarkInflightPubRel_def RegisterTopicAlias_def TrackReceived_def
  TrackSent_def IncOutboundUnacked_def DecOutboundUnacked_def ResetOutboundUnacked_def BufferOutbound_def
  PopOutbound_def SetState_def SetCloseReason_def

lemma subsOk_resume: "subsOk s \<Longrightarrow> subsOk (resumeSession now pkt s)"
  unfolding subsOk_def by (elim conjE exE) (simp add: resumeSession_def fillSubOptions_def)

lemma sessionOk_resume: "sessionOk s \<Longrightarrow> sessionOk (resumeSession now pkt s)"
  using subsOk_resume [of s now pkt] by (simp add: sessionOk_def resumeSession_def)

lemma sessionOk_next: "sessionOk s \<Longrightarrow> sessionOk (snd (NextPacketID s))"
  using nextIDLoop_nonzero [of "s_packetIDSeq s" 65535 "s_Inflight s"]
  by (simp add: sessionOk_def NextPacketID_def split_beta)

lemma sessionOk_mark: "sessionOk s \<Longrightarrow> sessionOk (snd (MarkInflightPubRel i s))"
  using keyedBy_lookup [of if_PacketID "s_Inflight s" i]
  by (simp add: sessionOk_def MarkInflightPubRel_def keyedBy_update split: option.split)

lemma sessionOk_step: "sessionOk s \<Longrightarrow> sessionOk (sessStep op s)"
proof (cases op)
  case (SAddSubscription f)
  assume "sessionOk s"
  with SAddSubscription subsOk_add [of s f] show ?thesis
    by (simp add: sessionOk_def AddSubscriptionFilter_def)
next
  case (SRemoveSubscription t)
  assume "sessionOk s"
  with SRemoveSubscription subsOk_remove [of s t] show ?thesis
    by (simp add: sessionOk_def RemoveSubscription_def)
next
  case (SBufferOutbound m)
  assume "sessionOk s"
  with SBufferOutbound show ?thesis by (simp add: sessionOk_def BufferOutbound_def)
next
  case SPopOutbound
  assume "sessionOk s"
  with SPopOutbound show ?thesis by (cases "s_outboundQueue s") (simp_all add: sessionOk_def PopOutbound_def)
qed (simp_all add: sessionOk_resume sessionOk_next sessionOk_mark,
    simp_all add: sessionOk_def sess_op_defs keyedBy_update keyedBy_delete split: option.split)

lemma sessionOk_run: "sessionOk s \<Longrightarrow> sessionOk (fold sessStep ops s)"
  by (induction ops arbitrary: s) (simp_all add: sessionOk_step)

lemma sessionOk_new: "sessionOk (newSession now clientID pkt)"
  using subsOk_new [of now clientID pkt] by (simp add: sessionOk_def newSession_def zeroSession_def)


section \<open>Saving and restoring\<close>

lemma rebuild_pairs:
  assumes "mapOk m"
  shows "map_of (fold (\<lambda>kv. mset_key (fst kv) (g kv)) m n) = map_of n ++ (\<lambda>k. map_option (\<lambda>v. g (k, v)) (map_of m k))"
  using assms
proof (induction m arbitrary: n)
  case (Cons a m)
  obtain k v where a: "a = (k, v)" by (cases a)
  with Cons.prems have k: "map_of m k = None" "mapOk m" by (auto simp: map_of_eq_None_iff)
  have "map_of (fold (\<lambda>kv. mset_key (fst kv) (g kv)) (a # m) n) =
      (map_of n)(k \<mapsto> g (k, v)) ++ (\<lambda>k. map_option (\<lambda>v. g (k, v)) (map_of m k))"
    using Cons.IH [OF k(2), of "mset_key k (g (k, v)) n"] a by (simp only: fold_simps fst_conv map_of_update)
  also have "\<dots> = map_of n ++ (\<lambda>k'. map_option (\<lambda>v. g (k', v)) (map_of (a # m) k'))"
    using k(1) a by (auto simp: map_add_def fun_eq_iff split: option.splits)
  finally show ?case .
qed (simp add: map_add_def)

lemma mapOk_rebuild: "mapOk n \<Longrightarrow> mapOk (fold (\<lambda>kv. mset_key (f kv) (g kv)) m n)"
  by (induction m arbitrary: n) simp_all

definition subToOpts :: "StoreSubscription \<Rightarrow> SubscriptionOptions" where
  "subToOpts sub = \<lparr> so_QoS = sub_QoS sub, so_NoLocal = sub_NoLocal sub,
     so_RetainAsPublished = sub_RetainAsPublished sub, so_RetainHandling = sub_RetainHandling sub,
     so_SubscriptionIdentifier = sub_SubscriptionIdentifier sub \<rparr>"

lemma restoreSubscriptions:
  assumes "s_SubOptions s0 = Some m0"
  shows "fold restoreSubscription subs s0 = s0\<lparr>
    s_Subscriptions := fold (\<lambda>sub. mset_key (sub_Topic sub) (sub_QoS sub)) subs (s_Subscriptions s0),
    s_SubOptions := Some (fold (\<lambda>sub. mset_key (sub_Topic sub) (subToOpts sub)) subs m0)\<rparr>"
  using assms by (induction subs arbitrary: s0 m0) (simp_all add: restoreSubscription_def subToOpts_def)

lemma fold_stored:
  "fold (\<lambda>sub. mset_key (sub_Topic sub) (g sub)) (map (storeSubscription s) subs) n =
     fold (\<lambda>kv. mset_key (fst kv) (g (storeSubscription s kv))) subs n"
  by (induction subs arbitrary: n) (auto simp: storeSubscription_def Let_def)

lemma subToOpts_store:
  assumes "subsOk s" "map_of (s_Subscriptions s) p = Some q"
  shows "subOption s p = Some (subToOpts (storeSubscription s (p, q)))"
proof -
  from assms(1) obtain m where m: "s_SubOptions s = Some m" "map_option so_QoS \<circ> map_of m = map_of (s_Subscriptions s)"
    by (auto simp: subsOk_def)
  with assms(2) have "map_option so_QoS (map_of m p) = Some q" by (metis comp_apply)
  then obtain opts where "map_of m p = Some opts" "so_QoS opts = q" by auto
  with m(1) show ?thesis
    by (cases opts) (simp add: subOption_def subToOpts_def storeSubscription_def subOptionOrZero_def)
qed

lemma subOption_none:
  assumes "subsOk s" "map_of (s_Subscriptions s) p = None"
  shows "subOption s p = None"
proof -
  from assms(1) obtain m where "s_SubOptions s = Some m" "map_option so_QoS \<circ> map_of m = map_of (s_Subscriptions s)"
    by (auto simp: subsOk_def)
  with assms(2) show ?thesis unfolding subOption_def by (metis comp_apply map_option_is_None option.case(2))
qed

lemma restore_subs:
  assumes "subsOk s"
  shows "map_of (s_Subscriptions (restoreSession now (Save t s))) = map_of (s_Subscriptions s)"
    and "mapOk (s_Subscriptions (restoreSession now (Save t s)))"
    and "subOption (restoreSession now (Save t s)) = subOption s"
    and "subsOk (restoreSession now (Save t s))"
proof -
  let ?r = "restoreSession now (Save t s)"
  have ok: "mapOk (s_Subscriptions s)" using assms by (simp add: subsOk_def)
  define M where "M = fold (\<lambda>kv. mset_key (fst kv) (subToOpts (storeSubscription s kv))) (s_Subscriptions s) []"
  have r: "s_Subscriptions ?r = fold (\<lambda>kv. mset_key (fst kv) (sub_QoS (storeSubscription s kv))) (s_Subscriptions s) []"
    "s_SubOptions ?r = Some M"
    by (simp_all add: restoreSession_def Save_def restoreSubscriptions [where ?m0.0 = "[]"] fold_stored zeroSession_def M_def)
  have q: "sub_QoS (storeSubscription s (k, v)) = v" for k v by (simp add: storeSubscription_def Let_def)
  show 1: "map_of (s_Subscriptions ?r) = map_of (s_Subscriptions s)"
    unfolding r rebuild_pairs [OF ok] by (simp add: q map_add_def option.map_ident fun_eq_iff split: option.split)
  show 2: "mapOk (s_Subscriptions ?r)" unfolding r by (rule mapOk_rebuild) simp
  have M: "map_of M k = subOption s k" for k
    unfolding M_def rebuild_pairs [OF ok] using subToOpts_store [OF assms, of k] subOption_none [OF assms, of k]
    by (cases "map_of (s_Subscriptions s) k") (simp_all add: map_add_def)
  show "subOption ?r = subOption s" using r(2) M by (simp add: subOption_def fun_eq_iff)
  obtain m where m: "s_SubOptions s = Some m" "map_option so_QoS \<circ> map_of m = map_of (s_Subscriptions s)"
    using assms by (auto simp: subsOk_def)
  have "mapOk M" unfolding M_def by (rule mapOk_rebuild) simp
  moreover have "map_of M = map_of m" using M m(1) by (simp add: subOption_def fun_eq_iff)
  ultimately show "subsOk ?r" using 1 2 r(2) m(2) by (simp add: subsOk_def)
qed

lemma map_of_values: "map_of (map (\<lambda>(k, v). (k, f v)) m) = map_option f \<circ> map_of m"
  by (induction m) auto

definition storedCopy :: "InflightMsg \<Rightarrow> InflightMsg" where
  "storedCopy m = m\<lparr>if_SentAt := None, if_Properties := protocolProperties (storeProperties (if_Properties m))\<rparr>"

definition storedInbound :: "int \<Rightarrow> InboundQoS2 \<Rightarrow> InboundQoS2" where
  "storedInbound now m = m\<lparr>iq_ReceivedAt := now, iq_Properties := protocolProperties (storeProperties (iq_Properties m))\<rparr>"

lemma restore_stored [simp]:
  "restoreInflight (storeInflight m) = storedCopy m" "restoreInbound now (storeInbound i) = storedInbound now i"
  by (cases m, simp add: restoreInflight_def storeInflight_def storedCopy_def)
     (cases i, simp add: restoreInbound_def storeInbound_def storedInbound_def)

lemma restore_fields:
  "s_Inflight (restoreSession now d) = map (\<lambda>(i, msg). (i, restoreInflight msg)) (sd_Inflight d)"
  "s_inboundQoS2 (restoreSession now d) = map (\<lambda>(i, msg). (i, restoreInbound now msg)) (sd_InboundQoS2 d)"
  "s_ClientID (restoreSession now d) = sd_ClientID d" "s_Username (restoreSession now d) = sd_Username d"
  "s_IsClean (restoreSession now d) = sd_IsClean d" "s_KeepAlive (restoreSession now d) = sd_KeepAlive d"
  "s_ProtocolVer (restoreSession now d) = sd_ProtocolVer d" "s_ExpiryInterval (restoreSession now d) = sd_ExpiryInterval d"
  "s_packetIDSeq (restoreSession now d) = 1" "s_outboundUnacked (restoreSession now d) = 0"
  "s_publishRate (restoreSession now d) = None" "s_outboundQueue (restoreSession now d) = []"
  by (simp_all add: restoreSession_def restoreSubscriptions [where ?m0.0 = "[]"] zeroSession_def)

lemma restore_inflight:
  assumes "keyedBy if_PacketID (s_Inflight s)"
  shows "map_of (s_Inflight (restoreSession now (Save t s))) = map_option storedCopy \<circ> map_of (s_Inflight s)"
  using rebuild_keyed [OF assms, of storeInflight "[]"]
  by (simp add: restore_fields Save_def map_of_values fun_eq_iff map_option.compositionality comp_def)

lemma restore_inbound:
  assumes "keyedBy iq_PacketID (s_inboundQoS2 s)"
  shows "map_of (s_inboundQoS2 (restoreSession now (Save t s))) = map_option (storedInbound now) \<circ> map_of (s_inboundQoS2 s)"
  using rebuild_keyed [OF assms, of storeInbound "[]"]
  by (simp add: restore_fields Save_def map_of_values fun_eq_iff map_option.compositionality comp_def)

lemma keyed_map:
  assumes "keyedBy f m" "\<And>v. g (h v) = f v"
  shows "keyedBy g (map (\<lambda>(k, v). (k, h v)) m)"
proof -
  have "map fst (map (\<lambda>(k, v). (k, h v)) m) = map fst m" by auto
  with assms(1) have "mapOk (map (\<lambda>(k, v). (k, h v)) m)" by (simp only: keyedBy_mapOk)
  with assms show ?thesis unfolding keyedBy_def by auto
qed

lemma keyed_rebuild:
  assumes "\<And>v. f (g v) = h v" "keyedBy f n"
  shows "keyedBy f (fold (\<lambda>v. mset_key (h v) (g v)) vs n)"
  using assms(2) by (induction vs arbitrary: n) (simp_all add: keyedBy_update assms(1))

lemma keyed_restore:
  "keyedBy if_PacketID (map (\<lambda>(i, msg). (i, restoreInflight msg))
     (fold (\<lambda>msg. mset_key (if_PacketID msg) (storeInflight msg)) ms []))"
  "keyedBy iq_PacketID (map (\<lambda>(i, msg). (i, restoreInbound now msg))
     (fold (\<lambda>msg. mset_key (iq_PacketID msg) (storeInbound msg)) ns []))"
  by (rule keyed_map [where f = si_PacketID], rule keyed_rebuild;
      simp add: storeInflight_def restoreInflight_def storeInbound_def restoreInbound_def)+

lemma match_restored:
  assumes "subsOk s"
  shows "matchSubscriptions (restoreSession now (Save t s)) topic sp = matchSubscriptions s topic sp"
proof -
  note r = restore_subs [OF assms, of now t]
  have "set (s_Subscriptions (restoreSession now (Save t s))) = set (s_Subscriptions s)"
    using r(1) r(2) assms map_of_inject_set by (metis subsOk_def)
  moreover have "subOptionOrZero (restoreSession now (Save t s)) = subOptionOrZero s"
    using r(3) by (simp add: subOptionOrZero_def fun_eq_iff)
  ultimately show ?thesis
    unfolding match_best matching_def bestSubscription_def identifiersOf_def by (simp only:)
qed

text \<open>
  C18. A session that is saved and restored after a restart has the subscriptions and options it
  had, chooses the same subscription for every topic, and still holds every unacknowledged and
  every staged message under its identifier, with the stage of the handshake; only the send
  time, the arrival time and the properties outside the relayed set are not kept. The restored
  session is well formed again.
\<close>

theorem session_survives_restart:
  assumes "sessionOk s"
  shows "let r = restoreSession now (Save t s) in
    map_of (s_Subscriptions r) = map_of (s_Subscriptions s) \<and> subOption r = subOption s \<and>
    (\<forall>topic sp. matchSubscriptions r topic sp = matchSubscriptions s topic sp) \<and>
    map_of (s_Inflight r) = map_option storedCopy \<circ> map_of (s_Inflight s) \<and>
    map_of (s_inboundQoS2 r) = map_option (storedInbound now) \<circ> map_of (s_inboundQoS2 s) \<and>
    s_ClientID r = s_ClientID s \<and> s_Username r = s_Username s \<and> s_ProtocolVer r = s_ProtocolVer s \<and>
    s_ExpiryInterval r = s_ExpiryInterval s \<and> sessionOk r"
proof -
  let ?r = "restoreSession now (Save t s)"
  have s: "subsOk s" "keyedBy if_PacketID (s_Inflight s)" "keyedBy iq_PacketID (s_inboundQoS2 s)"
    using assms by (simp_all add: sessionOk_def)
  have "keyedBy if_PacketID (s_Inflight ?r)" "keyedBy iq_PacketID (s_inboundQoS2 ?r)"
    by (simp_all add: restore_fields Save_def keyed_restore)
  hence "sessionOk ?r" using restore_subs(4) [OF s(1)]
    by (simp add: sessionOk_def restore_fields) (simp add: restoreSession_def restoreSubscriptions [where ?m0.0 = "[]"] zeroSession_def)
  thus ?thesis
    using restore_subs(1,3) [OF s(1), of now t] match_restored [OF s(1), of now t]
      restore_inflight [OF s(2), of now t] restore_inbound [OF s(3), of now t]
    by (simp add: Let_def restore_fields(3-8)) (simp add: Save_def)
qed

definition exSaved :: Session where
  "exSaved = fold sessStep
     [SAddSubscription \<lparr> tf_Topic = [97], tf_QoS = 1, tf_NoLocal = True, tf_RetainAsPublished = False,
        tf_RetainHandling = 0, tf_SubscriptionIdentifier = Some 7 \<rparr>, SAddInflight (exInflight 5)]
     (zeroSession\<lparr>s_packetIDSeq := 1\<rparr>)"

theorem session_survives_restart_witness:
  "map_of (s_Inflight (restoreSession 9 (Save 3 exSaved))) 5 = Some (storedCopy (exInflight 5)) \<and>
   map_of (s_Subscriptions (restoreSession 9 (Save 3 exSaved))) [97] = Some 1"
proof -
  have "sessionOk (zeroSession\<lparr>s_packetIDSeq := 1\<rparr>)"
    by (simp add: sessionOk_def subsOk_def zeroSession_def)
  hence "sessionOk exSaved" unfolding exSaved_def by (rule sessionOk_run)
  from session_survives_restart [OF this, of 9 3] show ?thesis
    by (simp add: Let_def exSaved_def AddSubscriptionFilter_def AddInflight_def zeroSession_def exInflight_def)
qed

end
