(* ===== verification/MemoryStore.thy ===== *)
theory MemoryStore
  imports StoreTypes Topic
begin

text \<open>
  The in-memory stores of \<^verbatim>\<open>src/store/memory/memory.go\<close>: sessions, queued messages, and retained
  messages with the trie that indexes them by topic level. Values are immutable here, so the
  deep copies the sources make on the way in and out are the values themselves. None of the
  operations can fail except a lookup of a missing key.
\<close>

section \<open>Sessions\<close>

type_synonym sessionStore = "(gostring, SessionData) gomap"

definition SaveSession :: "gostring \<Rightarrow> SessionData option \<Rightarrow> sessionStore \<Rightarrow> sessionStore" where
  "SaveSession clientID data s = (case data of None \<Rightarrow> mdel_key clientID s | Some d \<Rightarrow> mset_key clientID d s)"

definition GetStoredSession :: "sessionStore \<Rightarrow> gostring \<Rightarrow> storeErr + SessionData" where
  "GetStoredSession s clientID = (case map_of s clientID of None \<Rightarrow> Inl ErrSessionNotFound | Some d \<Rightarrow> Inr d)"

definition DeleteSession :: "gostring \<Rightarrow> sessionStore \<Rightarrow> sessionStore" where
  "DeleteSession clientID s = mdel_key clientID s"

definition ListStoredSessions :: "sessionStore \<Rightarrow> gostring list" where
  "ListStoredSessions s = map fst s"

definition IsSessionExists :: "sessionStore \<Rightarrow> gostring \<Rightarrow> bool" where
  "IsSessionExists s clientID \<longleftrightarrow> map_of s clientID \<noteq> None"

section \<open>Queued messages\<close>

type_synonym messageStore = "(gostring, (int \<times> nat, StoredMessage) gomap) gomap"

definition SaveMessage :: "gostring \<Rightarrow> StoredMessage \<Rightarrow> messageStore \<Rightarrow> messageStore" where
  "SaveMessage clientID msg m =
     (let msgs = (case map_of m clientID of None \<Rightarrow> [] | Some ms \<Rightarrow> ms)
      in mset_key clientID (mset_key (sm_ID msg) msg msgs) m)"

definition GetMessage :: "gostring \<Rightarrow> int \<times> nat \<Rightarrow> messageStore \<Rightarrow> storeErr + StoredMessage" where
  "GetMessage clientID i m =
     (case map_of m clientID of None \<Rightarrow> Inl ErrMessageNotFound
      | Some msgs \<Rightarrow> (case map_of msgs i of None \<Rightarrow> Inl ErrMessageNotFound | Some msg \<Rightarrow> Inr msg))"

definition DeleteMessage :: "gostring \<Rightarrow> int \<times> nat \<Rightarrow> messageStore \<Rightarrow> messageStore" where
  "DeleteMessage clientID i m =
     (case map_of m clientID of None \<Rightarrow> m | Some msgs \<Rightarrow> mset_key clientID (mdel_key i msgs) m)"

definition ListMessages :: "gostring \<Rightarrow> messageStore \<Rightarrow> StoredMessage list" where
  "ListMessages clientID m = (case map_of m clientID of None \<Rightarrow> [] | Some msgs \<Rightarrow> map snd msgs)"

definition ClearMessages :: "gostring \<Rightarrow> messageStore \<Rightarrow> messageStore" where
  "ClearMessages clientID m = mdel_key clientID m"

section \<open>Retained messages\<close>

datatype retainedTrie =
  RetainedTrie (rchildren: "(level, retainedTrie) gomap") (rmsg: "RetainedMessage option")

abbreviation "emptyTrie \<equiv> RetainedTrie [] None"

record retainedStore =
  rs_messages :: "(gostring, RetainedMessage) gomap"
  rs_index :: retainedTrie

definition NewRetainedStore :: retainedStore where
  "NewRetainedStore = \<lparr> rs_messages = [], rs_index = emptyTrie \<rparr>"

lemma size_rchild [simp]: "(p, c) \<in> set ch \<Longrightarrow> size c < Suc (size_list (size_prod (\<lambda>x. 0) size) ch)"
  for c :: retainedTrie
  by (induction ch) auto

fun addTrie :: "retainedTrie \<Rightarrow> level list \<Rightarrow> RetainedMessage \<Rightarrow> retainedTrie" where
  "addTrie (RetainedTrie ch msg) [] m = RetainedTrie ch (Some m)"
| "addTrie (RetainedTrie ch msg) (part # parts) m =
     (let child = (case map_of ch part of None \<Rightarrow> emptyTrie | Some c \<Rightarrow> c)
      in RetainedTrie (mset_key part (addTrie child parts m) ch) msg)"

text \<open>The boolean result tells the parent that the child is empty and may be unlinked.\<close>

fun removeTrie :: "retainedTrie \<Rightarrow> level list \<Rightarrow> bool \<times> retainedTrie" where
  "removeTrie (RetainedTrie ch msg) [] = (length ch = 0, RetainedTrie ch None)"
| "removeTrie (RetainedTrie ch msg) (part # parts) =
     (case map_of ch part of
        None \<Rightarrow> (False, RetainedTrie ch msg)
      | Some child \<Rightarrow>
          (case removeTrie child parts of (prune, child') \<Rightarrow>
             let ch' = (if prune then mdel_key part ch else mset_key part child' ch)
             in (msg = None \<and> length ch' = 0, RetainedTrie ch' msg)))"

type_synonym retainedAcc = "RetainedMessage list \<times> gostring list"

text \<open>Appending the message of a node, unless its topic was visited.\<close>

definition addRetained :: "RetainedMessage option \<Rightarrow> retainedAcc \<Rightarrow> retainedAcc" where
  "addRetained msg acc = (case msg of None \<Rightarrow> acc
     | Some m \<Rightarrow> (case acc of (result, visited) \<Rightarrow>
         if rm_Topic m \<in> set visited then acc else (result @ [m], rm_Topic m # visited)))"

fun collectAll :: "retainedTrie \<Rightarrow> retainedAcc \<Rightarrow> retainedAcc" where
  "collectAll (RetainedTrie ch msg) acc = fold (\<lambda>pc acc. collectAll (snd pc) acc) ch (addRetained msg acc)"

fun matchTrie :: "retainedTrie \<Rightarrow> level list \<Rightarrow> retainedAcc \<Rightarrow> retainedAcc" where
  "matchTrie (RetainedTrie ch msg) [] acc = addRetained msg acc"
| "matchTrie (RetainedTrie ch msg) (part # parts) acc =
     (if part = [hashc] then collectAll (RetainedTrie ch msg) acc
      else if part = [plusc] then fold (\<lambda>pc acc. matchTrie (snd pc) parts acc) ch acc
      else case map_of ch part of None \<Rightarrow> acc | Some child \<Rightarrow> matchTrie child parts acc)"

definition SaveRetained :: "int \<Rightarrow> RetainedMessage \<Rightarrow> retainedStore \<Rightarrow> retainedStore" where
  "SaveRetained now msg r =
     (if length (rm_Payload msg) = 0
      then r\<lparr> rs_messages := mdel_key (rm_Topic msg) (rs_messages r),
              rs_index := snd (removeTrie (rs_index r) (Split (rm_Topic msg))) \<rparr>
      else let stored = (case rm_Timestamp msg of None \<Rightarrow> msg\<lparr>rm_Timestamp := Some now\<rparr> | Some _ \<Rightarrow> msg) in
           r\<lparr> rs_messages := mset_key (rm_Topic msg) stored (rs_messages r),
              rs_index := addTrie (rs_index r) (Split (rm_Topic msg)) stored \<rparr>)"

definition GetRetained :: "gostring \<Rightarrow> retainedStore \<Rightarrow> storeErr + RetainedMessage" where
  "GetRetained topic r = (case map_of (rs_messages r) topic of None \<Rightarrow> Inl ErrRetainedNotFound | Some m \<Rightarrow> Inr m)"

definition DeleteRetained :: "gostring \<Rightarrow> retainedStore \<Rightarrow> retainedStore" where
  "DeleteRetained topic r = r\<lparr> rs_messages := mdel_key topic (rs_messages r),
     rs_index := snd (removeTrie (rs_index r) (Split topic)) \<rparr>"

definition MatchRetained :: "gostring \<Rightarrow> retainedStore \<Rightarrow> RetainedMessage list" where
  "MatchRetained pattern r =
     (if length (rs_messages r) = 0 then [] else fst (matchTrie (rs_index r) (Split pattern) ([], [])))"

section \<open>The trie as a map from levels to messages\<close>

fun rentries :: "retainedTrie \<Rightarrow> level list \<Rightarrow> RetainedMessage option" where
  "rentries (RetainedTrie ch msg) [] = msg"
| "rentries (RetainedTrie ch msg) (p # ps) = (case map_of ch p of None \<Rightarrow> None | Some c \<Rightarrow> rentries c ps)"

fun wfTrie :: "retainedTrie \<Rightarrow> bool" where
  "wfTrie (RetainedTrie ch msg) \<longleftrightarrow> mapOk ch \<and> list_all (\<lambda>pc. wfTrie (snd pc)) ch"

lemma rentries_empty [simp]: "rentries emptyTrie ps = None"
  by (cases ps) simp_all

lemma wfTrie_child: "wfTrie (RetainedTrie ch msg) \<Longrightarrow> (p, c) \<in> set ch \<Longrightarrow> wfTrie c"
  by (auto simp: list_all_iff)

lemma wfTrie_lookup: "wfTrie (RetainedTrie ch msg) \<Longrightarrow> map_of ch p = Some c \<Longrightarrow> wfTrie c"
  using wfTrie_child map_of_SomeD by metis

lemma wfTrie_update: "wfTrie (RetainedTrie ch msg) \<Longrightarrow> wfTrie c \<Longrightarrow> wfTrie (RetainedTrie (mset_key p c ch) msg')"
  by (simp add: list_all_iff set_update_key)

lemma wfTrie_delete: "wfTrie (RetainedTrie ch msg) \<Longrightarrow> wfTrie (RetainedTrie (mdel_key p ch) msg')"
  by (simp add: list_all_iff set_delete_key)

lemma addTrie_wf: "wfTrie n \<Longrightarrow> wfTrie (addTrie n parts m)"
proof (induction n parts m rule: addTrie.induct)
  case (2 ch msg part parts m)
  have "wfTrie (case map_of ch part of None \<Rightarrow> emptyTrie | Some c \<Rightarrow> c)"
    using wfTrie_lookup [OF 2(2)] by (simp split: option.split)
  with 2 show ?case unfolding addTrie.simps Let_def by (intro wfTrie_update) simp_all
qed simp

lemma addTrie_entries: "rentries (addTrie n parts m) ps = (if ps = parts then Some m else rentries n ps)"
proof (induction n parts m arbitrary: ps rule: addTrie.induct)
  case (1 ch msg m)
  show ?case by (cases ps) simp_all
next
  case (2 ch msg part parts m)
  show ?case
  proof (cases ps)
    case (Cons p qs)
    show ?thesis using 2 [OF refl, of qs] Cons by (auto simp: Let_def split: option.splits)
  qed simp
qed

lemma removeTrie_prune: "fst (removeTrie n parts) \<Longrightarrow> snd (removeTrie n parts) = emptyTrie"
  by (induction n parts rule: removeTrie.induct) (auto simp: Let_def split: option.splits prod.splits if_splits)

lemma removeTrie_wf: "wfTrie n \<Longrightarrow> wfTrie (snd (removeTrie n parts))"
proof (induction n parts rule: removeTrie.induct)
  case (2 ch msg part parts)
  show ?case
  proof (cases "map_of ch part")
    case (Some child)
    have "wfTrie (snd (removeTrie child parts))" using 2 Some wfTrie_lookup by blast
    with 2(2) Some show ?thesis
      by (simp add: Let_def split_beta wfTrie_update wfTrie_delete del: wfTrie.simps)
  qed (use 2 in simp)
qed simp

lemma removeTrie_entries:
  "rentries (snd (removeTrie n parts)) ps = (if ps = parts then None else rentries n ps)"
proof (induction n parts arbitrary: ps rule: removeTrie.induct)
  case (1 ch msg)
  show ?case by (cases ps) simp_all
next
  case (2 ch msg part parts)
  show ?case
  proof (cases "map_of ch part")
    case None
    thus ?thesis by (cases ps) auto
  next
    case (Some child)
    obtain prune child' where r: "removeTrie child parts = (prune, child')" by (cases "removeTrie child parts")
    have e: "prune \<Longrightarrow> child' = emptyTrie" using removeTrie_prune [of child parts] r by simp
    show ?thesis
    proof (cases ps)
      case (Cons p qs)
      have "rentries child' qs = (if qs = parts then None else rentries child qs)" using 2 [OF Some, of qs] r by simp
      with Some r Cons e show ?thesis by (cases prune) (auto simp: Let_def)
    qed (use Some r in \<open>simp add: Let_def\<close>)
  qed
qed

section \<open>Matching\<close>

text \<open>The messages of a node whose levels match the rest of a pattern.\<close>

definition trieMatches :: "retainedTrie \<Rightarrow> level list \<Rightarrow> RetainedMessage set" where
  "trieMatches n parts = {m. \<exists>ts. rentries n ts = Some m \<and> matchRec parts ts}"

definition accOkR :: "RetainedMessage set \<Rightarrow> retainedAcc \<Rightarrow> bool" where
  "accOkR U acc \<longleftrightarrow> set (fst acc) \<subseteq> U \<and> set (snd acc) = rm_Topic ` set (fst acc) \<and> distinct (map rm_Topic (fst acc))"

text \<open>A step that adds exactly the messages of a set.\<close>

definition adds :: "RetainedMessage set \<Rightarrow> (retainedAcc \<Rightarrow> retainedAcc) \<Rightarrow> RetainedMessage set \<Rightarrow> bool" where
  "adds U f S \<longleftrightarrow> (\<forall>acc. accOkR U acc \<longrightarrow> accOkR U (f acc) \<and> set (fst (f acc)) = set (fst acc) \<union> S)"

lemma adds_id: "adds U (\<lambda>acc. acc) {}"
  by (simp add: adds_def)

lemma adds_comp:
  assumes "adds U f S" "adds U g T"
  shows "adds U (\<lambda>acc. g (f acc)) (S \<union> T)"
  unfolding adds_def
proof (intro allI impI)
  fix acc assume ok: "accOkR U acc"
  with assms(1) have f: "accOkR U (f acc)" "set (fst (f acc)) = set (fst acc) \<union> S" unfolding adds_def by blast+
  with assms(2) have "accOkR U (g (f acc))" "set (fst (g (f acc))) = set (fst (f acc)) \<union> T" unfolding adds_def by blast+
  with f show "accOkR U (g (f acc)) \<and> set (fst (g (f acc))) = set (fst acc) \<union> (S \<union> T)" by (simp add: Un_assoc)
qed

lemma adds_fold:
  assumes "\<And>x. x \<in> set xs \<Longrightarrow> adds U (f x) (S x)"
  shows "adds U (fold f xs) (\<Union>x \<in> set xs. S x)"
  using assms
proof (induction xs)
  case Nil
  show ?case by (simp add: adds_def)
next
  case (Cons x xs)
  have "adds U (\<lambda>acc. fold f xs (f x acc)) (S x \<union> (\<Union>x \<in> set xs. S x))"
    using Cons by (intro adds_comp) auto
  thus ?case by (simp add: comp_def adds_def)
qed

lemma adds_addRetained:
  assumes "inj_on rm_Topic U" "set_option msg \<subseteq> U"
  shows "adds U (addRetained msg) (set_option msg)"
proof (cases msg)
  case (Some m)
  show ?thesis unfolding adds_def
  proof (intro allI impI)
    fix acc assume ok: "accOkR U acc"
    obtain result visited where acc: "acc = (result, visited)" by (cases acc)
    show "accOkR U (addRetained msg acc) \<and> set (fst (addRetained msg acc)) = set (fst acc) \<union> set_option msg"
    proof (cases "rm_Topic m \<in> set visited")
      case True
      then obtain m' where "m' \<in> set result" "rm_Topic m' = rm_Topic m" using ok acc by (auto simp: accOkR_def)
      hence "m \<in> set result" using assms ok acc Some by (auto simp: accOkR_def dest: inj_onD)
      with True ok acc Some show ?thesis by (auto simp: addRetained_def)
    next
      case False
      with ok acc Some assms(2) show ?thesis by (auto simp: addRetained_def accOkR_def)
    qed
  qed
qed (simp add: adds_def addRetained_def)

definition allMsgs :: "retainedTrie \<Rightarrow> RetainedMessage set" where
  "allMsgs n = {m. \<exists>ts. rentries n ts = Some m}"

lemma allMsgs_node:
  assumes "wfTrie (RetainedTrie ch msg)"
  shows "allMsgs (RetainedTrie ch msg) = set_option msg \<union> (\<Union>pc \<in> set ch. allMsgs (snd pc))"
proof -
  have ok: "mapOk ch" using assms by simp
  have "(\<exists>ts. rentries (RetainedTrie ch msg) ts = Some m) \<longleftrightarrow>
      msg = Some m \<or> (\<exists>p c ts. map_of ch p = Some c \<and> rentries c ts = Some m)" for m
  proof
    assume "\<exists>ts. rentries (RetainedTrie ch msg) ts = Some m"
    then obtain ts where "rentries (RetainedTrie ch msg) ts = Some m" ..
    thus "msg = Some m \<or> (\<exists>p c ts. map_of ch p = Some c \<and> rentries c ts = Some m)"
      by (cases ts) (auto split: option.splits)
  next
    assume "msg = Some m \<or> (\<exists>p c ts. map_of ch p = Some c \<and> rentries c ts = Some m)"
    thus "\<exists>ts. rentries (RetainedTrie ch msg) ts = Some m"
    proof (elim disjE exE conjE)
      fix p c ts assume "map_of ch p = Some c" "rentries c ts = Some m"
      thus ?thesis by (intro exI [of _ "p # ts"]) simp
    qed (intro exI [of _ "[]"], simp)
  qed
  moreover have "(\<exists>p c ts. map_of ch p = Some c \<and> rentries c ts = Some m) \<longleftrightarrow> (\<exists>pc \<in> set ch. \<exists>ts. rentries (snd pc) ts = Some m)" for m
    unfolding in_map [OF ok, symmetric] by force
  ultimately show ?thesis unfolding allMsgs_def by auto
qed

lemma trieMatches_node:
  assumes "wfTrie (RetainedTrie ch msg)"
  shows "trieMatches (RetainedTrie ch msg) [] = set_option msg"
    and "trieMatches (RetainedTrie ch msg) ([hashc] # parts) = allMsgs (RetainedTrie ch msg)"
    and "trieMatches (RetainedTrie ch msg) ([plusc] # parts) = (\<Union>pc \<in> set ch. trieMatches (snd pc) parts)"
    and "part \<noteq> [hashc] \<Longrightarrow> part \<noteq> [plusc] \<Longrightarrow> trieMatches (RetainedTrie ch msg) (part # parts) =
      (case map_of ch part of None \<Rightarrow> {} | Some c \<Rightarrow> trieMatches c parts)"
proof -
  have ok: "mapOk ch" using assms by simp
  show "trieMatches (RetainedTrie ch msg) [] = set_option msg"
    by (cases msg) (auto simp: trieMatches_def)
  show "trieMatches (RetainedTrie ch msg) ([hashc] # parts) = allMsgs (RetainedTrie ch msg)"
    by (simp add: trieMatches_def allMsgs_def)
  have *: "(\<exists>ts. rentries (RetainedTrie ch msg) ts = Some m \<and> matchRec (part # parts) ts) \<longleftrightarrow>
    (\<exists>p c. map_of ch p = Some c \<and> (part = [plusc] \<or> part = p) \<and> (\<exists>ts. rentries c ts = Some m \<and> matchRec parts ts))"
    if "part \<noteq> [hashc]" for m part
  proof
    assume "\<exists>ts. rentries (RetainedTrie ch msg) ts = Some m \<and> matchRec (part # parts) ts"
    then obtain ts where ts: "rentries (RetainedTrie ch msg) ts = Some m" "matchRec (part # parts) ts" by blast
    thus "\<exists>p c. map_of ch p = Some c \<and> (part = [plusc] \<or> part = p) \<and> (\<exists>ts. rentries c ts = Some m \<and> matchRec parts ts)"
      using that by (cases ts) (auto split: option.splits)
  next
    assume "\<exists>p c. map_of ch p = Some c \<and> (part = [plusc] \<or> part = p) \<and> (\<exists>ts. rentries c ts = Some m \<and> matchRec parts ts)"
    then obtain p c ts where "map_of ch p = Some c" "part = [plusc] \<or> part = p" "rentries c ts = Some m" "matchRec parts ts"
      by blast
    thus "\<exists>ts. rentries (RetainedTrie ch msg) ts = Some m \<and> matchRec (part # parts) ts"
      by (intro exI [of _ "p # ts"]) auto
  qed
  have ph: "[plusc] \<noteq> [hashc]" by simp
  have "(\<exists>ts. rentries (RetainedTrie ch msg) ts = Some m \<and> matchRec ([plusc] # parts) ts) \<longleftrightarrow>
    (\<exists>pc \<in> set ch. \<exists>ts. rentries (snd pc) ts = Some m \<and> matchRec parts ts)" for m
    unfolding * [OF ph] unfolding in_map [OF ok, symmetric] by force
  thus "trieMatches (RetainedTrie ch msg) ([plusc] # parts) = (\<Union>pc \<in> set ch. trieMatches (snd pc) parts)"
    unfolding trieMatches_def by auto
  show "trieMatches (RetainedTrie ch msg) (part # parts) = (case map_of ch part of None \<Rightarrow> {} | Some c \<Rightarrow> trieMatches c parts)"
    if "part \<noteq> [hashc]" "part \<noteq> [plusc]"
    unfolding trieMatches_def * [OF that(1)] using that(2) by (auto split: option.split)
qed

lemma collectAll_adds:
  assumes "inj_on rm_Topic U" "wfTrie n" "allMsgs n \<subseteq> U"
  shows "adds U (collectAll n) (allMsgs n)"
  using assms(2,3)
proof (induction n)
  case (RetainedTrie ch msg)
  have "adds U (collectAll (snd pc)) (allMsgs (snd pc))" if "pc \<in> set ch" for pc
  proof (rule RetainedTrie.IH [OF that])
    show "snd pc \<in> Basic_BNFs.snds pc" by (auto intro: snds.intros)
    show "wfTrie (snd pc)" using wfTrie_child [OF RetainedTrie.prems(1), of "fst pc" "snd pc"] that by simp
    show "allMsgs (snd pc) \<subseteq> U" using that RetainedTrie.prems(2) unfolding allMsgs_node [OF RetainedTrie.prems(1)] by auto
  qed
  hence "adds U (fold (\<lambda>pc. collectAll (snd pc)) ch) (\<Union>pc \<in> set ch. allMsgs (snd pc))" by (rule adds_fold)
  with adds_addRetained [OF assms(1), of msg] RetainedTrie.prems show ?case
    unfolding allMsgs_node [OF RetainedTrie.prems(1)] collectAll.simps by (intro adds_comp) auto
qed

lemma trieMatches_all: "trieMatches n parts \<subseteq> allMsgs n"
  by (auto simp: trieMatches_def allMsgs_def)

lemma matchTrie_adds:
  assumes "inj_on rm_Topic U" "wfTrie n" "allMsgs n \<subseteq> U"
  shows "adds U (matchTrie n parts) (trieMatches n parts)"
  using assms(2,3)
proof (induction parts arbitrary: n)
  case Nil
  obtain ch msg where n: "n = RetainedTrie ch msg" by (cases n)
  have "set_option msg \<subseteq> U" using Nil allMsgs_node [of ch msg] n by simp
  thus ?case using adds_addRetained [OF assms(1)] Nil n trieMatches_node(1) [of ch msg] by (simp add: adds_def)
next
  case (Cons part parts)
  obtain ch msg where n: "n = RetainedTrie ch msg" by (cases n)
  note wf = Cons.prems(1) [unfolded n]
  have child: "adds U (matchTrie (snd pc) parts) (trieMatches (snd pc) parts)" if "pc \<in> set ch" for pc
    using that Cons.prems(2) wfTrie_child [OF wf, of "fst pc" "snd pc"] unfolding n allMsgs_node [OF wf]
    by (intro Cons.IH) auto
  consider "part = [hashc]" | "part = [plusc]" | "part \<noteq> [hashc]" "part \<noteq> [plusc]" by blast
  thus ?case
  proof cases
    case 1
    have "matchTrie n (part # parts) = collectAll n" using 1 n by (simp add: fun_eq_iff)
    moreover have "trieMatches n (part # parts) = allMsgs n" unfolding n 1 by (rule trieMatches_node(2) [OF wf])
    ultimately show ?thesis using collectAll_adds [OF assms(1) Cons.prems] by simp
  next
    case 2
    have "matchTrie n (part # parts) = fold (\<lambda>pc. matchTrie (snd pc) parts) ch" using 2 n by (simp add: fun_eq_iff)
    moreover have "adds U (fold (\<lambda>pc. matchTrie (snd pc) parts) ch) (\<Union>pc \<in> set ch. trieMatches (snd pc) parts)"
      using child by (rule adds_fold)
    ultimately show ?thesis unfolding n 2 trieMatches_node(3) [OF wf] by simp
  next
    case 3
    show ?thesis
    proof (cases "map_of ch part")
      case None
      thus ?thesis using 3 unfolding n trieMatches_node(4) [OF wf 3] by (simp add: adds_def)
    next
      case (Some c)
      have "adds U (matchTrie c parts) (trieMatches c parts)" using child [OF map_of_SomeD [OF Some]] by simp
      thus ?thesis using 3 Some unfolding n trieMatches_node(4) [OF wf 3] by (simp add: adds_def)
    qed
  qed
qed

section \<open>The store\<close>

text \<open>The trie holds exactly the messages of the map, each under the levels of its topic.\<close>

definition retainedOk :: "retainedStore \<Rightarrow> bool" where
  "retainedOk r \<longleftrightarrow> keyedBy rm_Topic (rs_messages r) \<and> wfTrie (rs_index r) \<and>
     (\<forall>t. rentries (rs_index r) (Split t) = map_of (rs_messages r) t) \<and>
     (\<forall>ts m. rentries (rs_index r) ts = Some m \<longrightarrow> ts = Split (rm_Topic m))"

lemma Split_inj [simp]: "Split a = Split b \<longleftrightarrow> a = b"
  by (metis joinLevels_Split)

lemma retainedOk_New: "retainedOk NewRetainedStore"
  by (simp add: retainedOk_def NewRetainedStore_def)

lemma retainedOk_Delete: "retainedOk r \<Longrightarrow> retainedOk (DeleteRetained topic r)"
  by (auto simp: retainedOk_def DeleteRetained_def keyedBy_delete removeTrie_wf removeTrie_entries split: if_splits)

lemma SaveRetained_cases:
  "SaveRetained now msg r =
     (if rm_Payload msg = [] then DeleteRetained (rm_Topic msg) r
      else let stored = msg\<lparr>rm_Timestamp := Some (case rm_Timestamp msg of None \<Rightarrow> now | Some t \<Rightarrow> t)\<rparr> in
        r\<lparr> rs_messages := mset_key (rm_Topic msg) stored (rs_messages r),
           rs_index := addTrie (rs_index r) (Split (rm_Topic msg)) stored \<rparr>)"
  by (cases msg) (simp add: SaveRetained_def DeleteRetained_def split: option.split)

lemma retainedOk_Save: "retainedOk r \<Longrightarrow> retainedOk (SaveRetained now msg r)"
  unfolding SaveRetained_cases
  by (auto simp: retainedOk_Delete Let_def)
     (auto simp: retainedOk_def keyedBy_update addTrie_wf addTrie_entries split: if_splits)

lemma MatchRetained_set:
  assumes "retainedOk r"
  shows "distinct (map rm_Topic (MatchRetained pattern r))"
    and "set (MatchRetained pattern r) = {m. \<exists>t. map_of (rs_messages r) t = Some m \<and> MatchTopic pattern t}"
proof -
  let ?U = "ran (map_of (rs_messages r))"
  have keyed: "keyedBy rm_Topic (rs_messages r)" and wf: "wfTrie (rs_index r)"
    and e1: "\<And>t. rentries (rs_index r) (Split t) = map_of (rs_messages r) t"
    and e2: "\<And>ts m. rentries (rs_index r) ts = Some m \<Longrightarrow> ts = Split (rm_Topic m)"
    using assms by (auto simp: retainedOk_def)
  have inj: "inj_on rm_Topic ?U"
    using keyedBy_lookup [OF keyed] by (intro inj_onI) (auto simp: ran_def)
  have U: "allMsgs (rs_index r) \<subseteq> ?U"
    unfolding allMsgs_def ran_def using e1 e2 by (smt (verit) Collect_mono)
  have m: "trieMatches (rs_index r) (Split pattern) = {m. \<exists>t. map_of (rs_messages r) t = Some m \<and> MatchTopic pattern t}"
    unfolding trieMatches_def MatchTopic_def matchLevels_rec by (metis e1 e2)
  have "accOkR ?U ([], [])" by (simp add: accOkR_def)
  with matchTrie_adds [OF inj wf U, of "Split pattern"]
  have a: "accOkR ?U (matchTrie (rs_index r) (Split pattern) ([], []))"
    "set (fst (matchTrie (rs_index r) (Split pattern) ([], []))) = trieMatches (rs_index r) (Split pattern)"
    by (auto simp: adds_def)
  show "distinct (map rm_Topic (MatchRetained pattern r))"
    using a(1) by (simp add: MatchRetained_def accOkR_def)
  show "set (MatchRetained pattern r) = {m. \<exists>t. map_of (rs_messages r) t = Some m \<and> MatchTopic pattern t}"
    using a(2) unfolding m by (auto simp: MatchRetained_def)
qed

section \<open>The contract of a retained store\<close>

datatype retainedOp = OpSave int RetainedMessage | OpDelete gostring

text \<open>What is retained, as a map from topics: an empty payload deletes.\<close>

fun retainedTable :: "retainedOp \<Rightarrow> (gostring \<rightharpoonup> RetainedMessage) \<Rightarrow> (gostring \<rightharpoonup> RetainedMessage)" where
  "retainedTable (OpSave now msg) tb = tb(rm_Topic msg :=
     (if rm_Payload msg = [] then None
      else Some (msg\<lparr>rm_Timestamp := Some (case rm_Timestamp msg of None \<Rightarrow> now | Some t \<Rightarrow> t)\<rparr>)))"
| "retainedTable (OpDelete topic) tb = tb(topic := None)"

locale retained_store =
  fixes inv :: "'s \<Rightarrow> bool"
    and save :: "int \<Rightarrow> RetainedMessage \<Rightarrow> 's \<Rightarrow> 's"
    and del :: "gostring \<Rightarrow> 's \<Rightarrow> 's"
    and get :: "gostring \<Rightarrow> 's \<Rightarrow> storeErr + RetainedMessage"
    and find :: "gostring \<Rightarrow> 's \<Rightarrow> RetainedMessage list"
  assumes inv_save: "inv r \<Longrightarrow> inv (save now msg r)"
    and inv_del: "inv r \<Longrightarrow> inv (del topic r)"
    and get_save: "inv r \<Longrightarrow> get t (save now msg r) =
      (if t \<noteq> rm_Topic msg then get t r
       else if rm_Payload msg = [] then Inl ErrRetainedNotFound
       else Inr (msg\<lparr>rm_Timestamp := Some (case rm_Timestamp msg of None \<Rightarrow> now | Some t \<Rightarrow> t)\<rparr>))"
    and get_del: "inv r \<Longrightarrow> get t (del topic r) = (if t = topic then Inl ErrRetainedNotFound else get t r)"
    and find_distinct: "inv r \<Longrightarrow> distinct (map rm_Topic (find pattern r))"
    and find_set: "inv r \<Longrightarrow> set (find pattern r) = {m. \<exists>t. get t r = Inr m \<and> MatchTopic pattern t}"
begin

fun step :: "retainedOp \<Rightarrow> 's \<Rightarrow> 's" where
  "step (OpSave now msg) r = save now msg r"
| "step (OpDelete topic) r = del topic r"

definition represents :: "'s \<Rightarrow> (gostring \<rightharpoonup> RetainedMessage) \<Rightarrow> bool" where
  "represents r tb \<longleftrightarrow> inv r \<and> (\<forall>t. get t r = (case tb t of None \<Rightarrow> Inl ErrRetainedNotFound | Some m \<Rightarrow> Inr m))"

lemma step_represents: "represents r tb \<Longrightarrow> represents (step op r) (retainedTable op tb)"
  by (cases op) (auto simp: represents_def inv_save inv_del get_save get_del)

lemma run_represents: "represents r tb \<Longrightarrow> represents (fold step ops r) (fold retainedTable ops tb)"
  by (induction ops arbitrary: r tb) (simp_all add: step_represents)

lemma find_represents:
  "represents r tb \<Longrightarrow> distinct (map rm_Topic (find pattern r)) \<and>
     set (find pattern r) = {m. \<exists>t. tb t = Some m \<and> MatchTopic pattern t}"
  using find_distinct [of r pattern] find_set [of r pattern] by (auto simp: represents_def split: option.splits)

end

interpretation memory: retained_store retainedOk SaveRetained DeleteRetained GetRetained MatchRetained
proof
  fix r t msg topic pattern now
  assume ok: "retainedOk r"
  show "retainedOk (SaveRetained now msg r)" using ok by (rule retainedOk_Save)
  show "retainedOk (DeleteRetained topic r)" using ok by (rule retainedOk_Delete)
  show "GetRetained t (SaveRetained now msg r) =
      (if t \<noteq> rm_Topic msg then GetRetained t r
       else if rm_Payload msg = [] then Inl ErrRetainedNotFound
       else Inr (msg\<lparr>rm_Timestamp := Some (case rm_Timestamp msg of None \<Rightarrow> now | Some t \<Rightarrow> t)\<rparr>))"
    unfolding SaveRetained_cases by (simp add: GetRetained_def DeleteRetained_def Let_def)
  show "GetRetained t (DeleteRetained topic r) = (if t = topic then Inl ErrRetainedNotFound else GetRetained t r)"
    by (simp add: GetRetained_def DeleteRetained_def)
  show "distinct (map rm_Topic (MatchRetained pattern r))" using ok by (rule MatchRetained_set)
  show "set (MatchRetained pattern r) = {m. \<exists>t. GetRetained t r = Inr m \<and> MatchTopic pattern t}"
    using MatchRetained_set(2) [OF ok] by (auto simp: GetRetained_def split: option.splits)
qed

fun retainedStep :: "retainedOp \<Rightarrow> retainedStore \<Rightarrow> retainedStore" where
  "retainedStep (OpSave now msg) r = SaveRetained now msg r"
| "retainedStep (OpDelete topic) r = DeleteRetained topic r"

lemma retainedStep_memory: "fold retainedStep ops r = fold memory.step ops r"
proof -
  have "retainedStep op = memory.step op" for op by (cases op) (simp_all add: fun_eq_iff memory.step.simps)
  hence "retainedStep = memory.step" by (rule ext)
  thus ?thesis by simp
qed

text \<open>
  C17. The retained store and its trie implement a map from topics to messages: after any
  sequence of saves and deletes, a lookup finds exactly the last message saved for the topic
  and not deleted since, and matching a filter returns, once each, exactly the messages whose
  topic the filter matches.
\<close>

theorem retained_store_refines:
  "(let r = fold retainedStep ops NewRetainedStore; tb = fold retainedTable ops Map.empty in
    (\<forall>t. GetRetained t r = (case tb t of None \<Rightarrow> Inl ErrRetainedNotFound | Some m \<Rightarrow> Inr m)) \<and>
    (\<forall>pattern. distinct (map rm_Topic (MatchRetained pattern r)) \<and>
       set (MatchRetained pattern r) = {m. \<exists>t. tb t = Some m \<and> MatchTopic pattern t}))"
proof -
  have "memory.represents NewRetainedStore Map.empty"
    using retainedOk_New by (simp add: memory.represents_def GetRetained_def NewRetainedStore_def)
  hence "memory.represents (fold retainedStep ops NewRetainedStore) (fold retainedTable ops Map.empty)"
    unfolding retainedStep_memory by (rule memory.run_represents)
  thus ?thesis unfolding Let_def using memory.find_represents memory.represents_def by blast
qed

end
