(* ===== verification/WillHandler.thy ===== *)
theory WillHandler
  imports StoreTypes
begin

text \<open>
  The will handler, \<^verbatim>\<open>src/broker/will_handler.go\<close>. A registered will is a pointer in the sources and
  is compared as one when its timer fires, so each registration gets a number of its own. A
  delayed publication is a goroutine that waits for its delay or for its cancellation; both may
  be ready at once, so a cancelled timer may still fire. The timers are part of the state, and
  their two outcomes are steps. A connection is a number, none for a nil one.
\<close>

section \<open>Data\<close>

record WillMessage =
  w_id :: nat
  w_ClientID :: gostring
  w_Username :: gostring
  w_Topic :: gostring
  w_Payload :: "byte list"
  w_QoS :: byte
  w_Retain :: bool
  w_Properties :: "Properties option"
  w_Delay :: int
  w_Conn :: "nat option"

record willTimer =
  wt_ClientID :: gostring
  wt_will :: WillMessage
  wt_cancelled :: bool

record WillHandler =
  wh_wills :: "(gostring, WillMessage) gomap"
  wh_cancel :: "(gostring, nat) gomap"
  wh_timers :: "(nat, willTimer) gomap"
  wh_nextWill :: nat
  wh_nextTimer :: nat
  wh_publishWill :: bool

record WillInfo =
  wi_Topic :: gostring
  wi_QoS :: byte
  wi_Retain :: bool
  wi_HasPayload :: bool

definition NewWillHandler :: WillHandler where
  "NewWillHandler = \<lparr> wh_wills = [], wh_cancel = [], wh_timers = [], wh_nextWill = 0, wh_nextTimer = 0,
     wh_publishWill = False \<rparr>"

definition SetPublishCallback :: "WillHandler \<Rightarrow> WillHandler" where
  "SetPublishCallback wh = wh\<lparr>wh_publishWill := True\<rparr>"

section \<open>Operations\<close>

text \<open>Cancelling a timer marks it; the goroutine notices later.\<close>

definition cancelTimer :: "nat \<Rightarrow> WillHandler \<Rightarrow> WillHandler" where
  "cancelTimer n wh = (case map_of (wh_timers wh) n of None \<Rightarrow> wh
     | Some t \<Rightarrow> wh\<lparr>wh_timers := mset_key n (t\<lparr>wt_cancelled := True\<rparr>) (wh_timers wh)\<rparr>)"

definition stopTimerLocked :: "gostring \<Rightarrow> WillHandler \<Rightarrow> WillHandler" where
  "stopTimerLocked clientID wh = (case map_of (wh_cancel wh) clientID of None \<Rightarrow> wh
     | Some n \<Rightarrow> (cancelTimer n wh)\<lparr>wh_cancel := mdel_key clientID (wh_cancel wh)\<rparr>)"

definition Stop :: "WillHandler \<Rightarrow> WillHandler" where
  "Stop wh = (fold cancelTimer (map snd (wh_cancel wh)) wh)\<lparr>wh_wills := [], wh_cancel := []\<rparr>"

definition relayableWillProperties :: "Properties option \<Rightarrow> Properties option" where
  "relayableWillProperties props = (case props of None \<Rightarrow> None
     | Some p \<Rightarrow>
        (let out = emptyProperties\<lparr> PayloadFormat := PayloadFormat p, MessageExpiryInterval := MessageExpiryInterval p,
               ContentType := ContentType p, ResponseTopic := ResponseTopic p, CorrelationData := CorrelationData p,
               UserProperties := UserProperties p \<rparr> in
         if PayloadFormat out = None \<and> MessageExpiryInterval out = None \<and> ContentType out = [] \<and>
            ResponseTopic out = [] \<and> CorrelationData out = None \<and> length (UserProperties out) = 0
         then None else Some out))"

definition RegisterWill ::
  "gostring \<Rightarrow> gostring \<Rightarrow> gostring \<Rightarrow> byte list \<Rightarrow> byte \<Rightarrow> bool \<Rightarrow> Properties option \<Rightarrow> int \<Rightarrow> nat option \<Rightarrow>
     WillHandler \<Rightarrow> WillHandler" where
  "RegisterWill clientID username topic payload qos retain props delay conn wh =
     (let wh' = stopTimerLocked clientID wh in
      wh'\<lparr> wh_wills := mset_key clientID
             \<lparr> w_id = wh_nextWill wh', w_ClientID = clientID, w_Username = username, w_Topic = topic,
               w_Payload = payload, w_QoS = qos, w_Retain = retain,
               w_Properties = relayableWillProperties props, w_Delay = delay, w_Conn = conn \<rparr> (wh_wills wh'),
           wh_nextWill := wh_nextWill wh' + 1 \<rparr>)"

text \<open>The wills handed to the publish callback.\<close>

definition publishWillMessage :: "WillMessage \<Rightarrow> WillHandler \<Rightarrow> WillMessage list" where
  "publishWillMessage will wh = (if wh_publishWill wh \<and> 0 < length (w_Topic will) then [will] else [])"

definition TriggerWill :: "gostring \<Rightarrow> nat option \<Rightarrow> WillHandler \<Rightarrow> WillMessage list \<times> WillHandler" where
  "TriggerWill clientID conn wh =
     (case map_of (wh_wills wh) clientID of
        None \<Rightarrow> ([], wh)
      | Some will \<Rightarrow>
          if conn \<noteq> None \<and> w_Conn will \<noteq> None \<and> w_Conn will \<noteq> conn then ([], wh)
          else if map_of (wh_cancel wh) clientID \<noteq> None then ([], wh)
          else if w_Delay will \<le> 0
          then (publishWillMessage will wh, wh\<lparr>wh_wills := mdel_key clientID (wh_wills wh)\<rparr>)
          else ([], wh\<lparr> wh_cancel := mset_key clientID (wh_nextTimer wh) (wh_cancel wh),
                        wh_timers := mset_key (wh_nextTimer wh)
                          \<lparr> wt_ClientID = clientID, wt_will = will, wt_cancelled = False \<rparr> (wh_timers wh),
                        wh_nextTimer := wh_nextTimer wh + 1 \<rparr>))"

text \<open>The delay of timer \<open>n\<close> has passed and its goroutine runs the first branch.\<close>

definition timerFires :: "nat \<Rightarrow> WillHandler \<Rightarrow> WillMessage list \<times> WillHandler" where
  "timerFires n wh =
     (case map_of (wh_timers wh) n of
        None \<Rightarrow> ([], wh)
      | Some t \<Rightarrow>
          let wh' = wh\<lparr>wh_timers := mdel_key n (wh_timers wh)\<rparr>;
              ours = (case map_of (wh_wills wh) (wt_ClientID t) of None \<Rightarrow> False
                      | Some current \<Rightarrow> w_id current = w_id (wt_will t))
          in if ours
             then (publishWillMessage (wt_will t) wh',
                   wh'\<lparr> wh_wills := mdel_key (wt_ClientID t) (wh_wills wh'),
                        wh_cancel := mdel_key (wt_ClientID t) (wh_cancel wh') \<rparr>)
             else ([], wh'))"

text \<open>The goroutine of a cancelled timer runs the second branch.\<close>

definition timerDone :: "nat \<Rightarrow> WillHandler \<Rightarrow> WillHandler" where
  "timerDone n wh = (case map_of (wh_timers wh) n of None \<Rightarrow> wh
     | Some t \<Rightarrow> if wt_cancelled t then wh\<lparr>wh_timers := mdel_key n (wh_timers wh)\<rparr> else wh)"

definition FireWill :: "gostring \<Rightarrow> WillHandler \<Rightarrow> WillMessage list \<times> WillHandler" where
  "FireWill clientID wh =
     (case map_of (wh_wills wh) clientID of
        None \<Rightarrow> ([], wh)
      | Some will \<Rightarrow>
          if map_of (wh_cancel wh) clientID = None then ([], wh)
          else let wh' = stopTimerLocked clientID wh in
            (publishWillMessage will wh', wh'\<lparr>wh_wills := mdel_key clientID (wh_wills wh')\<rparr>))"

definition CancelWill :: "gostring \<Rightarrow> WillHandler \<Rightarrow> WillHandler" where
  "CancelWill clientID wh =
     (let wh' = stopTimerLocked clientID wh in wh'\<lparr>wh_wills := mdel_key clientID (wh_wills wh')\<rparr>)"

definition RemoveWill :: "gostring \<Rightarrow> WillHandler \<Rightarrow> WillHandler" where
  "RemoveWill clientID wh = stopTimerLocked clientID (wh\<lparr>wh_wills := mdel_key clientID (wh_wills wh)\<rparr>)"

definition GetWillInfo :: "gostring \<Rightarrow> WillHandler \<Rightarrow> WillInfo option" where
  "GetWillInfo clientID wh = map_option (\<lambda>w. \<lparr> wi_Topic = w_Topic w, wi_QoS = w_QoS w, wi_Retain = w_Retain w,
     wi_HasPayload = (0 < length (w_Payload w)) \<rparr>) (map_of (wh_wills wh) clientID)"

section \<open>Runs\<close>

datatype willOp =
    WRegister gostring gostring gostring "byte list" byte bool "Properties option" int "nat option"
  | WTrigger gostring "nat option"
  | WTimer nat
  | WTimerDone nat
  | WFire gostring
  | WCancel gostring
  | WRemove gostring
  | WStop

fun willStep :: "willOp \<Rightarrow> WillHandler \<Rightarrow> WillMessage list \<times> WillHandler" where
  "willStep (WRegister c u t p q r ps d conn) wh = ([], RegisterWill c u t p q r ps d conn wh)"
| "willStep (WTrigger c conn) wh = TriggerWill c conn wh"
| "willStep (WTimer n) wh = timerFires n wh"
| "willStep (WTimerDone n) wh = ([], timerDone n wh)"
| "willStep (WFire c) wh = FireWill c wh"
| "willStep (WCancel c) wh = ([], CancelWill c wh)"
| "willStep (WRemove c) wh = ([], RemoveWill c wh)"
| "willStep WStop wh = ([], Stop wh)"

fun willRun :: "willOp list \<Rightarrow> WillHandler \<Rightarrow> WillMessage list \<times> WillHandler" where
  "willRun [] wh = ([], wh)"
| "willRun (op # ops) wh = (case willStep op wh of (out, wh') \<Rightarrow>
     (case willRun ops wh' of (out', wh'') \<Rightarrow> (out @ out', wh'')))"

section \<open>At most once\<close>

definition liveIds :: "WillHandler \<Rightarrow> nat set" where
  "liveIds wh = {w_id w | c w. map_of (wh_wills wh) c = Some w}"

definition willOk :: "WillHandler \<Rightarrow> bool" where
  "willOk wh \<longleftrightarrow> (\<forall>c w. map_of (wh_wills wh) c = Some w \<longrightarrow> w_id w < wh_nextWill wh) \<and>
     (\<forall>c w c' w'. map_of (wh_wills wh) c = Some w \<longrightarrow> map_of (wh_wills wh) c' = Some w' \<longrightarrow> w_id w = w_id w' \<longrightarrow> c = c')"

text \<open>
  What one step may do to the registered wills: those it publishes were registered and are no
  longer, and new ones have new numbers.
\<close>

definition goodStep :: "WillHandler \<Rightarrow> WillMessage list \<Rightarrow> WillHandler \<Rightarrow> bool" where
  "goodStep wh out wh' \<longleftrightarrow> willOk wh' \<and> distinct (map w_id out) \<and> w_id ` set out \<subseteq> liveIds wh - liveIds wh' \<and>
     liveIds wh' \<subseteq> liveIds wh \<union> {wh_nextWill wh..<wh_nextWill wh'} \<and> wh_nextWill wh \<le> wh_nextWill wh'"

lemma cancelTimer_keeps [simp]:
  "wh_wills (cancelTimer n wh) = wh_wills wh" "wh_nextWill (cancelTimer n wh) = wh_nextWill wh"
  "wh_publishWill (cancelTimer n wh) = wh_publishWill wh" "wh_cancel (cancelTimer n wh) = wh_cancel wh"
  by (simp_all add: cancelTimer_def split: option.split)

lemma stopTimer_keeps [simp]:
  "wh_wills (stopTimerLocked c wh) = wh_wills wh" "wh_nextWill (stopTimerLocked c wh) = wh_nextWill wh"
  "wh_publishWill (stopTimerLocked c wh) = wh_publishWill wh"
  by (simp_all add: stopTimerLocked_def split: option.split)

lemma fold_cancel_keeps [simp]: "wh_nextWill (fold cancelTimer ns wh) = wh_nextWill wh"
  by (induction ns arbitrary: wh) simp_all

lemma goodStep_same:
  "willOk wh \<Longrightarrow> wh_wills wh' = wh_wills wh \<Longrightarrow> wh_nextWill wh' = wh_nextWill wh \<Longrightarrow> goodStep wh [] wh'"
  unfolding goodStep_def willOk_def liveIds_def by simp

lemma goodStep_remove:
  assumes "willOk wh" "wh_wills wh' = mdel_key c (wh_wills wh)" "wh_nextWill wh' = wh_nextWill wh"
    and out: "out = [] \<or> (\<exists>w w'. map_of (wh_wills wh) c = Some w \<and> out = [w'] \<and> w_id w' = w_id w)"
  shows "goodStep wh out wh'"
proof -
  have wills: "map_of (wh_wills wh') = (map_of (wh_wills wh))(c := None)" using assms(2) by simp
  have "willOk wh'" using assms(1) unfolding willOk_def wills assms(3) by auto
  moreover have "liveIds wh' \<subseteq> liveIds wh" unfolding liveIds_def wills by auto
  moreover have "w_id w \<in> liveIds wh - liveIds wh'" if "map_of (wh_wills wh) c = Some w" for w
    using that assms(1) unfolding liveIds_def wills willOk_def by (auto split: if_splits)
  ultimately show ?thesis using out assms(3) unfolding goodStep_def by auto
qed

lemma goodStep_clear: "willOk wh \<Longrightarrow> wh_wills wh' = [] \<Longrightarrow> wh_nextWill wh' = wh_nextWill wh \<Longrightarrow> goodStep wh [] wh'"
  unfolding goodStep_def willOk_def liveIds_def by simp

lemma goodStep_add:
  assumes ok: "willOk wh" and wills: "map_of (wh_wills wh') = (map_of (wh_wills wh))(c \<mapsto> w)"
    and w: "w_id w = wh_nextWill wh" and n: "wh_nextWill wh' = Suc (wh_nextWill wh)"
  shows "goodStep wh [] wh'"
proof -
  have lt: "map_of (wh_wills wh) c' = Some v \<Longrightarrow> w_id v < wh_nextWill wh" for c' v
    using ok by (simp add: willOk_def)
  have "willOk wh'"
    unfolding willOk_def wills n
  proof (intro conjI allI impI)
    fix c' v assume "((map_of (wh_wills wh))(c \<mapsto> w)) c' = Some v"
    thus "w_id v < Suc (wh_nextWill wh)" using lt w by (fastforce split: if_splits)
  next
    fix c1 v1 c2 v2
    assume "((map_of (wh_wills wh))(c \<mapsto> w)) c1 = Some v1" "((map_of (wh_wills wh))(c \<mapsto> w)) c2 = Some v2" "w_id v1 = w_id v2"
    thus "c1 = c2" using lt w ok unfolding willOk_def by (fastforce split: if_splits)
  qed
  moreover have "liveIds wh' \<subseteq> liveIds wh \<union> {wh_nextWill wh..<wh_nextWill wh'}"
    unfolding liveIds_def wills n using w by (auto split: if_splits)
  ultimately show ?thesis using n unfolding goodStep_def by simp
qed

lemma goodStep_register: "willOk wh \<Longrightarrow> goodStep wh [] (RegisterWill c u t p q r ps d conn wh)"
  by (rule goodStep_add [where c = c]) (assumption, simp add: RegisterWill_def Let_def, simp, simp add: RegisterWill_def Let_def)

lemma publishWill_cases: "publishWillMessage w wh = [] \<or> publishWillMessage w wh = [w]"
  by (simp add: publishWillMessage_def)

lemma TriggerWill_cases:
  assumes "TriggerWill c conn wh = (out, wh')"
  shows "(out = [] \<and> wh_wills wh' = wh_wills wh \<and> wh_nextWill wh' = wh_nextWill wh) \<or>
    (\<exists>w. map_of (wh_wills wh) c = Some w \<and> out = publishWillMessage w wh \<and>
      wh_wills wh' = mdel_key c (wh_wills wh) \<and> wh_nextWill wh' = wh_nextWill wh)"
proof (cases "map_of (wh_wills wh) c")
  case (Some w)
  consider "conn \<noteq> None \<and> w_Conn w \<noteq> None \<and> w_Conn w \<noteq> conn \<or> map_of (wh_cancel wh) c \<noteq> None"
    | "\<not> (conn \<noteq> None \<and> w_Conn w \<noteq> None \<and> w_Conn w \<noteq> conn)" "map_of (wh_cancel wh) c = None" "w_Delay w \<le> 0"
    | "\<not> (conn \<noteq> None \<and> w_Conn w \<noteq> None \<and> w_Conn w \<noteq> conn)" "map_of (wh_cancel wh) c = None" "0 < w_Delay w"
    by linarith
  thus ?thesis using assms Some unfolding TriggerWill_def by cases (simp_all split: if_splits, fastforce+)
qed (use assms in \<open>simp add: TriggerWill_def\<close>)

lemma goodStep_trigger:
  assumes "willOk wh" "TriggerWill c conn wh = (out, wh')"
  shows "goodStep wh out wh'"
  using TriggerWill_cases [OF assms(2)]
proof (elim disjE exE conjE)
  fix w assume "map_of (wh_wills wh) c = Some w" "out = publishWillMessage w wh"
    "wh_wills wh' = mdel_key c (wh_wills wh)" "wh_nextWill wh' = wh_nextWill wh"
  with assms(1) publishWill_cases [of w wh] show ?thesis by (intro goodStep_remove [of wh wh' c]) auto
qed (use assms(1) in \<open>simp add: goodStep_same\<close>)

lemma goodStep_timer: "willOk wh \<Longrightarrow> timerFires n wh = (out, wh') \<Longrightarrow> goodStep wh out wh'"
proof (cases "map_of (wh_timers wh) n")
  case (Some t)
  assume ok: "willOk wh" and f: "timerFires n wh = (out, wh')"
  show ?thesis
  proof (cases "\<exists>w. map_of (wh_wills wh) (wt_ClientID t) = Some w \<and> w_id w = w_id (wt_will t)")
    case True
    then obtain w where w: "map_of (wh_wills wh) (wt_ClientID t) = Some w" "w_id w = w_id (wt_will t)" by blast
    with f Some have "wh_wills wh' = mdel_key (wt_ClientID t) (wh_wills wh)" "wh_nextWill wh' = wh_nextWill wh"
      "out = [] \<or> out = [wt_will t]"
      by (auto simp: timerFires_def Let_def publishWillMessage_def split: if_splits)
    with ok w show ?thesis by (intro goodStep_remove [of wh wh' "wt_ClientID t"]) auto
  next
    case False
    with f Some have "wh_wills wh' = wh_wills wh" "wh_nextWill wh' = wh_nextWill wh" "out = []"
      by (auto simp: timerFires_def Let_def split: option.splits if_splits)
    with ok show ?thesis by (auto intro: goodStep_same)
  qed
qed (auto simp: timerFires_def intro: goodStep_same)

lemma goodStep_fire: "willOk wh \<Longrightarrow> FireWill c wh = (out, wh') \<Longrightarrow> goodStep wh out wh'"
proof (cases "\<exists>w. map_of (wh_wills wh) c = Some w \<and> map_of (wh_cancel wh) c \<noteq> None")
  case True
  assume ok: "willOk wh" and f: "FireWill c wh = (out, wh')"
  obtain w where w: "map_of (wh_wills wh) c = Some w" "map_of (wh_cancel wh) c \<noteq> None" using True by blast
  with f have o: "out = publishWillMessage w (stopTimerLocked c wh)"
    and wh': "wh' = (stopTimerLocked c wh)\<lparr>wh_wills := mdel_key c (wh_wills wh)\<rparr>"
    unfolding FireWill_def Let_def by auto
  have "out = [] \<or> out = [w]" unfolding o by (rule publishWill_cases)
  with ok w wh' show ?thesis by (intro goodStep_remove [of wh wh' c]) auto
next
  case False
  assume ok: "willOk wh" and f: "FireWill c wh = (out, wh')"
  from False f have "out = []" "wh' = wh" by (auto simp: FireWill_def Let_def split: option.splits if_splits)
  with ok show ?thesis by (auto intro: goodStep_same)
qed

lemma goodStep_step: "willOk wh \<Longrightarrow> willStep op wh = (out, wh') \<Longrightarrow> goodStep wh out wh'"
  by (cases op) (auto intro: goodStep_register goodStep_trigger goodStep_timer goodStep_fire goodStep_same
      goodStep_remove [where c = c for c] goodStep_clear
      simp: timerDone_def CancelWill_def RemoveWill_def Stop_def Let_def split: option.split)

lemma willRun_ids:
  "willOk wh \<Longrightarrow> willRun ops wh = (out, wh') \<Longrightarrow>
     distinct (map w_id out) \<and> w_id ` set out \<subseteq> liveIds wh \<union> {wh_nextWill wh..} \<and> willOk wh'"
proof (induction ops arbitrary: wh out)
  case (Cons op ops)
  obtain o1 wh1 where s: "willStep op wh = (o1, wh1)" by (cases "willStep op wh")
  then obtain o2 where r: "willRun ops wh1 = (o2, wh')" "out = o1 @ o2"
    using Cons.prems(2) by (auto split: prod.splits)
  have g: "goodStep wh o1 wh1" using Cons.prems(1) s by (rule goodStep_step)
  hence "willOk wh1" by (simp add: goodStep_def)
  note ih = Cons.IH [OF this r(1)]
  have "liveIds wh \<subseteq> {..<wh_nextWill wh}" using Cons.prems(1) by (auto simp: willOk_def liveIds_def)
  with g ih r(2) show ?case unfolding goodStep_def by fastforce
qed simp

lemma willRun_append:
  "willRun (ops1 @ ops2) wh = (case willRun ops1 wh of (out1, wh1) \<Rightarrow>
     (case willRun ops2 wh1 of (out2, wh2) \<Rightarrow> (out1 @ out2, wh2)))"
  by (induction ops1 arbitrary: wh) (auto split: prod.split)


end
