(* ===== verification/BrokerState.thy ===== *)
theory BrokerState
  imports SessionTheorems QoSEngine MemoryStore WillHandler
begin

text \<open>
  The state of the broker, \<^verbatim>\<open>src/broker/broker.go\<close>, and the calls that write to a connection,
  \<^verbatim>\<open>writePacket\<close> of \<^verbatim>\<open>src/broker/pub_sub.go\<close> and \<^verbatim>\<open>src/broker/client_state.go\<close>. Logging, metrics and
  plugin hooks do not change what is delivered and are left out. What the handlers hand to the
  writers of the connections is kept in one list, in order. A handler runs as one step, and the
  clock is read once in it.

  The stores are the in-memory ones; since other backends can fail, each store has a flag that
  makes its calls fail, so that the error branches of the handlers are there. A nil store is
  none. Whether the bounded write queue of a connection has a free slot is a fact about its
  environment and is a field of the connection.
\<close>

section \<open>Configuration\<close>

record Authorizer =
  az_CanPublish :: "gostring \<Rightarrow> gostring \<Rightarrow> bool"
  az_CanSubscribe :: "gostring \<Rightarrow> gostring \<Rightarrow> bool"

record brokerOptions =
  bo_authorizer :: "Authorizer option"
  bo_authenticator :: "(gostring \<Rightarrow> gostring \<Rightarrow> byte list \<Rightarrow> bool) option"
  bo_enhancedAuth :: "gostring list"
  bo_maxInflight :: int
  bo_maxConnections :: int
  bo_maxConnRate :: rat
  bo_maxPublishRate :: int
  bo_maxPacketSize :: int
  bo_sessionExpiry :: int
  bo_keepAlive :: u16
  bo_maxClientIDLength :: int
  bo_maxTopicFiltersPerSub :: int
  bo_maxRetainedTopics :: int
  bo_maxOfflineQueue :: int
  bo_maxWillDelay :: int
  bo_retainedExpiry :: int

section \<open>State\<close>

record clientState =
  cs_conn :: nat
  cs_spec :: Spec
  cs_full :: bool
  cs_stopped :: bool
  cs_enhancedAuth :: "gostring option"

datatype brokerOut =
    Sent gostring Packet
  | Final gostring Packet
  | Raw nat Packet
  | Closed nat

record Broker =
  b_topics :: TopicTree
  b_qos :: QoSEngine
  b_will :: WillHandler
  b_sessions :: Manager
  b_sessionStore :: "sessionStore option"
  b_messageStore :: "messageStore option"
  b_retainedStore :: "retainedStore option"
  b_sessionErr :: bool
  b_messageErr :: bool
  b_retainedErr :: bool
  b_connections :: "(gostring, clientState) gomap"
  b_pendingConns :: int
  b_offlineCount :: "(gostring, int) gomap"
  b_msgSeq :: nat
  b_retainedCount :: int
  b_retainedExpirations :: "(gostring, int) gomap"
  b_connRate :: connRateLimiter
  b_shuttingDown :: bool
  b_opts :: brokerOptions
  b_out :: "brokerOut list"

definition emitOut :: "brokerOut \<Rightarrow> Broker \<Rightarrow> Broker" where
  "emitOut x b = b\<lparr>b_out := b_out b @ [x]\<rparr>"

text \<open>A method call on the session of a client changes the session the manager holds.\<close>

definition onSession :: "gostring \<Rightarrow> (Session \<Rightarrow> Session) \<Rightarrow> Broker \<Rightarrow> Broker" where
  "onSession clientID f b = (case map_of (b_sessions b) clientID of None \<Rightarrow> b
     | Some s \<Rightarrow> b\<lparr>b_sessions := mset_key clientID (f s) (b_sessions b)\<rparr>)"

section \<open>Packets the broker builds\<close>

definition mkHeader :: "byte \<Rightarrow> FixedHeader" where
  "mkHeader t = \<lparr> fh_PacketType = t, fh_Dup = False, fh_QoS = 0, fh_Retain = False,
     fh_RemainingLength = 0, fh_HeaderSize = 0 \<rparr>"

definition mkAck :: "byte \<Rightarrow> u16 \<Rightarrow> byte \<Rightarrow> AckPacket" where
  "mkAck t packetID reason = \<lparr> ak_fh = mkHeader t, ak_PacketID = packetID, ak_ReasonCode = reason, ak_Properties = None \<rparr>"

definition mkDisconnect :: "byte \<Rightarrow> Packet" where
  "mkDisconnect reason = Disconnect \<lparr> rp_fh = mkHeader PacketTypeDisconnect, rp_ReasonCode = reason, rp_Properties = None \<rparr>"

definition mkPublish :: "byte \<Rightarrow> bool \<Rightarrow> bool \<Rightarrow> u16 \<Rightarrow> gostring \<Rightarrow> byte list \<Rightarrow> Properties option \<Rightarrow> PublishPacket" where
  "mkPublish qos dup retain packetID topic payload props =
     \<lparr> pp_fh = (mkHeader PacketTypePublish)\<lparr>fh_QoS := qos, fh_Dup := dup, fh_Retain := retain\<rparr>,
       pp_PacketID = packetID, pp_Topic = topic, pp_Payload = payload, pp_Properties = props \<rparr>"

section \<open>Writing to a connection\<close>

fun isQoS0Publish :: "Packet \<Rightarrow> bool" where
  "isQoS0Publish (Publish p) \<longleftrightarrow> fh_QoS (pp_fh p) = 0"
| "isQoS0Publish _ \<longleftrightarrow> False"

text \<open>
  A QoS 0 message is dropped when the queue is full; any other packet waits for a slot. Nothing
  reaches a connection whose writer was stopped.
\<close>

definition writePacket :: "gostring \<Rightarrow> Packet \<Rightarrow> Broker \<Rightarrow> Broker" where
  "writePacket clientID pkt b = (case map_of (b_connections b) clientID of None \<Rightarrow> b
     | Some cs \<Rightarrow>
         if cs_stopped cs then b
         else if isQoS0Publish pkt \<and> cs_full cs then b
         else emitOut (Sent clientID pkt) b)"

text \<open>\<open>writeFinal\<close> may fail; the attempt is what is recorded.\<close>

definition sendDisconnectBeforeClose :: "gostring \<Rightarrow> Packet \<Rightarrow> Broker \<Rightarrow> Broker" where
  "sendDisconnectBeforeClose clientID pkt b = (case map_of (b_connections b) clientID of None \<Rightarrow> b
     | Some cs \<Rightarrow> if cs_stopped cs then b else emitOut (Final clientID pkt) b)"

definition closeConn :: "gostring \<Rightarrow> Broker \<Rightarrow> Broker" where
  "closeConn clientID b = (case map_of (b_connections b) clientID of None \<Rightarrow> b
     | Some cs \<Rightarrow> emitOut (Closed (cs_conn cs)) b)"

definition closeProtocolViolationWithReason :: "gostring \<Rightarrow> Session \<Rightarrow> byte \<Rightarrow> Broker \<Rightarrow> Broker" where
  "closeProtocolViolationWithReason clientID sess reason b =
     closeConn clientID
       (if sp_ServerDisconnect (sessSpec sess) then sendDisconnectBeforeClose clientID (mkDisconnect reason) b else b)"

abbreviation (input) "ReasonCodeSuccess \<equiv> 0x00 :: byte"
abbreviation (input) "ReasonCodeFailureBase \<equiv> 0x80 :: byte"
abbreviation (input) "ReasonCodeMalformedPacket \<equiv> 0x81 :: byte"
abbreviation (input) "ReasonCodeProtocolError \<equiv> 0x82 :: byte"
abbreviation (input) "ReasonCodeNotAuthorized \<equiv> 0x87 :: byte"
abbreviation (input) "ReasonCodeBadAuthMethod \<equiv> 0x8C :: byte"
abbreviation (input) "ReasonCodeTopicAliasInvalid \<equiv> 0x94 :: byte"
abbreviation (input) "ReasonCodePacketTooLarge \<equiv> 0x95 :: byte"
abbreviation (input) "ReasonCodeQuotaExceeded \<equiv> 0x97 :: byte"
abbreviation (input) "ReasonCodePacketIdentifierInUse \<equiv> 0x91 :: byte"
abbreviation (input) "DisconnectReceiveMaximumExceeded \<equiv> 0x93 :: byte"

definition closeProtocolViolation :: "gostring \<Rightarrow> Session \<Rightarrow> Broker \<Rightarrow> Broker" where
  "closeProtocolViolation clientID sess = closeProtocolViolationWithReason clientID sess ReasonCodeProtocolError"

definition rejectMalformedTopic :: "gostring \<Rightarrow> Session \<Rightarrow> Broker \<Rightarrow> Broker" where
  "rejectMalformedTopic clientID sess = closeProtocolViolationWithReason clientID sess ReasonCodeProtocolError"

end
