(* ===== verification/Delivery.thy ===== *)
theory Delivery
  imports BrokerState
begin

text \<open>
  Delivery, \<^verbatim>\<open>src/broker/pub_sub.go\<close>: the way of a message to one subscriber (the receive window,
  the outbound buffer, tracking, the offline queue), the retained messages, and routing to plain
  and shared subscribers. Session arguments of the sources are pointers to the session the
  manager holds, so the functions look it up by client.
\<close>

section \<open>Delivery to one session\<close>

definition messageExpiresAt :: "int \<Rightarrow> PublishPacket \<Rightarrow> int option" where
  "messageExpiresAt now pkt = (case pp_Properties pkt of None \<Rightarrow> None
     | Some p \<Rightarrow> (case MessageExpiryInterval p of None \<Rightarrow> None
         | Some v \<Rightarrow> if 0 < v then Some (now + uint v * seconds 1) else None))"

definition expired :: "int \<Rightarrow> int option \<Rightarrow> bool" where
  "expired now expiresAt = (case expiresAt of None \<Rightarrow> False | Some t \<Rightarrow> t < now)"

text \<open>
  The part of \<open>doDeliver\<close> for a session with room: the packet and the session after it. The
  identifier of a QoS 0 message is zero.
\<close>

definition deliverPacket ::
  "int \<Rightarrow> PublishPacket \<Rightarrow> byte \<Rightarrow> int option \<Rightarrow> SubscriptionOptions \<Rightarrow> u32 list \<Rightarrow> bool \<Rightarrow> Session \<Rightarrow>
     PublishPacket \<times> Session" where
  "deliverPacket now pkt deliverQoS expiresAt subOpts subIDs retainedDelivery sess =
     (let outRetain = (retainedDelivery \<or> (so_RetainAsPublished subOpts \<and> fh_Retain (pp_fh pkt)));
          props = (if sp_Properties (sessSpec sess) then forwardedPublishProperties now (pp_Properties pkt) subIDs expiresAt else None);
          (packetID, s1) = (if 0 < deliverQoS then NextPacketID sess else (0, sess));
          s2 = (if 0 < deliverQoS
                then AddInflight \<lparr> if_PacketID = packetID, if_QoS = deliverQoS, if_Topic = pp_Topic pkt,
                       if_Payload = pp_Payload pkt, if_Retain = outRetain, if_SentAt = Some now,
                       if_ExpiresAt = expiresAt, if_Properties = props, if_PendingPubRel = False \<rparr> s1
                else s1);
          s3 = TrackSent (length (pp_Topic pkt) + length (pp_Payload pkt)) s2;
          s4 = (if 0 < deliverQoS then IncOutboundUnacked s3 else s3)
      in (mkPublish deliverQoS False outRetain packetID (pp_Topic pkt) (pp_Payload pkt) props, s4))"

text \<open>A delivery that cannot be tracked because the engine is full is logged and sent all the same.\<close>

definition trackOutbound :: "int \<Rightarrow> gostring \<Rightarrow> PublishPacket \<Rightarrow> byte \<Rightarrow> QoSEngine \<Rightarrow> QoSEngine" where
  "trackOutbound now clientID p deliverQoS q =
     (if deliverQoS = 0 then q
      else if deliverQoS = 1
      then snd (TrackOutboundQoS1 now clientID (pp_PacketID p) (pp_Topic p) (pp_Payload p) (fh_Retain (pp_fh p)) q)
      else snd (TrackOutboundQoS2 now clientID (pp_PacketID p) (pp_Topic p) (pp_Payload p) (fh_Retain (pp_fh p)) q))"

definition doDeliver ::
  "int \<Rightarrow> gostring \<Rightarrow> PublishPacket \<Rightarrow> byte \<Rightarrow> int option \<Rightarrow> SubscriptionOptions \<Rightarrow> u32 list \<Rightarrow> bool \<Rightarrow> Broker \<Rightarrow> Broker" where
  "doDeliver now clientID pkt deliverQoS expiresAt subOpts subIDs retainedDelivery b =
     (case GetSession clientID (b_sessions b) of None \<Rightarrow> b
      | Some sess \<Rightarrow>
          if expired now expiresAt then b
          else if 0 < deliverQoS \<and> \<not> CanSendOutbound sess
          then onSession clientID (\<lambda>s. snd (BufferOutbound
                 \<lparr> om_pkt = pkt, om_deliverQoS = deliverQoS, om_subOpts = subOpts, om_subIDs = subIDs,
                   om_expiresAt = expiresAt \<rparr> s)) b
          else (case deliverPacket now pkt deliverQoS expiresAt subOpts subIDs retainedDelivery sess of (p, sess') \<Rightarrow>
            writePacket clientID (Publish p)
              (b\<lparr> b_sessions := mset_key clientID sess' (b_sessions b),
                  b_qos := trackOutbound now clientID p deliverQoS (b_qos b) \<rparr>)))"

text \<open>
  The loop of \<open>flushBufferedOutbound\<close> with a bound on its turns; every turn takes one message
  from the buffer, so its length is enough.
\<close>

fun flushLoop :: "nat \<Rightarrow> int \<Rightarrow> gostring \<Rightarrow> Broker \<Rightarrow> Broker" where
  "flushLoop 0 now clientID b = b"
| "flushLoop (Suc n) now clientID b =
     (case GetSession clientID (b_sessions b) of None \<Rightarrow> b
      | Some sess \<Rightarrow>
          if OutboundQueueLen sess = 0 then b
          else if \<not> CanSendOutbound sess then b
          else (case PopOutbound sess of
                  (None, _) \<Rightarrow> b
                | (Some msg, sess') \<Rightarrow>
                    flushLoop n now clientID
                      (doDeliver now clientID (om_pkt msg) (om_deliverQoS msg) (om_expiresAt msg) (om_subOpts msg)
                        (om_subIDs msg) False (b\<lparr>b_sessions := mset_key clientID sess' (b_sessions b)\<rparr>))))"

definition flushBufferedOutbound :: "int \<Rightarrow> gostring \<Rightarrow> Broker \<Rightarrow> Broker" where
  "flushBufferedOutbound now clientID b = (case GetSession clientID (b_sessions b) of None \<Rightarrow> b
     | Some sess \<Rightarrow> flushLoop (OutboundQueueLen sess) now clientID b)"

section \<open>The offline queue\<close>

definition nextMessageID :: "int \<Rightarrow> Broker \<Rightarrow> (int \<times> nat) \<times> Broker" where
  "nextMessageID now b = ((now, b_msgSeq b + 1), b\<lparr>b_msgSeq := b_msgSeq b + 1\<rparr>)"

definition offlineCountOf :: "gostring \<Rightarrow> Broker \<Rightarrow> int" where
  "offlineCountOf clientID b = (case map_of (b_offlineCount b) clientID of None \<Rightarrow> 0 | Some n \<Rightarrow> n)"

text \<open>Storing one message under a fresh identifier; the number is used up even if the store fails.\<close>

definition saveQueued :: "int \<Rightarrow> gostring \<Rightarrow> gostring \<Rightarrow> byte \<Rightarrow> byte list \<Rightarrow> bool \<Rightarrow> int option \<Rightarrow> Broker \<Rightarrow> Broker" where
  "saveQueued now clientID topic qos payload retain expiresAt b =
     (case nextMessageID now b of (i, b1) \<Rightarrow>
       (case b_messageStore b1 of None \<Rightarrow> b1
        | Some ms \<Rightarrow>
            if b_messageErr b1 then b1
            else b1\<lparr> b_messageStore := Some (SaveMessage clientID \<lparr> sm_ID = i, sm_Topic = topic, sm_QoS = qos,
                       sm_Payload = payload, sm_Retain = retain, sm_Timestamp = now, sm_ExpiresAt = expiresAt \<rparr> ms),
                     b_offlineCount := mset_key clientID (offlineCountOf clientID b1 + 1) (b_offlineCount b1) \<rparr>))"

definition queueOfflineMessage :: "int \<Rightarrow> gostring \<Rightarrow> PublishPacket \<Rightarrow> int option \<Rightarrow> Broker \<Rightarrow> Broker" where
  "queueOfflineMessage now clientID pkt expiresAt b =
     (case (b_messageStore b, b_sessionStore b) of
        (Some ms, Some ss) \<Rightarrow>
          if fh_QoS (pp_fh pkt) = 0 then b
          else if b_sessionErr b \<or> \<not> IsSessionExists ss clientID then b
          else (case GetStoredSession ss clientID of
                  Inl _ \<Rightarrow> b
                | Inr d \<Rightarrow>
                    if 0 < sd_ExpiryInterval d \<and> expired now (sd_ExpiryTime d) then b
                    else if 0 < bo_maxOfflineQueue (b_opts b) \<and> bo_maxOfflineQueue (b_opts b) \<le> offlineCountOf clientID b then b
                    else saveQueued now clientID (pp_Topic pkt) (fh_QoS (pp_fh pkt)) (pp_Payload pkt) (fh_Retain (pp_fh pkt))
                           (if expiresAt = None \<and> 0 < sd_ExpiryInterval d \<and> sd_ExpiryTime d \<noteq> None
                            then sd_ExpiryTime d else expiresAt) b)
      | _ \<Rightarrow> b)"

definition adjustOfflineCount :: "gostring \<Rightarrow> int \<Rightarrow> Broker \<Rightarrow> Broker" where
  "adjustOfflineCount clientID delta b =
     (let n = offlineCountOf clientID b + delta in
      b\<lparr>b_offlineCount := (if n \<le> 0 then mdel_key clientID (b_offlineCount b) else mset_key clientID n (b_offlineCount b))\<rparr>)"

definition deleteQueued :: "gostring \<Rightarrow> int \<times> nat \<Rightarrow> Broker \<Rightarrow> Broker" where
  "deleteQueued clientID i b = (case b_messageStore b of None \<Rightarrow> b
     | Some ms \<Rightarrow> if b_messageErr b then b
         else adjustOfflineCount clientID (- 1) (b\<lparr>b_messageStore := Some (DeleteMessage clientID i ms)\<rparr>))"

definition deliverQueued :: "int \<Rightarrow> gostring \<Rightarrow> StoredMessage \<Rightarrow> Broker \<Rightarrow> Broker" where
  "deliverQueued now clientID msg b =
     (case GetSession clientID (b_sessions b) of None \<Rightarrow> b
      | Some sess \<Rightarrow>
          if expired now (sm_ExpiresAt msg) then deleteQueued clientID (sm_ID msg) b
          else (case MatchesSubscription sess (sm_Topic msg) of (matches, subQoS, subOpts, subIDs) \<Rightarrow>
            if \<not> matches then deleteQueued clientID (sm_ID msg) b
            else let deliverQoS = (if subQoS < sm_QoS msg then subQoS else sm_QoS msg) in
              if 0 < deliverQoS \<and> \<not> CanSendOutbound sess then b
              else deleteQueued clientID (sm_ID msg)
                (doDeliver now clientID
                  (mkPublish deliverQoS False (sm_Retain msg) 0 (sm_Topic msg) (sm_Payload msg)
                    (case sm_ExpiresAt msg of None \<Rightarrow> None
                     | Some t \<Rightarrow> if sp_Properties (sessSpec sess)
                         then Some (emptyProperties\<lparr>MessageExpiryInterval := Some (remainingExpiry now t)\<rparr>) else None))
                  deliverQoS (sm_ExpiresAt msg) subOpts subIDs False b)))"

definition deliverQueuedMessages :: "int \<Rightarrow> gostring \<Rightarrow> Broker \<Rightarrow> Broker" where
  "deliverQueuedMessages now clientID b = (case b_messageStore b of None \<Rightarrow> b
     | Some ms \<Rightarrow> if b_messageErr b then b
         else fold (deliverQueued now clientID) (ListMessages clientID ms) b)"

text \<open>The loop pops until the buffer of the detached session \<open>sess\<close> is empty.\<close>

definition persistBufferedOutbound :: "int \<Rightarrow> gostring \<Rightarrow> Session \<Rightarrow> Broker \<Rightarrow> Broker" where
  "persistBufferedOutbound now clientID sess b = (case b_messageStore b of None \<Rightarrow> b
     | Some _ \<Rightarrow> fold (\<lambda>msg. saveQueued now clientID (pp_Topic (om_pkt msg)) (om_deliverQoS msg) (pp_Payload (om_pkt msg))
         (fh_Retain (pp_fh (om_pkt msg))) (om_expiresAt msg)) (s_outboundQueue sess) b)"

section \<open>Routing\<close>

definition deliverWithQoS ::
  "int \<Rightarrow> Session \<Rightarrow> PublishPacket \<Rightarrow> byte \<Rightarrow> SubscriptionOptions \<Rightarrow> u32 list \<Rightarrow> Broker \<Rightarrow> Broker" where
  "deliverWithQoS now sess pkt subQoS subOpts subIDs =
     doDeliver now (s_ClientID sess) pkt (if subQoS < fh_QoS (pp_fh pkt) then subQoS else fh_QoS (pp_fh pkt))
       (messageExpiresAt now pkt) subOpts subIDs False"

definition deliverToClient :: "int \<Rightarrow> gostring \<Rightarrow> gostring \<Rightarrow> PublishPacket \<Rightarrow> Broker \<Rightarrow> Broker" where
  "deliverToClient now clientID sourceClientID pkt b =
     (case GetSession clientID (b_sessions b) of
        None \<Rightarrow> queueOfflineMessage now clientID pkt (messageExpiresAt now pkt) b
      | Some sess \<Rightarrow>
          if sourceClientID \<noteq> [] \<and> clientID = sourceClientID \<and> \<not> AllowsLocalPublish sess (pp_Topic pkt) then b
          else (case MatchesSubscription sess (pp_Topic pkt) of (matches, subQoS, subOpts, subIDs) \<Rightarrow>
            if \<not> matches then b else deliverWithQoS now sess pkt subQoS subOpts subIDs b))"

definition deliverToSharedClient :: "int \<Rightarrow> gostring \<Rightarrow> gostring \<Rightarrow> PublishPacket \<Rightarrow> byte \<Rightarrow> Broker \<Rightarrow> Broker" where
  "deliverToSharedClient now clientID sourceClientID pkt subQoS b =
     (case GetSession clientID (b_sessions b) of
        None \<Rightarrow> b
      | Some sess \<Rightarrow>
          if sourceClientID \<noteq> [] \<and> clientID = sourceClientID \<and> \<not> AllowsLocalPublish sess (pp_Topic pkt) then b
          else deliverWithQoS now sess pkt subQoS (zeroSubOptions\<lparr>so_QoS := subQoS\<rparr>) [] b)"

definition isClientOnline :: "Broker \<Rightarrow> gostring \<Rightarrow> bool" where
  "isClientOnline b clientID \<longleftrightarrow> GetSession clientID (b_sessions b) \<noteq> None"

definition routeSharedPublish :: "int \<Rightarrow> gostring \<Rightarrow> PublishPacket \<Rightarrow> Broker \<Rightarrow> Broker" where
  "routeSharedPublish now sourceClientID pkt b =
     (case MatchSharedOnline (pp_Topic pkt) (isClientOnline b) (b_topics b) of (shared, tt) \<Rightarrow>
        fold (\<lambda>sub. deliverToSharedClient now (ss_ClientID sub) sourceClientID pkt (ss_QoS sub)) shared (b\<lparr>b_topics := tt\<rparr>))"

text \<open>The subscriber loop and the shared groups, as the PUBLISH, PUBREL and will paths run them.\<close>

definition routePublish :: "int \<Rightarrow> gostring \<Rightarrow> PublishPacket \<Rightarrow> Broker \<Rightarrow> Broker" where
  "routePublish now sourceClientID pkt b =
     routeSharedPublish now sourceClientID pkt
       (fold (\<lambda>sub. deliverToClient now (sb_ClientID sub) sourceClientID pkt) (Match (pp_Topic pkt) (b_topics b)) b)"

section \<open>Retained messages\<close>

definition retainedStripeIndex :: "gostring \<Rightarrow> u32" where
  "retainedStripeIndex topic =
     (fold (\<lambda>c h. xor h (ucast c) * 16777619) topic (2166136261 :: u32)) mod 64"

definition retainedDeadline :: "int \<Rightarrow> int option \<Rightarrow> Broker \<Rightarrow> int option" where
  "retainedDeadline now expiresAt b =
     (if 0 < bo_retainedExpiry (b_opts b)
      then (let ttl = now + bo_retainedExpiry (b_opts b) in
            case expiresAt of None \<Rightarrow> Some ttl | Some t \<Rightarrow> if ttl < t then Some ttl else Some t)
      else expiresAt)"

definition handleRetainedMessage :: "int \<Rightarrow> PublishPacket \<Rightarrow> Broker \<Rightarrow> Broker" where
  "handleRetainedMessage now pkt b =
     (case b_retainedStore b of None \<Rightarrow> b
      | Some rs \<Rightarrow>
          if b_retainedErr b then b
          else
            (let topic = pp_Topic pkt;
                 existed = (case GetRetained topic rs of Inl _ \<Rightarrow> False | Inr _ \<Rightarrow> True) in
             if 0 < length (pp_Payload pkt) \<and> \<not> existed \<and> 0 < bo_maxRetainedTopics (b_opts b) \<and>
                bo_maxRetainedTopics (b_opts b) \<le> b_retainedCount b
             then b
             else if length (pp_Payload pkt) = 0
             then b\<lparr> b_retainedStore := Some (DeleteRetained topic rs),
                     b_retainedCount := (if existed then b_retainedCount b - 1 else b_retainedCount b),
                     b_retainedExpirations := mdel_key topic (b_retainedExpirations b) \<rparr>
             else let expiresAt = messageExpiresAt now pkt;
                      record = \<lparr> rm_Topic = topic, rm_QoS = fh_QoS (pp_fh pkt), rm_Payload = pp_Payload pkt,
                                 rm_Timestamp = Some now, rm_Properties = storeProperties (pp_Properties pkt),
                                 rm_ExpiresAt = expiresAt \<rparr> in
               b\<lparr> b_retainedStore := Some (SaveRetained now record rs),
                  b_retainedCount := (if existed then b_retainedCount b else b_retainedCount b + 1),
                  b_retainedExpirations := (case retainedDeadline now expiresAt b of
                      None \<Rightarrow> mdel_key topic (b_retainedExpirations b)
                    | Some t \<Rightarrow> mset_key topic t (b_retainedExpirations b)) \<rparr>))"

definition deliverRetained :: "int \<Rightarrow> gostring \<Rightarrow> RetainedMessage \<Rightarrow> Broker \<Rightarrow> Broker" where
  "deliverRetained now clientID msg b =
     (case GetSession clientID (b_sessions b) of None \<Rightarrow> b
      | Some sess \<Rightarrow>
          (case MatchesRetainedSubscription sess (rm_Topic msg) of (matches, subQoS, subOpts, subIDs) \<Rightarrow>
            if \<not> matches then b
            else let deliverQoS = (if subQoS < rm_QoS msg then subQoS else rm_QoS msg) in
              doDeliver now clientID
                (mkPublish deliverQoS False True 0 (rm_Topic msg) (rm_Payload msg) (protocolProperties (rm_Properties msg)))
                deliverQoS (rm_ExpiresAt msg) subOpts subIDs True b))"

definition deliverRetainedMessages :: "int \<Rightarrow> gostring \<Rightarrow> gostring \<Rightarrow> Broker \<Rightarrow> Broker" where
  "deliverRetainedMessages now clientID topicFilter b = (case b_retainedStore b of None \<Rightarrow> b
     | Some rs \<Rightarrow> if b_retainedErr b then b
         else fold (deliverRetained now clientID) (MatchRetained topicFilter rs) b)"

end
