(* ===== verification/Handlers.thy ===== *)
theory Handlers
  imports Delivery
begin

text \<open>
  The packet handlers of the broker: PUBLISH, SUBSCRIBE and UNSUBSCRIBE of
  \<^verbatim>\<open>src/broker/pub_sub.go\<close>, the acknowledgements and retransmissions of
  \<^verbatim>\<open>src/broker/qos_outbound.go\<close>, the callbacks the broker gives to the QoS engine, and the
  publication of a will. The session of the client is the one the read loop holds; it is never
  nil there.
\<close>

section \<open>PUBLISH\<close>

definition ackDiscardedPublish :: "gostring \<Rightarrow> Session \<Rightarrow> PublishPacket \<Rightarrow> byte \<Rightarrow> Broker \<Rightarrow> Broker" where
  "ackDiscardedPublish clientID sess pkt v5Reason b =
     (let qos = fh_QoS (pp_fh pkt);
          reason = (if \<not> sp_ReasonCodes (sessSpec sess) then ReasonCodeSuccess else v5Reason) in
      if qos = 0 then b
      else if qos = 1 then writePacket clientID (PubAck (mkAck PacketTypePubAck (pp_PacketID pkt) reason)) b
      else if qos = 2 then writePacket clientID (PubRec (mkAck PacketTypePubRec (pp_PacketID pkt) reason)) b
      else b)"

definition rejectInboundOverBudget :: "gostring \<Rightarrow> Session \<Rightarrow> PublishPacket \<Rightarrow> Broker \<Rightarrow> Broker" where
  "rejectInboundOverBudget clientID sess pkt b =
     (if sp_ServerDisconnect (sessSpec sess)
      then closeProtocolViolationWithReason clientID sess DisconnectReceiveMaximumExceeded b
      else ackDiscardedPublish clientID sess pkt ReasonCodeSuccess b)"

text \<open>
  The topic alias of a PUBLISH: the packet with its topic resolved and the session with the alias
  registered, or the reason of a protocol violation.
\<close>

definition resolveAlias :: "PublishPacket \<Rightarrow> Session \<Rightarrow> byte + PublishPacket \<times> Session" where
  "resolveAlias pkt sess =
     (case pp_Properties pkt of None \<Rightarrow> Inr (pkt, sess)
      | Some p \<Rightarrow> (case TopicAlias p of None \<Rightarrow> Inr (pkt, sess)
         | Some alias \<Rightarrow>
             if alias = 0 then Inl ReasonCodeTopicAliasInvalid
             else if pp_Topic pkt = []
             then (case ResolveTopicAlias alias sess of
                     None \<Rightarrow> Inl ReasonCodeProtocolError
                   | Some topic \<Rightarrow> Inr (pkt\<lparr>pp_Topic := topic\<rparr>, sess))
             else (case RegisterTopicAlias alias (pp_Topic pkt) sess of
                     (False, _) \<Rightarrow> Inl ReasonCodeTopicAliasInvalid
                   | (True, sess') \<Rightarrow> Inr (pkt, sess'))))"

definition canPublish :: "Broker \<Rightarrow> gostring \<Rightarrow> gostring \<Rightarrow> bool" where
  "canPublish b username topic = (case bo_authorizer (b_opts b) of None \<Rightarrow> True | Some az \<Rightarrow> az_CanPublish az username topic)"

definition canSubscribe :: "Broker \<Rightarrow> gostring \<Rightarrow> gostring \<Rightarrow> bool" where
  "canSubscribe b username flt = (case bo_authorizer (b_opts b) of None \<Rightarrow> True | Some az \<Rightarrow> az_CanSubscribe az username flt)"

text \<open>The QoS 2 branch: a repeated identifier is answered again, a new message is staged.\<close>

definition handlePublishQoS2 :: "int \<Rightarrow> gostring \<Rightarrow> Session \<Rightarrow> PublishPacket \<Rightarrow> Broker \<Rightarrow> Broker" where
  "handlePublishQoS2 now clientID sess pkt b =
     (if HasInboundQoS2 (pp_PacketID pkt) sess
      then let reason = (if \<not> fh_Dup (pp_fh pkt) then ReasonCodePacketIdentifierInUse else ReasonCodeSuccess);
               reason' = (if \<not> sp_ReasonCodes (sessSpec sess) then ReasonCodeSuccess else reason)
           in writePacket clientID (PubRec (mkAck PacketTypePubRec (pp_PacketID pkt) reason')) b
      else (case AddInboundQoS2 \<lparr> iq_PacketID = pp_PacketID pkt, iq_QoS = fh_QoS (pp_fh pkt), iq_Topic = pp_Topic pkt,
                   iq_Payload = pp_Payload pkt, iq_Retain = fh_Retain (pp_fh pkt), iq_ReceivedAt = now,
                   iq_Properties = pp_Properties pkt \<rparr> (uint (s_ReceiveMax sess)) sess of
              (False, _) \<Rightarrow> rejectInboundOverBudget clientID sess pkt b
            | (True, sess') \<Rightarrow>
                let b1 = b\<lparr>b_sessions := mset_key clientID sess' (b_sessions b)\<rparr>;
                    b2 = (if fh_Retain (pp_fh pkt) then handleRetainedMessage now pkt b1 else b1)
                in writePacket clientID (PubRec (mkAck PacketTypePubRec (pp_PacketID pkt) ReasonCodeSuccess)) b2))"

definition handlePublishQoS01 :: "int \<Rightarrow> gostring \<Rightarrow> PublishPacket \<Rightarrow> Broker \<Rightarrow> Broker" where
  "handlePublishQoS01 now clientID pkt b =
     (let b1 = (if fh_Retain (pp_fh pkt) then handleRetainedMessage now pkt b else b);
          b2 = routePublish now clientID pkt b1
      in if fh_QoS (pp_fh pkt) = 1
         then writePacket clientID (PubAck (mkAck PacketTypePubAck (pp_PacketID pkt) ReasonCodeSuccess)) b2
         else b2)"

definition messageExpired :: "PublishPacket \<Rightarrow> bool" where
  "messageExpired pkt = (case pp_Properties pkt of None \<Rightarrow> False | Some p \<Rightarrow> MessageExpiryInterval p = Some 0)"

text \<open>The checks after the alias was resolved, and the two branches.\<close>

definition acceptPublish :: "int \<Rightarrow> gostring \<Rightarrow> Session \<Rightarrow> PublishPacket \<Rightarrow> Broker \<Rightarrow> Broker" where
  "acceptPublish now clientID sess pkt b =
     (if messageExpired pkt then ackDiscardedPublish clientID sess pkt ReasonCodeSuccess b
      else if \<not> ValidatePublishTopic (pp_Topic pkt) then rejectMalformedTopic clientID sess b
      else if \<not> canPublish b (s_Username sess) (pp_Topic pkt)
      then ackDiscardedPublish clientID sess pkt ReasonCodeNotAuthorized b
      else if fh_QoS (pp_fh pkt) = 2 then handlePublishQoS2 now clientID sess pkt b
      else handlePublishQoS01 now clientID pkt b)"

definition handlePublish :: "int \<Rightarrow> gostring \<Rightarrow> Session \<Rightarrow> PublishPacket \<Rightarrow> Broker \<Rightarrow> Broker" where
  "handlePublish now clientID sess pkt b =
     (let (allowed, sess1) = (case s_publishRate sess of None \<Rightarrow> (True, sess)
            | Some t \<Rightarrow> (case AllowPublish now t of (ok, t') \<Rightarrow> (ok, sess\<lparr>s_publishRate := Some t'\<rparr>)));
          b1 = b\<lparr>b_sessions := mset_key clientID sess1 (b_sessions b)\<rparr>
      in if \<not> allowed then ackDiscardedPublish clientID sess1 pkt ReasonCodeQuotaExceeded b1
         else (case resolveAlias pkt sess1 of
                 Inl reason \<Rightarrow> closeProtocolViolationWithReason clientID sess1 reason b1
               | Inr (pkt', sess2) \<Rightarrow>
                   acceptPublish now clientID sess2 pkt' (b1\<lparr>b_sessions := mset_key clientID sess2 (b_sessions b1)\<rparr>)))"

section \<open>SUBSCRIBE and UNSUBSCRIBE\<close>

definition subAckFailureCode :: "Session \<Rightarrow> byte" where
  "subAckFailureCode sess = (if \<not> sp_SubAckFailureSupported (sessSpec sess) then 0x00 else 0x80)"

definition shouldDeliverRetained :: "byte \<Rightarrow> bool \<Rightarrow> bool" where
  "shouldDeliverRetained retainHandling existed =
     (if retainHandling = 1 then \<not> existed else if retainHandling = 2 then False else True)"

definition mkSubAck :: "byte \<Rightarrow> u16 \<Rightarrow> byte list \<Rightarrow> SubAckPacket" where
  "mkSubAck t packetID codes = \<lparr> sa_fh = mkHeader t, sa_PacketID = packetID, sa_ReasonCodes = codes, sa_Properties = None \<rparr>"

text \<open>
  One filter of a SUBSCRIBE: a violation that closes the connection, or the reason code, whether
  retained messages are due, and the state after it.
\<close>

definition subscribeOne :: "gostring \<Rightarrow> TopicFilter \<Rightarrow> Broker \<Rightarrow> Broker + byte \<times> bool \<times> Broker" where
  "subscribeOne clientID f b =
     (case GetSession clientID (b_sessions b) of
        None \<Rightarrow> Inl b
      | Some sess \<Rightarrow>
          if IsSharedSubscription (tf_Topic f)
          then (case ParseSharedFilter (tf_Topic f) of
                  None \<Rightarrow> Inl (rejectMalformedTopic clientID sess b)
                | Some (shareName, flt) \<Rightarrow>
                    if \<not> ValidateTopicFilter flt then Inl (rejectMalformedTopic clientID sess b)
                    else if tf_NoLocal f then Inl (closeProtocolViolation clientID sess b)
                    else if \<not> canSubscribe b (s_Username sess) flt then Inr (subAckFailureCode sess, False, b)
                    else Inr (tf_QoS f, shouldDeliverRetained (tf_RetainHandling f) False,
                           onSession clientID (AddSubscriptionFilter f)
                             (b\<lparr>b_topics := SubscribeShared shareName flt clientID (tf_QoS f) (b_topics b)\<rparr>)))
          else if \<not> ValidateTopicFilter (tf_Topic f) then Inl (rejectMalformedTopic clientID sess b)
          else if \<not> canSubscribe b (s_Username sess) (tf_Topic f) then Inr (subAckFailureCode sess, False, b)
          else (case TopicTree.Subscribe (tf_Topic f) clientID (tf_QoS f) (b_topics b) of
                  (False, _) \<Rightarrow> Inr (subAckFailureCode sess, False, b)
                | (True, tt) \<Rightarrow>
                    Inr (tf_QoS f, shouldDeliverRetained (tf_RetainHandling f) (HasSubscription (tf_Topic f) sess),
                      onSession clientID (AddSubscriptionFilter f) (b\<lparr>b_topics := tt\<rparr>))))"

fun subscribeAll :: "gostring \<Rightarrow> TopicFilter list \<Rightarrow> Broker \<Rightarrow> Broker + (byte \<times> bool) list \<times> Broker" where
  "subscribeAll clientID [] b = Inr ([], b)"
| "subscribeAll clientID (f # fs) b = (case subscribeOne clientID f b of
     Inl b' \<Rightarrow> Inl b'
   | Inr (code, due, b') \<Rightarrow> (case subscribeAll clientID fs b' of
       Inl b'' \<Rightarrow> Inl b''
     | Inr (codes, b'') \<Rightarrow> Inr ((code, due) # codes, b'')))"

definition replayRetained :: "int \<Rightarrow> gostring \<Rightarrow> TopicFilter \<times> byte \<times> bool \<Rightarrow> Broker \<Rightarrow> Broker" where
  "replayRetained now clientID fd b = (case fd of (f, _, due) \<Rightarrow>
     if \<not> due then b
     else if IsSharedSubscription (tf_Topic f)
     then (case ParseSharedFilter (tf_Topic f) of
             None \<Rightarrow> b
           | Some (_, flt) \<Rightarrow> if ValidateTopicFilter flt then deliverRetainedMessages now clientID flt b else b)
     else deliverRetainedMessages now clientID (tf_Topic f) b)"

definition handleSubscribe :: "int \<Rightarrow> gostring \<Rightarrow> Session \<Rightarrow> SubscribePacket \<Rightarrow> Broker \<Rightarrow> Broker" where
  "handleSubscribe now clientID sess pkt b =
     (let maxFilters = bo_maxTopicFiltersPerSub (b_opts b) in
      if 0 < maxFilters \<and> maxFilters < int (length (sb_Topics pkt))
      then writePacket clientID
             (SubAck (mkSubAck PacketTypeSubAck (sb_PacketID pkt) (replicate (length (sb_Topics pkt)) (subAckFailureCode sess)))) b
      else (case subscribeAll clientID (sb_Topics pkt) b of
              Inl b' \<Rightarrow> b'
            | Inr (codes, b') \<Rightarrow>
                fold (replayRetained now clientID) (zip (sb_Topics pkt) codes)
                  (writePacket clientID (SubAck (mkSubAck PacketTypeSubAck (sb_PacketID pkt) (map fst codes))) b')))"

definition unsubscribeOne :: "gostring \<Rightarrow> gostring \<Rightarrow> Broker \<Rightarrow> Broker + Broker" where
  "unsubscribeOne clientID topic b =
     (case GetSession clientID (b_sessions b) of
        None \<Rightarrow> Inl b
      | Some sess \<Rightarrow>
          if IsSharedSubscription topic
          then (case ParseSharedFilter topic of
                  None \<Rightarrow> Inl (rejectMalformedTopic clientID sess b)
                | Some (shareName, flt) \<Rightarrow>
                    if \<not> ValidateTopicFilter flt then Inl (rejectMalformedTopic clientID sess b)
                    else Inr (onSession clientID (RemoveSubscription topic)
                           (b\<lparr>b_topics := UnsubscribeShared shareName flt clientID (b_topics b)\<rparr>)))
          else if \<not> ValidateTopicFilter topic then Inl (rejectMalformedTopic clientID sess b)
          else Inr (onSession clientID (RemoveSubscription topic)
                 (b\<lparr>b_topics := TopicTree.Unsubscribe topic clientID (b_topics b)\<rparr>)))"

fun unsubscribeAll :: "gostring \<Rightarrow> gostring list \<Rightarrow> Broker \<Rightarrow> Broker + Broker" where
  "unsubscribeAll clientID [] b = Inr b"
| "unsubscribeAll clientID (t # ts) b = (case unsubscribeOne clientID t b of
     Inl b' \<Rightarrow> Inl b' | Inr b' \<Rightarrow> unsubscribeAll clientID ts b')"

definition handleUnsubscribe :: "gostring \<Rightarrow> Session \<Rightarrow> UnsubscribePacket \<Rightarrow> Broker \<Rightarrow> Broker" where
  "handleUnsubscribe clientID sess pkt b = (case unsubscribeAll clientID (us_Topics pkt) b of
     Inl b' \<Rightarrow> b'
   | Inr b' \<Rightarrow> writePacket clientID (UnsubAck (mkSubAck PacketTypeUnsubAck (us_PacketID pkt)
       (if sp_ReasonCodes (sessSpec sess) then replicate (length (us_Topics pkt)) ReasonCodeSuccess else []))) b')"

section \<open>Acknowledgements\<close>

text \<open>Releasing a delivery: the window gains a slot only if the session still held it.\<close>

definition releaseDelivery :: "u16 \<Rightarrow> Session \<Rightarrow> Session" where
  "releaseDelivery packetID s = (case RemoveInflight packetID s of (True, s') \<Rightarrow> DecOutboundUnacked s' | (False, s') \<Rightarrow> s')"

definition handlePubAck :: "int \<Rightarrow> gostring \<Rightarrow> u16 \<Rightarrow> Broker \<Rightarrow> Broker" where
  "handlePubAck now clientID packetID b =
     flushBufferedOutbound now clientID
       (onSession clientID (releaseDelivery packetID) (b\<lparr>b_qos := AckQoS1 clientID packetID (b_qos b)\<rparr>))"

definition dropRejectedDelivery :: "int \<Rightarrow> gostring \<Rightarrow> u16 \<Rightarrow> Broker \<Rightarrow> Broker" where
  "dropRejectedDelivery now clientID packetID b =
     flushBufferedOutbound now clientID
       (onSession clientID (releaseDelivery packetID) (b\<lparr>b_qos := ReleaseInflight clientID packetID (b_qos b)\<rparr>))"

definition pubRelPacket :: "u16 \<Rightarrow> Packet" where
  "pubRelPacket packetID = PubRel ((mkAck PacketTypePubRel packetID 0)\<lparr>ak_fh := (mkHeader PacketTypePubRel)\<lparr>fh_QoS := 1\<rparr>\<rparr>)"

definition buildRetransmitPublish :: "int \<Rightarrow> InflightMsg \<Rightarrow> PublishPacket" where
  "buildRetransmitPublish now msg =
     mkPublish (if_QoS msg) True (if_Retain msg) (if_PacketID msg) (if_Topic msg) (if_Payload msg)
       (case (if_Properties msg, if_ExpiresAt msg) of
          (Some p, Some t) \<Rightarrow> Some (p\<lparr>MessageExpiryInterval := Some (remainingExpiry now t)\<rparr>)
        | (props, _) \<Rightarrow> props)"

definition republish :: "int \<Rightarrow> gostring \<Rightarrow> u16 \<Rightarrow> byte \<Rightarrow> Broker \<Rightarrow> Broker" where
  "republish now clientID packetID qos b =
     (case GetSession clientID (b_sessions b) of None \<Rightarrow> b
      | Some sess \<Rightarrow> (case GetInflightMsg packetID sess of None \<Rightarrow> b
         | Some msg \<Rightarrow> if if_QoS msg = qos then writePacket clientID (Publish (buildRetransmitPublish now msg)) b else b))"

text \<open>The callbacks the constructor installs in the engine; none of them fails.\<close>

fun runCallback :: "int \<Rightarrow> qosAction \<Rightarrow> Broker \<Rightarrow> Broker" where
  "runCallback now (SendPubRel clientID packetID) b = writePacket clientID (pubRelPacket packetID) b"
| "runCallback now (SendPubComp clientID packetID) b = writePacket clientID (PubComp (mkAck PacketTypePubComp packetID 0)) b"
| "runCallback now (Republish clientID packetID topic payload qos retain) b = republish now clientID packetID qos b"
| "runCallback now (OnGiveUp clientID packetID) b = onSession clientID (releaseDelivery packetID) b"
| "runCallback now (OnError clientID packetID err) b = b"

definition handlePubRec :: "int \<Rightarrow> gostring \<Rightarrow> u16 \<Rightarrow> byte \<Rightarrow> Broker \<Rightarrow> Broker" where
  "handlePubRec now clientID packetID reasonCode b =
     (if ReasonCodeFailureBase \<le> reasonCode then dropRejectedDelivery now clientID packetID b
      else let b1 = onSession clientID (\<lambda>s. snd (MarkInflightPubRel packetID s)) b in
        (case AckPubRec (\<lambda>_. False) clientID packetID (b_qos b1) of (acts, q) \<Rightarrow>
           fold (runCallback now) acts (b1\<lparr>b_qos := q\<rparr>)))"

definition handlePubRel :: "int \<Rightarrow> gostring \<Rightarrow> u16 \<Rightarrow> Broker \<Rightarrow> Broker" where
  "handlePubRel now clientID packetID b =
     (let b' = (case GetSession clientID (b_sessions b) of None \<Rightarrow> b
            | Some sess \<Rightarrow> (case TakeInboundQoS2 packetID sess of
                (None, _) \<Rightarrow> b
              | (Some msg, sess') \<Rightarrow>
                  routePublish now clientID
                    (mkPublish (iq_QoS msg) False (iq_Retain msg) (iq_PacketID msg) (iq_Topic msg) (iq_Payload msg) (iq_Properties msg))
                    (b\<lparr>b_sessions := mset_key clientID sess' (b_sessions b)\<rparr>)))
      in writePacket clientID (PubComp (mkAck PacketTypePubComp packetID 0)) b')"

definition handlePubComp :: "int \<Rightarrow> gostring \<Rightarrow> u16 \<Rightarrow> Broker \<Rightarrow> Broker" where
  "handlePubComp now clientID packetID b =
     flushBufferedOutbound now clientID
       (onSession clientID (releaseDelivery packetID) (b\<lparr>b_qos := AckPubComp clientID packetID (b_qos b)\<rparr>))"

text \<open>One tick of the retry loop, with its callbacks.\<close>

definition retryTick :: "int \<Rightarrow> Broker \<Rightarrow> Broker" where
  "retryTick now b = (case doRetry (\<lambda>_. False) now (b_qos b) of (acts, q) \<Rightarrow> fold (runCallback now) acts (b\<lparr>b_qos := q\<rparr>))"

section \<open>Resuming and wills\<close>

definition restoreSessionInflight :: "int \<Rightarrow> gostring \<Rightarrow> Session \<Rightarrow> QoSEngine \<Rightarrow> QoSEngine" where
  "restoreSessionInflight now clientID restored =
     fold (\<lambda>msg q.
       if if_QoS msg = 2
       then (if if_PendingPubRel msg
             then snd (TrackOutboundQoS2AwaitingPubComp now clientID (if_PacketID msg) (if_Topic msg) (if_Payload msg) (if_Retain msg) q)
             else snd (TrackOutboundQoS2 now clientID (if_PacketID msg) (if_Topic msg) (if_Payload msg) (if_Retain msg) q))
       else snd (TrackOutboundQoS1 now clientID (if_PacketID msg) (if_Topic msg) (if_Payload msg) (if_Retain msg) q))
     (InflightSnapshot restored)"

definition resendSessionInflight :: "int \<Rightarrow> gostring \<Rightarrow> Session \<Rightarrow> Broker \<Rightarrow> Broker" where
  "resendSessionInflight now clientID sess =
     fold (\<lambda>msg. if if_QoS msg = 2 \<and> if_PendingPubRel msg then writePacket clientID (pubRelPacket (if_PacketID msg))
       else writePacket clientID (Publish (buildRetransmitPublish now msg))) (InflightSnapshot sess)"

definition publishWill :: "int \<Rightarrow> WillMessage \<Rightarrow> Broker \<Rightarrow> Broker" where
  "publishWill now w b =
     (if \<not> canPublish b (w_Username w) (w_Topic w) then b
      else let pkt = mkPublish (w_QoS w) False (w_Retain w) 0 (w_Topic w) (w_Payload w) (w_Properties w);
               b1 = (if w_Retain w then handleRetainedMessage now pkt b else b)
           in routePublish now [] pkt b1)"

text \<open>An operation of the will handler with the publications it makes.\<close>

definition onWill :: "int \<Rightarrow> (WillHandler \<Rightarrow> WillMessage list \<times> WillHandler) \<Rightarrow> Broker \<Rightarrow> Broker" where
  "onWill now f b = (case f (b_will b) of (ws, wh) \<Rightarrow> fold (publishWill now) ws (b\<lparr>b_will := wh\<rparr>))"

end
