(* ===== verification/Lifecycle.thy ===== *)
theory Lifecycle
  imports Handlers Codec
begin

text \<open>
  The life of a connection, \<^verbatim>\<open>src/broker/conn_lifecycle.go\<close> and \<^verbatim>\<open>src/broker/connack.go\<close>: the
  admission checks, session establishment and take-over, the packets read afterwards and the two
  ways a connection ends. The decoded CONNECT, the answer of the flap detector, the outcome of
  an enhanced authentication exchange and the generated client identifier come from outside the
  broker and are inputs of a connection. A nil dereference, which ends the process, is an
  outcome of its own.
\<close>

section \<open>Admission\<close>

record connEnv =
  ce_conn :: nat
  ce_spec :: Spec
  ce_flapAllow :: bool
  ce_enhancedOk :: bool
  ce_generatedID :: gostring

definition buildConnAck :: "byte \<Rightarrow> bool \<Rightarrow> ConnAckPacket" where
  "buildConnAck reasonCode sessionPresent = \<lparr> ca_fh = mkHeader PacketTypeConnAck, ca_ReasonCode = reasonCode,
     ca_SessionPresent = sessionPresent, ca_Properties = None \<rparr>"

definition sendConnAckRaw :: "connEnv \<Rightarrow> byte \<Rightarrow> Broker \<Rightarrow> Broker" where
  "sendConnAckRaw env reason = emitOut (Raw (ce_conn env) (ConnAck (buildConnAck reason False)))"

definition reserveConnectionSlot :: "Broker \<Rightarrow> bool \<times> Broker" where
  "reserveConnectionSlot b =
     (if bo_maxConnections (b_opts b) \<le> 0 then (True, b)
      else if bo_maxConnections (b_opts b) \<le> int (length (b_connections b)) + b_pendingConns b then (False, b)
      else (True, b\<lparr>b_pendingConns := b_pendingConns b + 1\<rparr>))"

definition releaseConnectionSlot :: "Broker \<Rightarrow> Broker" where
  "releaseConnectionSlot b =
     (if bo_maxConnections (b_opts b) \<le> 0 then b
      else if 0 < b_pendingConns b then b\<lparr>b_pendingConns := b_pendingConns b - 1\<rparr> else b)"

definition connAckForConnectRejection :: "Spec \<Rightarrow> ConnectPacket \<Rightarrow> byte" where
  "connAckForConnectRejection sp pkt =
     (if sp_ConnAckHasReasonCode sp then 0x82
      else if (length (cp_ClientID pkt) = 0 \<and> \<not> sp_AllowEmptyID sp) \<or>
              (0 < sp_MaxClientIDLen sp \<and> sp_MaxClientIDLen sp < length (cp_ClientID pkt))
      then 0x02 else 0x01)"

definition connSpec :: "connEnv \<Rightarrow> ConnectPacket \<Rightarrow> Spec" where
  "connSpec env pkt = (if sp_Version (ce_spec env) = 0 then fst (SpecOf (cp_ProtocolVersion pkt)) else ce_spec env)"

text \<open>The authentication step: the reason of a refusal, or none; the exchange answers for itself.\<close>

datatype authOutcome = AuthPassed | AuthRefused byte | AuthExchangeFailed

definition authenticate :: "connEnv \<Rightarrow> ConnectPacket \<Rightarrow> brokerOptions \<Rightarrow> authOutcome" where
  "authenticate env pkt opts =
     (let method = (case cp_Properties pkt of None \<Rightarrow> [] | Some p \<Rightarrow> AuthenticationMethod p) in
      if method \<noteq> []
      then (if method \<notin> set (bo_enhancedAuth opts) then AuthRefused 0x8C
            else if ce_enhancedOk env then AuthPassed else AuthExchangeFailed)
      else (case bo_authenticator opts of None \<Rightarrow> AuthPassed
            | Some auth \<Rightarrow>
                if auth (cp_ClientID pkt) (cp_Username pkt) (cp_Password pkt) then AuthPassed
                else AuthRefused (if sp_ConnAckHasReasonCode (connSpec env pkt) then 0x86 else 0x04)))"

text \<open>The session the store has for the client, and whether another user owns the client's session.\<close>

definition storedSessionOf :: "ConnectPacket \<Rightarrow> Broker \<Rightarrow> SessionData option" where
  "storedSessionOf pkt b =
     (if cp_ClientID pkt = [] \<or> b_sessionErr b then None
      else case b_sessionStore b of None \<Rightarrow> None | Some ss \<Rightarrow> map_of ss (cp_ClientID pkt))"

definition ownerMismatch :: "ConnectPacket \<Rightarrow> Broker \<Rightarrow> bool" where
  "ownerMismatch pkt b \<longleftrightarrow> cp_ClientID pkt \<noteq> [] \<and>
     ((case GetSession (cp_ClientID pkt) (b_sessions b) of None \<Rightarrow> False | Some s \<Rightarrow> s_Username s \<noteq> cp_Username pkt) \<or>
      (case storedSessionOf pkt b of None \<Rightarrow> False | Some d \<Rightarrow> sd_Username d \<noteq> cp_Username pkt))"

text \<open>
  The checks between the reserved slot and the session, in source order: a refusal (with the
  state after its CONNACK) or the state to go on with.
\<close>

definition admitChecks :: "int \<Rightarrow> connEnv \<Rightarrow> ConnectPacket \<Rightarrow> Broker \<Rightarrow> Broker + Broker" where
  "admitChecks now env pkt b0 =
     (let sp = connSpec env pkt;
          (rateOk, b) = (if 0 < bo_maxConnRate (b_opts b0)
             then (case AllowConn now (SetRate (bo_maxConnRate (b_opts b0)) (b_connRate b0)) of (ok, r) \<Rightarrow> (ok, b0\<lparr>b_connRate := r\<rparr>))
             else (True, b0)) in
      if \<not> rateOk then Inl (emitOut (Closed (ce_conn env)) (sendConnAckRaw env 0x9F b))
      else if ValidateConnect pkt \<noteq> None then Inl (sendConnAckRaw env (connAckForConnectRejection sp pkt) b)
      else if \<not> ce_flapAllow env
      then Inl (sendConnAckRaw env (if sp_ConnAckHasReasonCode sp then 0x8A else 0x03) b)
      else if 0 < bo_maxClientIDLength (b_opts b) \<and> bo_maxClientIDLength (b_opts b) < int (length (cp_ClientID pkt))
      then Inl (sendConnAckRaw env (if sp_ConnAckHasReasonCode sp then 0x85 else 0x02) b)
      else (case authenticate env pkt (b_opts b) of
              AuthRefused reason \<Rightarrow> Inl (sendConnAckRaw env reason b)
            | AuthExchangeFailed \<Rightarrow> Inl b
            | AuthPassed \<Rightarrow>
                if cf_WillFlag (cp_Flags pkt) \<and> \<not> ValidatePublishTopic (cp_WillTopic pkt)
                then Inl (sendConnAckRaw env 0x80 b)
                else if ownerMismatch pkt b
                then Inl (sendConnAckRaw env (if sp_ConnAckHasReasonCode sp then 0x87 else 0x05) b)
                else Inr b))"

section \<open>Session establishment\<close>

definition unsubscribeTopics :: "gostring \<Rightarrow> gostring list \<Rightarrow> Broker \<Rightarrow> Broker" where
  "unsubscribeTopics clientID topics b =
     b\<lparr>b_topics := fold (\<lambda>topic tt.
         if IsSharedSubscription topic
         then (case ParseSharedFilter topic of None \<Rightarrow> tt | Some (shareName, flt) \<Rightarrow> UnsubscribeShared shareName flt clientID tt)
         else TopicTree.Unsubscribe topic clientID tt) topics (b_topics b)\<rparr>"

definition unsubscribeSessionTopics :: "Session \<Rightarrow> Broker \<Rightarrow> Broker" where
  "unsubscribeSessionTopics sess = unsubscribeTopics (s_ClientID sess) (map fst (s_Subscriptions sess))"

definition resubscribe :: "gostring \<Rightarrow> Session \<Rightarrow> TopicTree \<Rightarrow> TopicTree" where
  "resubscribe clientID restored tt = fold (\<lambda>(topic, qos) tt.
     if IsSharedSubscription topic
     then (case ParseSharedFilter topic of None \<Rightarrow> tt | Some (shareName, flt) \<Rightarrow> SubscribeShared shareName flt clientID qos tt)
     else snd (TopicTree.Subscribe topic clientID qos tt)) (s_Subscriptions restored) tt"

text \<open>Restoring from the store: whether a session was restored, and the state after it.\<close>

definition tryRestore :: "int \<Rightarrow> ConnectPacket \<Rightarrow> Broker \<Rightarrow> bool \<times> Broker" where
  "tryRestore now pkt b =
     (case b_sessionStore b of None \<Rightarrow> (False, b)
      | Some ss \<Rightarrow>
          if b_sessionErr b \<or> \<not> IsSessionExists ss (cp_ClientID pkt) then (False, b)
          else (case Restore (Some (GetStoredSession ss)) now (cp_ClientID pkt) (b_sessions b) of
                  (Inl _, _) \<Rightarrow> (False, b)
                | (Inr restored, m) \<Rightarrow>
                    (True, b\<lparr> b_sessions := m, b_topics := resubscribe (cp_ClientID pkt) restored (b_topics b),
                              b_qos := restoreSessionInflight now (cp_ClientID pkt) restored (b_qos b) \<rparr>)))"

text \<open>A clean start discards what is stored for the client.\<close>

definition discardOldSession :: "gostring \<Rightarrow> SessionData option \<Rightarrow> Broker \<Rightarrow> Broker" where
  "discardOldSession clientID stored b0 =
     (let b1 = (case GetSession clientID (b_sessions b0) of None \<Rightarrow> b0 | Some s \<Rightarrow> unsubscribeSessionTopics s b0);
          b2 = (case b_sessionStore b1 of None \<Rightarrow> b1
                | Some ss \<Rightarrow>
                    let b' = (case stored of None \<Rightarrow> b1 | Some d \<Rightarrow> unsubscribeTopics clientID (map sub_Topic (sd_Subscriptions d)) b1)
                    in if b_sessionErr b' then b' else b'\<lparr>b_sessionStore := Some (DeleteSession clientID ss)\<rparr>);
          b3 = (case b_messageStore b2 of None \<Rightarrow> b2
                | Some ms \<Rightarrow> if b_messageErr b2 then b2 else b2\<lparr>b_messageStore := Some (ClearMessages clientID ms)\<rparr>)
      in b3\<lparr>b_offlineCount := mdel_key clientID (b_offlineCount b3)\<rparr>)"

definition negotiatedExpiry :: "ConnectPacket \<Rightarrow> brokerOptions \<Rightarrow> u32" where
  "negotiatedExpiry pkt opts =
     (let serverMax = word_of_int (bo_sessionExpiry opts div seconds 1) in
      case (case cp_Properties pkt of None \<Rightarrow> None | Some p \<Rightarrow> SessionExpiryInterval p) of
        Some v \<Rightarrow> if serverMax < v then serverMax else v
      | None \<Rightarrow> if cf_CleanSession (cp_Flags pkt) then 0 else serverMax)"

definition serverReceiveMax :: "brokerOptions \<Rightarrow> u16" where
  "serverReceiveMax opts = (let n = word_of_int (bo_maxInflight opts) in if n = 0 then 65535 else n)"

definition clientReceiveMax :: "ConnectPacket \<Rightarrow> u16" where
  "clientReceiveMax pkt = (case cp_Properties pkt of None \<Rightarrow> 65535
     | Some p \<Rightarrow> (case ReceiveMaximum p of None \<Rightarrow> 65535 | Some v \<Rightarrow> v))"

text \<open>
  The negotiated values of a session. Setting the publish rate dereferences the tracker; without
  one the process ends.
\<close>

definition configureSession :: "ConnectPacket \<Rightarrow> gostring \<Rightarrow> brokerOptions \<Rightarrow> Session \<Rightarrow> Session option" where
  "configureSession pkt assignedID opts s0 =
     (let s1 = (if assignedID \<noteq> [] then s0\<lparr>s_AssignedClientID := assignedID\<rparr> else s0) in
      case (if 0 < bo_maxPublishRate opts
            then map_option (\<lambda>t. s1\<lparr>s_publishRate := Some (SetMaxRate (bo_maxPublishRate opts) t)\<rparr>) (s_publishRate s1)
            else Some s1) of
        None \<Rightarrow> None
      | Some s2 \<Rightarrow>
          let s3 = s2\<lparr> s_ExpiryInterval := negotiatedExpiry pkt opts, s_ReceiveMax := serverReceiveMax opts,
                       s_OutboundWindow := min (clientReceiveMax pkt) (serverReceiveMax opts),
                       s_TopicAliasMax := (if sp_TopicAlias (sessSpec s2) then 64 else 0) \<rparr>;
              s4 = (case cp_Properties pkt of None \<Rightarrow> s3
                    | Some p \<Rightarrow> (case TopicAliasMaximum p of None \<Rightarrow> s3 | Some v \<Rightarrow> s3\<lparr>s_ClientTopicAliasMax := v\<rparr>))
          in Some (if 0 < bo_keepAlive opts \<and> bo_keepAlive opts < cp_KeepAlive pkt
                   then s4\<lparr>s_ServerKeepAlive := Some (bo_keepAlive opts), s_KeepAlive := bo_keepAlive opts\<rparr> else s4))"

text \<open>
  From the client identifier to the configured session: whether a session was resumed and the
  state after it, or none when the process ends.
\<close>

definition establishSession ::
  "int \<Rightarrow> connEnv \<Rightarrow> ConnectPacket \<Rightarrow> Broker \<Rightarrow> (bool \<times> ConnectPacket \<times> Broker) option" where
  "establishSession now env pkt0 b0 =
     (let stored = storedSessionOf pkt0 b0;
          assignedID = (if length (cp_ClientID pkt0) = 0 then ce_generatedID env else []);
          pkt = (if length (cp_ClientID pkt0) = 0 then pkt0\<lparr>cp_ClientID := ce_generatedID env\<rparr> else pkt0);
          clientID = cp_ClientID pkt;
          clean = cf_CleanSession (cp_Flags pkt);
          b1 = b0\<lparr>b_qos := SetClientVersion clientID (cp_ProtocolVersion pkt) (b_qos b0)\<rparr>;
          (isResuming, b2) = (if \<not> clean \<and> SessionExists clientID (b_sessions b1) then (True, b1)
             else if \<not> clean then tryRestore now pkt b1 else (False, b1))
      in case CreateSession now clientID pkt isResuming (b_sessions b2) of (_, _, m) \<Rightarrow>
       (let b3 = b2\<lparr>b_sessions := m\<rparr>;
            wantsInfo = (case cp_Properties pkt of None \<Rightarrow> False | Some p \<Rightarrow> RequestResponseInfo p = Some 1);
            b4 = (if wantsInfo then onSession clientID (\<lambda>s. s\<lparr>s_RequestResponseInfo := True\<rparr>) b3 else b3);
            b5 = (if isResuming then b4\<lparr>b_will := CancelWill clientID (b_will b4)\<rparr> else b4);
            b6 = (if clean then discardOldSession clientID stored b5 else b5)
        in case GetSession clientID (b_sessions b6) of None \<Rightarrow> None
           | Some s \<Rightarrow> (case configureSession pkt assignedID (b_opts b6) s of None \<Rightarrow> None
              | Some s' \<Rightarrow> Some (isResuming, pkt, b6\<lparr>b_sessions := mset_key clientID s' (b_sessions b6)\<rparr>))))"

section \<open>Registration\<close>

text \<open>The previous connection is told and its will triggered, closed, and replaced.\<close>

definition takeOver :: "int \<Rightarrow> gostring \<Rightarrow> Broker \<Rightarrow> Broker" where
  "takeOver now clientID b = (case map_of (b_connections b) clientID of None \<Rightarrow> b
     | Some old \<Rightarrow>
         let b1 = (if sp_ServerDisconnect (cs_spec old) \<and> \<not> cs_stopped old
                   then emitOut (Final clientID (mkDisconnect 0x8E)) b else b)
         in onWill now (TriggerWill clientID (Some (cs_conn old))) b1)"

definition registerConnection :: "connEnv \<Rightarrow> ConnectPacket \<Rightarrow> Broker \<Rightarrow> Broker" where
  "registerConnection env pkt b0 =
     (let clientID = cp_ClientID pkt;
          b = closeConn clientID b0;
          method = (case cp_Properties pkt of None \<Rightarrow> [] | Some p \<Rightarrow> AuthenticationMethod p)
      in b\<lparr> b_connections := mset_key clientID \<lparr> cs_conn = ce_conn env, cs_spec = connSpec env pkt, cs_full = False,
              cs_stopped = False, cs_enhancedAuth = (if method = [] then None else Some method) \<rparr> (b_connections b),
            b_pendingConns := (if 0 < b_pendingConns b then b_pendingConns b - 1 else b_pendingConns b) \<rparr>)"

definition registerConnectWill :: "connEnv \<Rightarrow> ConnectPacket \<Rightarrow> Session \<Rightarrow> Broker \<Rightarrow> Broker" where
  "registerConnectWill env pkt sess b =
     (if cf_WillFlag (cp_Flags pkt)
      then (let d0 = (case cp_WillProperties pkt of None \<Rightarrow> 0
                 | Some p \<Rightarrow> (case WillDelayInterval p of None \<Rightarrow> 0 | Some v \<Rightarrow> uint v * seconds 1));
                d1 = (if bo_maxWillDelay (b_opts b) < d0 then bo_maxWillDelay (b_opts b) else d0);
                sessionEnds = uint (s_ExpiryInterval sess) * seconds 1;
                d2 = (if sessionEnds < d1 then sessionEnds else d1)
            in b\<lparr>b_will := RegisterWill (cp_ClientID pkt) (cp_Username pkt) (cp_WillTopic pkt) (cp_WillMessage pkt)
                   (cf_WillQoS (cp_Flags pkt)) (cf_WillRetain (cp_Flags pkt)) (cp_WillProperties pkt) d2
                   (Some (ce_conn env)) (b_will b)\<rparr>)
      else b)"

definition buildConnAckProperties :: "Session \<Rightarrow> Broker \<Rightarrow> Properties" where
  "buildConnAckProperties sess b =
     (let p0 = emptyProperties\<lparr> SessionExpiryInterval := Some (s_ExpiryInterval sess),
            ReceiveMaximum := Some (if s_ReceiveMax sess = 0 then 65535 else s_ReceiveMax sess),
            RetainAvailable := Some (if b_retainedStore b \<noteq> None then 1 else 0),
            MaximumPacketSize := Some (word_of_int (bo_maxPacketSize (b_opts b))),
            WildcardSubAvailable := Some 1, SubIDAvailable := Some 1, SharedSubAvailable := Some 1 \<rparr>;
          p1 = (if s_RequestResponseInfo sess then p0\<lparr>ResponseInfo := s_ClientID sess\<rparr> else p0);
          p2 = (if 0 < s_TopicAliasMax sess then p1\<lparr>TopicAliasMaximum := Some (s_TopicAliasMax sess)\<rparr> else p1);
          p3 = (if s_ServerKeepAlive sess \<noteq> None then p2\<lparr>ServerKeepAlive := s_ServerKeepAlive sess\<rparr> else p2)
      in if s_AssignedClientID sess \<noteq> [] then p3\<lparr>AssignedClientID := s_AssignedClientID sess\<rparr> else p3)"

definition sendConnAck :: "gostring \<Rightarrow> byte \<Rightarrow> bool \<Rightarrow> Session \<Rightarrow> Broker \<Rightarrow> Broker" where
  "sendConnAck clientID reasonCode sessionPresent sess b =
     (let present = (if \<not> sp_ConnAckSessionPresent (sessSpec sess) then False else sessionPresent);
          pkt = (buildConnAck reasonCode present)\<lparr>ca_Properties :=
             (if sp_Properties (sessSpec sess) then Some (buildConnAckProperties sess b) else None)\<rparr>
      in writePacket clientID (ConnAck pkt) b)"

text \<open>The rest of the handshake, for a configured session.\<close>

definition goOnline :: "int \<Rightarrow> connEnv \<Rightarrow> ConnectPacket \<Rightarrow> bool \<Rightarrow> Broker \<Rightarrow> Broker" where
  "goOnline now env pkt isResuming b0 =
     (let clientID = cp_ClientID pkt;
          b1 = registerConnection env pkt (takeOver now clientID b0);
          b2 = (if cf_CleanSession (cp_Flags pkt) then onWill now (FireWill clientID) b1 else b1)
      in case GetSession clientID (b_sessions b2) of None \<Rightarrow> b2
         | Some sess \<Rightarrow>
            (let b3 = registerConnectWill env pkt sess b2;
                 b4 = sendConnAck clientID 0 isResuming sess b3;
                 b5 = (if isResuming then resendSessionInflight now clientID sess b4 else b4)
             in deliverQueuedMessages now clientID b5))"

datatype connOutcome = Refused Broker | Crashed | Online gostring Broker

definition HandleConnection :: "int \<Rightarrow> connEnv \<Rightarrow> ConnectPacket \<Rightarrow> Broker \<Rightarrow> connOutcome" where
  "HandleConnection now env pkt b =
     (case reserveConnectionSlot b of
        (False, b1) \<Rightarrow> Refused (emitOut (Closed (ce_conn env)) b1)
      | (True, b1) \<Rightarrow>
          (case admitChecks now env pkt b1 of
             Inl b2 \<Rightarrow> Refused (releaseConnectionSlot b2)
           | Inr b2 \<Rightarrow>
               (case establishSession now env pkt b2 of
                  None \<Rightarrow> Crashed
                | Some (isResuming, pkt', b3) \<Rightarrow> Online (cp_ClientID pkt') (goOnline now env pkt' isResuming b3))))"

section \<open>Disconnecting\<close>

text \<open>The store at the end of a connection: a session that outlives it is saved, any other forgotten.\<close>

definition storeOnDisconnect :: "int \<Rightarrow> gostring \<Rightarrow> Broker \<Rightarrow> Broker" where
  "storeOnDisconnect now clientID b = (case (GetSession clientID (b_sessions b), b_sessionStore b) of
     (Some sess, Some ss) \<Rightarrow>
       if 0 < s_ExpiryInterval sess
       then (if b_sessionErr b then b else b\<lparr>b_sessionStore := Some (SaveSession clientID (Some (Save now sess)) ss)\<rparr>)
       else let b' = (if b_sessionErr b then b else b\<lparr>b_sessionStore := Some (DeleteSession clientID ss)\<rparr>);
                b'' = (case b_messageStore b' of None \<Rightarrow> b'
                  | Some ms \<Rightarrow> if b_messageErr b' then b' else b'\<lparr>b_messageStore := Some (ClearMessages clientID ms)\<rparr>)
            in b''\<lparr>b_offlineCount := mdel_key clientID (b_offlineCount b'')\<rparr>
   | _ \<Rightarrow> b)"

text \<open>
  Teardown of connection \<open>conn\<close>. The connection is checked before the store is written and again
  before the state is removed; nothing runs in between here, so one check stands for both.
\<close>

definition disconnect :: "int \<Rightarrow> gostring \<Rightarrow> nat \<Rightarrow> Broker \<Rightarrow> Broker" where
  "disconnect now clientID conn b =
     (case map_of (b_connections b) clientID of
        None \<Rightarrow> b
      | Some cs \<Rightarrow>
          if cs_conn cs \<noteq> conn then b
          else
            (let b1 = storeOnDisconnect now clientID b;
                 b1' = onSession clientID ResetOutboundUnacked b1;
                 b2 = (case GetSession clientID (b_sessions b1') of None \<Rightarrow> b1'
                   | Some sess \<Rightarrow> if 0 < s_ExpiryInterval sess then b1' else unsubscribeSessionTopics sess b1');
                 b3 = b2\<lparr> b_sessions := snd (RemoveSession clientID (b_sessions b2)),
                          b_qos := RemoveClient clientID (b_qos b2),
                          b_connections := mdel_key clientID (b_connections b2) \<rparr>
             in case GetSession clientID (b_sessions b1') of None \<Rightarrow> b3
                | Some sess \<Rightarrow> if 0 < s_ExpiryInterval sess then persistBufferedOutbound now clientID sess b3 else b3))"

definition abnormalDisconnect :: "int \<Rightarrow> gostring \<Rightarrow> nat \<Rightarrow> Broker \<Rightarrow> Broker" where
  "abnormalDisconnect now clientID conn b =
     (if b_shuttingDown b then disconnect now clientID conn (b\<lparr>b_will := RemoveWill clientID (b_will b)\<rparr>)
      else disconnect now clientID conn (onWill now (TriggerWill clientID (Some conn)) b))"

definition gracefulDisconnect :: "int \<Rightarrow> gostring \<Rightarrow> nat \<Rightarrow> Broker \<Rightarrow> Broker" where
  "gracefulDisconnect now clientID conn b = disconnect now clientID conn (b\<lparr>b_will := RemoveWill clientID (b_will b)\<rparr>)"

section \<open>The read loop\<close>

fun decodeErrorReasonCode :: "perr \<Rightarrow> byte option" where
  "decodeErrorReasonCode ErrProtocolError = Some ReasonCodeProtocolError"
| "decodeErrorReasonCode ErrMalformedPacket = Some ReasonCodeMalformedPacket"
| "decodeErrorReasonCode ErrInvalidPacket = Some ReasonCodeMalformedPacket"
| "decodeErrorReasonCode ErrPacketTooLarge = Some ReasonCodePacketTooLarge"
| "decodeErrorReasonCode _ = None"

text \<open>What the decoder gave: a packet, an error, or a passed keep-alive deadline.\<close>

datatype readResult = GotPacket Packet | ReadError perr | DeadlineExceeded

definition serverNotice :: "gostring \<Rightarrow> Session \<Rightarrow> byte \<Rightarrow> Broker \<Rightarrow> Broker" where
  "serverNotice clientID sess reason b =
     (if sp_ServerDisconnect (sessSpec sess) then sendDisconnectBeforeClose clientID (mkDisconnect reason) b else b)"

text \<open>
  The answer of an enhanced authenticator to an AUTH packet is an input: an error, or the reason
  and the data to send.
\<close>

definition handleAuth ::
  "int \<Rightarrow> gostring \<Rightarrow> nat \<Rightarrow> (byte list option \<Rightarrow> (byte \<times> byte list option) option) \<Rightarrow> ReasonPacket \<Rightarrow> Broker \<Rightarrow> bool \<times> Broker" where
  "handleAuth now clientID conn continue p b =
     (case map_option cs_enhancedAuth (map_of (b_connections b) clientID) of
        Some (Some method) \<Rightarrow>
          (case continue (case rp_Properties p of None \<Rightarrow> None | Some ps \<Rightarrow> AuthenticationData ps) of
             None \<Rightarrow> (True, gracefulDisconnect now clientID conn (writePacket clientID (mkDisconnect ReasonCodeBadAuthMethod) b))
           | Some (reason, respData) \<Rightarrow>
               let b1 = writePacket clientID (Auth \<lparr> rp_fh = mkHeader PacketTypeAuth, rp_ReasonCode = reason,
                     rp_Properties = Some (emptyProperties\<lparr>AuthenticationMethod := method, AuthenticationData := respData\<rparr>) \<rparr>) b
               in if reason = 0x18 \<or> reason = ReasonCodeSuccess then (False, b1)
                  else (True, gracefulDisconnect now clientID conn b1))
      | _ \<Rightarrow> (True, gracefulDisconnect now clientID conn (writePacket clientID (mkDisconnect ReasonCodeBadAuthMethod) b)))"

definition disconnectExpiry :: "ReasonPacket \<Rightarrow> brokerOptions \<Rightarrow> Session \<Rightarrow> Session" where
  "disconnectExpiry p opts s = (case rp_Properties p of None \<Rightarrow> s
     | Some ps \<Rightarrow> (case SessionExpiryInterval ps of None \<Rightarrow> s
        | Some v \<Rightarrow> let serverMax = word_of_int (bo_sessionExpiry opts div seconds 1)
            in s\<lparr>s_ExpiryInterval := (if serverMax < v then serverMax else v)\<rparr>))"

text \<open>
  One turn of the loop: whether the loop ends, and the state. The turn is that of a connection whose
  session is the one the manager holds; a displaced connection, which in the sources keeps a pointer
  to the session it was given until its socket is closed, takes no further turn here.
\<close>

definition dispatchPacket ::
  "int \<Rightarrow> gostring \<Rightarrow> nat \<Rightarrow> (byte list option \<Rightarrow> (byte \<times> byte list option) option) \<Rightarrow> Packet \<Rightarrow> Session \<Rightarrow> Broker \<Rightarrow> bool \<times> Broker" where
  "dispatchPacket now clientID conn continue pkt sess b =
     (case pkt of
        Publish p \<Rightarrow>
          let sess' = TrackReceived (length (pp_Payload p) + length (pp_Topic p)) sess in
          (False, handlePublish now clientID sess' p (b\<lparr>b_sessions := mset_key clientID sess' (b_sessions b)\<rparr>))
      | Packet.Subscribe p \<Rightarrow> (False, handleSubscribe now clientID sess p b)
      | Packet.Unsubscribe p \<Rightarrow> (False, handleUnsubscribe clientID sess p b)
      | PingReq p \<Rightarrow> (False, writePacket clientID (PingResp \<lparr> pg_fh = mkHeader PacketTypePingResp \<rparr>) b)
      | Disconnect p \<Rightarrow> (True, gracefulDisconnect now clientID conn (onSession clientID (disconnectExpiry p (b_opts b)) b))
      | PubAck p \<Rightarrow> (False, handlePubAck now clientID (ak_PacketID p) b)
      | PubRec p \<Rightarrow> (False, handlePubRec now clientID (ak_PacketID p) (ak_ReasonCode p) b)
      | PubRel p \<Rightarrow> (False, handlePubRel now clientID (ak_PacketID p) b)
      | PubComp p \<Rightarrow> (False, handlePubComp now clientID (ak_PacketID p) b)
      | Auth p \<Rightarrow> handleAuth now clientID conn continue p b
      | Connect p \<Rightarrow> (True, abnormalDisconnect now clientID conn (serverNotice clientID sess ReasonCodeProtocolError b))
      | _ \<Rightarrow> (False, b))"

definition readStep ::
  "int \<Rightarrow> gostring \<Rightarrow> nat \<Rightarrow> (byte list option \<Rightarrow> (byte \<times> byte list option) option) \<Rightarrow> readResult \<Rightarrow> Broker \<Rightarrow> bool \<times> Broker" where
  "readStep now clientID conn continue r b =
     (case GetSession clientID (b_sessions b) of None \<Rightarrow> (True, b)
      | Some sess \<Rightarrow>
     (case r of
        DeadlineExceeded \<Rightarrow> (True, abnormalDisconnect now clientID conn (serverNotice clientID sess 0x8D b))
      | ReadError err \<Rightarrow>
          (True, abnormalDisconnect now clientID conn
             (case decodeErrorReasonCode err of None \<Rightarrow> b | Some reason \<Rightarrow> serverNotice clientID sess reason b))
      | GotPacket pkt \<Rightarrow>
          let sess' = UpdateActivity now sess in
          dispatchPacket now clientID conn continue pkt sess' (b\<lparr>b_sessions := mset_key clientID sess' (b_sessions b)\<rparr>)))"

end
