(* ===== verification/BrokerInvariant.thy ===== *)
theory BrokerInvariant
  imports Lifecycle
begin

text \<open>
  Invariants of sessions under the broker's handlers. The handlers change sessions only through
  a few methods; two locales name what a predicate on sessions has to survive, the delivery of
  messages and the handling of packets, and give that every handler keeps it.
\<close>

section \<open>What leaves the sessions alone\<close>

named_theorems same_sessions \<open>operations of the broker that leave its sessions alone\<close>

lemma emitOut_sessions [same_sessions, simp]: "b_sessions (emitOut x b) = b_sessions b"
  by (simp add: emitOut_def)

lemma writePacket_sessions [same_sessions, simp]: "b_sessions (writePacket c p b) = b_sessions b"
  by (simp add: writePacket_def split: option.split)

lemma notices_sessions [same_sessions, simp]:
  "b_sessions (sendDisconnectBeforeClose c p b) = b_sessions b" "b_sessions (closeConn c b) = b_sessions b"
  by (simp_all add: sendDisconnectBeforeClose_def closeConn_def split: option.split)

lemma violations_sessions [same_sessions, simp]:
  "b_sessions (closeProtocolViolationWithReason c s r b) = b_sessions b"
  "b_sessions (closeProtocolViolation c s b) = b_sessions b"
  "b_sessions (rejectMalformedTopic c s b) = b_sessions b"
  "b_sessions (serverNotice c s r b) = b_sessions b"
  by (simp_all add: closeProtocolViolationWithReason_def closeProtocolViolation_def rejectMalformedTopic_def serverNotice_def)

lemma discards_sessions [same_sessions, simp]:
  "b_sessions (ackDiscardedPublish c s p r b) = b_sessions b"
  "b_sessions (rejectInboundOverBudget c s p b) = b_sessions b"
  by (simp_all add: ackDiscardedPublish_def rejectInboundOverBudget_def Let_def)

lemma retained_sessions [same_sessions, simp]: "b_sessions (handleRetainedMessage now p b) = b_sessions b"
  by (simp add: handleRetainedMessage_def Let_def split: option.split)

lemma queue_sessions [same_sessions, simp]:
  "b_sessions (saveQueued now c t q p r e b) = b_sessions b"
  "b_sessions (adjustOfflineCount c d b) = b_sessions b"
  by (simp_all add: saveQueued_def nextMessageID_def adjustOfflineCount_def Let_def split: option.split)

lemma queueOffline_sessions [same_sessions, simp]:
  "b_sessions (queueOfflineMessage now c p e b) = b_sessions b"
  "b_sessions (deleteQueued c i b) = b_sessions b"
  by (simp_all add: queueOfflineMessage_def deleteQueued_def split: option.split sum.split)

lemma persist_sessions [same_sessions, simp]: "b_sessions (persistBufferedOutbound now c s b) = b_sessions b"
proof -
  have "b_sessions (fold (\<lambda>m. saveQueued now c (t m) (q m) (p m) (r m) (e m)) ms b) = b_sessions b"
    for t q p r e and ms :: "outboundMsg list" by (induction ms arbitrary: b) simp_all
  thus ?thesis by (simp add: persistBufferedOutbound_def split: option.split)
qed

lemma resend_sessions [same_sessions, simp]: "b_sessions (resendSessionInflight now c s b) = b_sessions b"
proof -
  have "b_sessions (fold (\<lambda>m. if f m then writePacket c (g m) else writePacket c (h m)) ms b) = b_sessions b"
    for f g h and ms :: "InflightMsg list" by (induction ms arbitrary: b) simp_all
  thus ?thesis by (simp add: resendSessionInflight_def)
qed

lemma republish_sessions [same_sessions, simp]: "b_sessions (republish now c i q b) = b_sessions b"
  by (simp add: republish_def split: option.split)

lemma unsubscribeTopics_sessions [same_sessions, simp]:
  "b_sessions (unsubscribeTopics c ts b) = b_sessions b" "b_sessions (unsubscribeSessionTopics s b) = b_sessions b"
  by (simp_all add: unsubscribeTopics_def unsubscribeSessionTopics_def)

section \<open>Predicates on all sessions\<close>

definition allSess :: "(gostring \<Rightarrow> Session \<Rightarrow> bool) \<Rightarrow> Broker \<Rightarrow> bool" where
  "allSess P b \<longleftrightarrow> mapOk (b_sessions b) \<and> (\<forall>c s. map_of (b_sessions b) c = Some s \<longrightarrow> P c s)"

lemma allSess_cong: "b_sessions b' = b_sessions b \<Longrightarrow> allSess P b' \<longleftrightarrow> allSess P b"
  by (simp add: allSess_def)

lemma allSess_lookup: "allSess P b \<Longrightarrow> map_of (b_sessions b) c = Some s \<Longrightarrow> P c s"
  by (simp add: allSess_def)

lemma allSess_put: "allSess P b \<Longrightarrow> P c s \<Longrightarrow> b_sessions b' = mset_key c s (b_sessions b) \<Longrightarrow> allSess P b'"
  by (simp add: allSess_def)

lemma allSess_onSession:
  assumes "allSess P b" "\<And>s. P c s \<Longrightarrow> P c (f s)"
  shows "allSess P (onSession c f b)"
proof (cases "map_of (b_sessions b) c")
  case (Some s)
  with assms have "P c (f s)" by (simp add: allSess_lookup)
  with assms(1) show ?thesis using Some by (simp add: onSession_def allSess_put [where c = c and s = "f s"])
qed (use assms in \<open>simp add: onSession_def\<close>)

lemma allSess_fold: "allSess P b \<Longrightarrow> (\<And>x b. allSess P b \<Longrightarrow> allSess P (f x b)) \<Longrightarrow> allSess P (fold f xs b)"
  by (induction xs arbitrary: b) simp_all

section \<open>Delivery\<close>

locale delivery_invariant =
  fixes P :: "gostring \<Rightarrow> Session \<Rightarrow> bool"
  assumes buffer: "P c s \<Longrightarrow> P c (snd (BufferOutbound m s))"
    and pop: "P c s \<Longrightarrow> P c (snd (PopOutbound s))"
    and deliver: "P c s \<Longrightarrow> 0 < q \<longrightarrow> CanSendOutbound s \<Longrightarrow> P c (snd (deliverPacket now pkt q e so ids rd s))"
begin

lemma keeps_doDeliver: "allSess P b \<Longrightarrow> allSess P (doDeliver now c pkt q e so ids rd b)"
proof (cases "map_of (b_sessions b) c")
  case (Some s)
  assume ok: "allSess P b"
  hence s: "P c s" using Some by (rule allSess_lookup)
  show ?thesis
  proof (cases "expired now e \<or> (0 < q \<and> \<not> CanSendOutbound s)")
    case True
    with ok Some show ?thesis
      by (auto simp: doDeliver_def GetSession_def intro: allSess_onSession buffer)
  next
    case False
    have "P c (snd (deliverPacket now pkt q e so ids rd s))" using s False by (intro deliver) auto
    with ok Some False show ?thesis
      by (auto simp: doDeliver_def GetSession_def split_beta intro!: allSess_put [OF ok, of c "snd (deliverPacket now pkt q e so ids rd s)"])
  qed
qed (simp add: doDeliver_def GetSession_def)

lemma keeps_flushLoop: "allSess P b \<Longrightarrow> allSess P (flushLoop n now c b)"
proof (induction n arbitrary: b)
  case (Suc n)
  show ?case
  proof (cases "map_of (b_sessions b) c")
    case (Some s)
    have "P c (snd (PopOutbound s))" using Suc.prems Some by (intro pop allSess_lookup)
    hence "allSess P (b\<lparr>b_sessions := mset_key c (snd (PopOutbound s)) (b_sessions b)\<rparr>)"
      by (rule allSess_put [OF Suc.prems]) simp
    thus ?thesis using Some Suc.prems
      by (cases "PopOutbound s") (auto simp: GetSession_def intro!: Suc.IH keeps_doDeliver split: option.split)
  qed (use Suc in \<open>simp add: GetSession_def\<close>)
qed simp

lemma keeps_flush: "allSess P b \<Longrightarrow> allSess P (flushBufferedOutbound now c b)"
  by (simp add: flushBufferedOutbound_def keeps_flushLoop split: option.split)

lemma keeps_deliverQueued: "allSess P b \<Longrightarrow> allSess P (deliverQueued now c m b)"
  by (auto simp: deliverQueued_def Let_def allSess_cong [OF queueOffline_sessions(2)] keeps_doDeliver split: option.split prod.split)

lemma keeps_deliverQueuedMessages: "allSess P b \<Longrightarrow> allSess P (deliverQueuedMessages now c b)"
  by (auto simp: deliverQueuedMessages_def intro: allSess_fold keeps_deliverQueued split: option.split)

lemma keeps_deliverToClient: "allSess P b \<Longrightarrow> allSess P (deliverToClient now c src pkt b)"
  by (auto simp: deliverToClient_def deliverWithQoS_def allSess_cong [OF queueOffline_sessions(1)] keeps_doDeliver
      split: option.split prod.split)

lemma keeps_deliverToSharedClient: "allSess P b \<Longrightarrow> allSess P (deliverToSharedClient now c src pkt q b)"
  by (auto simp: deliverToSharedClient_def deliverWithQoS_def keeps_doDeliver split: option.split)

lemma keeps_routePublish: "allSess P b \<Longrightarrow> allSess P (routePublish now src pkt b)"
proof -
  assume "allSess P b"
  hence "allSess P (fold (\<lambda>sub. deliverToClient now (sb_ClientID sub) src pkt) subs b)" for subs
    by (rule allSess_fold) (rule keeps_deliverToClient)
  moreover have "allSess P b' \<Longrightarrow> allSess P (routeSharedPublish now src pkt b')" for b'
    by (auto simp: routeSharedPublish_def allSess_cong [of "_\<lparr>b_topics := _\<rparr>"] intro!: allSess_fold keeps_deliverToSharedClient
        split: prod.split)
  ultimately show ?thesis unfolding routePublish_def by blast
qed

lemma keeps_deliverRetainedMessages: "allSess P b \<Longrightarrow> allSess P (deliverRetainedMessages now c f b)"
  by (auto simp: deliverRetainedMessages_def deliverRetained_def Let_def
      intro!: allSess_fold keeps_doDeliver split: option.split prod.split)

lemma keeps_publishWill: "allSess P b \<Longrightarrow> allSess P (publishWill now w b)"
  by (auto simp: publishWill_def Let_def allSess_cong [OF retained_sessions] intro!: keeps_routePublish)

lemma keeps_onWill: "allSess P b \<Longrightarrow> allSess P (onWill now f b)"
  by (auto simp: onWill_def allSess_cong [of "_\<lparr>b_will := _\<rparr>"] intro!: allSess_fold keeps_publishWill split: prod.split)

end

section \<open>Packets\<close>

locale session_invariant = delivery_invariant +
  assumes release: "P c s \<Longrightarrow> P c (releaseDelivery i s)"
    and mark: "P c s \<Longrightarrow> P c (snd (MarkInflightPubRel i s))"
    and rate: "P c s \<Longrightarrow> P c (s\<lparr>s_publishRate := r\<rparr>)"
    and register: "P c s \<Longrightarrow> P c (snd (RegisterTopicAlias a t s))"
    and stage: "P c s \<Longrightarrow> P c (snd (AddInboundQoS2 im n s))"
    and unstage: "P c s \<Longrightarrow> P c (snd (TakeInboundQoS2 i s))"
    and sub: "P c s \<Longrightarrow> P c (AddSubscriptionFilter f s)"
    and unsub: "P c s \<Longrightarrow> P c (RemoveSubscription t s)"
    and activity: "P c s \<Longrightarrow> P c (UpdateActivity now s)"
    and received: "P c s \<Longrightarrow> P c (TrackReceived k s)"
    and expiry: "P c s \<Longrightarrow> P c (s\<lparr>s_ExpiryInterval := v\<rparr>)"
begin

lemma resolveAlias_keeps: "P c s \<Longrightarrow> resolveAlias pkt s = Inr (pkt', s') \<Longrightarrow> P c s'"
proof -
  assume s: "P c s" and r: "resolveAlias pkt s = Inr (pkt', s')"
  have "s' = s \<or> (\<exists>a t. s' = snd (RegisterTopicAlias a t s))"
  proof (cases "\<exists>p a. pp_Properties pkt = Some p \<and> TopicAlias p = Some a")
    case True
    then obtain p a where "pp_Properties pkt = Some p" "TopicAlias p = Some a" by blast
    with r show ?thesis
      by (auto simp: resolveAlias_def split: if_splits option.splits prod.splits bool.splits) (metis snd_conv)+
  next
    case False
    with r show ?thesis by (auto simp: resolveAlias_def split: option.splits)
  qed
  with s register show ?thesis by blast
qed

lemma keeps_publishQoS2:
  "allSess P b \<Longrightarrow> P c s \<Longrightarrow> allSess P (handlePublishQoS2 now c s pkt b)"
proof -
  assume b: "allSess P b" and s: "P c s"
  have "allSess P (b\<lparr>b_sessions := mset_key c (snd (AddInboundQoS2 im n s)) (b_sessions b)\<rparr>)" for im n
    by (rule allSess_put [OF b stage [OF s]]) simp
  thus ?thesis using b
    by (auto simp: handlePublishQoS2_def Let_def allSess_cong [OF writePacket_sessions] allSess_cong [OF retained_sessions]
        allSess_cong [OF discards_sessions(2)] split: prod.split bool.split) (metis snd_conv)+
qed

lemma keeps_publishQoS01: "allSess P b \<Longrightarrow> allSess P (handlePublishQoS01 now c pkt b)"
  by (auto simp: handlePublishQoS01_def Let_def allSess_cong [OF writePacket_sessions] allSess_cong [OF retained_sessions]
      intro!: keeps_routePublish)

lemma keeps_acceptPublish: "allSess P b \<Longrightarrow> P c s \<Longrightarrow> allSess P (acceptPublish now c s pkt b)"
  by (simp add: acceptPublish_def keeps_publishQoS2 keeps_publishQoS01 allSess_cong [OF discards_sessions(1)]
      allSess_cong [OF violations_sessions(3)])

lemma keeps_handlePublish:
  assumes "allSess P b" "P c s"
  shows "allSess P (handlePublish now c s pkt b)"
proof -
  define s1 where "s1 = (case s_publishRate s of None \<Rightarrow> s | Some t \<Rightarrow> s\<lparr>s_publishRate := Some (snd (AllowPublish now t))\<rparr>)"
  have s1: "P c s1" using assms(2) by (auto simp: s1_def intro: rate split: option.split)
  let ?b1 = "b\<lparr>b_sessions := mset_key c s1 (b_sessions b)\<rparr>"
  have b1: "allSess P ?b1" by (rule allSess_put [OF assms(1) s1]) simp
  have acc: "allSess P (acceptPublish now c s2 pkt' (?b1\<lparr>b_sessions := mset_key c s2 (b_sessions ?b1)\<rparr>))"
    if "resolveAlias pkt s1 = Inr (pkt', s2)" for pkt' s2
  proof -
    have s2: "P c s2" using resolveAlias_keeps [OF s1 that] .
    have "allSess P (?b1\<lparr>b_sessions := mset_key c s2 (b_sessions ?b1)\<rparr>)" by (rule allSess_put [OF b1 s2]) simp
    thus ?thesis using s2 by (rule keeps_acceptPublish)
  qed
  have "handlePublish now c s pkt b = (if (case s_publishRate s of None \<Rightarrow> True | Some t \<Rightarrow> fst (AllowPublish now t))
    then (case resolveAlias pkt s1 of Inl reason \<Rightarrow> closeProtocolViolationWithReason c s1 reason ?b1
      | Inr (pkt', s2) \<Rightarrow> acceptPublish now c s2 pkt' (?b1\<lparr>b_sessions := mset_key c s2 (b_sessions ?b1)\<rparr>))
    else ackDiscardedPublish c s1 pkt ReasonCodeQuotaExceeded ?b1)"
    by (cases "s_publishRate s"; cases "AllowPublish now (the (s_publishRate s))")
      (simp_all add: handlePublish_def s1_def Let_def split: sum.split prod.split)
  thus ?thesis using b1 acc
    by (auto simp: allSess_cong [OF discards_sessions(1)] allSess_cong [OF violations_sessions(1)] split: sum.split prod.split)
qed

lemma keeps_subscribeOne:
  "allSess P b \<Longrightarrow> subscribeOne c f b = Inl b' \<Longrightarrow> allSess P b'"
  "allSess P b \<Longrightarrow> subscribeOne c f b = Inr (code, due, b') \<Longrightarrow> allSess P b'"
proof -
  assume b: "allSess P b"
  have keep: "allSess P (onSession c (AddSubscriptionFilter f) (b\<lparr>b_topics := tt\<rparr>))" for tt
    using b by (intro allSess_onSession) (simp_all add: allSess_cong [of "b\<lparr>b_topics := tt\<rparr>" b] sub)
  show "subscribeOne c f b = Inl b' \<Longrightarrow> allSess P b'"
    using b by (auto simp: subscribeOne_def allSess_cong [OF violations_sessions(3)] allSess_cong [OF violations_sessions(2)]
        split: option.splits prod.splits if_splits bool.splits)
  show "subscribeOne c f b = Inr (code, due, b') \<Longrightarrow> allSess P b'"
    using b keep by (auto simp: subscribeOne_def split: option.splits prod.splits if_splits bool.splits)
qed

lemma keeps_subscribeAll:
  "allSess P b \<Longrightarrow> subscribeAll c fs b = Inl b' \<Longrightarrow> allSess P b'"
  "allSess P b \<Longrightarrow> subscribeAll c fs b = Inr (codes, b') \<Longrightarrow> allSess P b'"
proof (induction fs arbitrary: b codes)
  case (Cons f fs)
  {
    case 1
    show ?case
    proof (cases "subscribeOne c f b")
      case (Inl b1)
      with 1 keeps_subscribeOne(1) [OF 1(1) Inl] show ?thesis by simp
    next
      case (Inr r)
      obtain code due b1 where r: "r = (code, due, b1)" by (cases r)
      have b1: "allSess P b1" using keeps_subscribeOne(2) [OF 1(1)] Inr r by blast
      with 1(2) Inr r Cons.IH(1) [OF b1] show ?thesis by (auto split: sum.splits)
    qed
  next
    case 2
    then obtain code due b1 codes' where one: "subscribeOne c f b = Inr (code, due, b1)"
      and rest: "subscribeAll c fs b1 = Inr (codes', b')" by (auto split: sum.splits)
    show ?case using Cons.IH(2) [OF keeps_subscribeOne(2) [OF 2(1) one] rest] .
  }
qed simp_all

lemma keeps_replayRetained: "allSess P b \<Longrightarrow> allSess P (replayRetained now c fd b)"
  by (cases fd) (auto simp: replayRetained_def keeps_deliverRetainedMessages split: option.split)

lemma keeps_handleSubscribe:
  assumes "allSess P b"
  shows "allSess P (handleSubscribe now c s pkt b)"
proof (cases "subscribeAll c (sb_Topics pkt) b")
  case (Inl b')
  thus ?thesis using assms keeps_subscribeAll(1) [OF assms Inl]
    by (simp add: handleSubscribe_def Let_def allSess_cong [OF writePacket_sessions])
next
  case (Inr r)
  obtain codes b' where r: "r = (codes, b')" by (cases r)
  have "allSess P b'" using keeps_subscribeAll(2) [OF assms] Inr r by blast
  hence "allSess P (fold (replayRetained now c) (zip (sb_Topics pkt) codes) (writePacket c p b'))" for p
    by (intro allSess_fold) (simp_all add: allSess_cong [OF writePacket_sessions] keeps_replayRetained)
  thus ?thesis using Inr r assms
    by (simp add: handleSubscribe_def Let_def allSess_cong [OF writePacket_sessions])
qed

lemma keeps_unsubscribeOne:
  "allSess P b \<Longrightarrow> unsubscribeOne c t b = Inl b' \<Longrightarrow> allSess P b'"
  "allSess P b \<Longrightarrow> unsubscribeOne c t b = Inr b' \<Longrightarrow> allSess P b'"
proof -
  assume b: "allSess P b"
  have keep: "allSess P (onSession c (RemoveSubscription t) (b\<lparr>b_topics := tt\<rparr>))" for tt
    using b by (intro allSess_onSession) (simp_all add: allSess_cong [of "b\<lparr>b_topics := tt\<rparr>" b] unsub)
  show "unsubscribeOne c t b = Inl b' \<Longrightarrow> allSess P b'"
    using b by (auto simp: unsubscribeOne_def allSess_cong [OF violations_sessions(3)] split: option.splits prod.splits if_splits)
  show "unsubscribeOne c t b = Inr b' \<Longrightarrow> allSess P b'"
    using b keep by (auto simp: unsubscribeOne_def split: option.splits prod.splits if_splits)
qed

lemma keeps_unsubscribeAll:
  "allSess P b \<Longrightarrow> unsubscribeAll c ts b = Inl b' \<Longrightarrow> allSess P b'"
  "allSess P b \<Longrightarrow> unsubscribeAll c ts b = Inr b' \<Longrightarrow> allSess P b'"
proof (induction ts arbitrary: b)
  case (Cons t ts)
  {
    case 1
    show ?case
    proof (cases "unsubscribeOne c t b")
      case (Inl b1)
      with 1 keeps_unsubscribeOne(1) [OF 1(1) Inl] show ?thesis by simp
    next
      case (Inr b1)
      with 1(2) show ?thesis using Cons.IH(1) [OF keeps_unsubscribeOne(2) [OF 1(1) Inr]] by simp
    qed
  next
    case 2
    then obtain b1 where one: "unsubscribeOne c t b = Inr b1" and rest: "unsubscribeAll c ts b1 = Inr b'"
      by (auto split: sum.splits)
    show ?case using Cons.IH(2) [OF keeps_unsubscribeOne(2) [OF 2(1) one] rest] .
  }
qed simp_all

lemma keeps_handleUnsubscribe:
  assumes "allSess P b"
  shows "allSess P (handleUnsubscribe c s pkt b)"
proof (cases "unsubscribeAll c (us_Topics pkt) b")
  case (Inl b')
  thus ?thesis using keeps_unsubscribeAll(1) [OF assms Inl] by (simp add: handleUnsubscribe_def)
next
  case (Inr b')
  thus ?thesis using keeps_unsubscribeAll(2) [OF assms Inr]
    by (simp add: handleUnsubscribe_def allSess_cong [OF writePacket_sessions])
qed

lemma keeps_release: "allSess P b \<Longrightarrow> allSess P (onSession c (releaseDelivery i) b)"
  by (erule allSess_onSession) (rule release)

lemma keeps_acks:
  "allSess P b \<Longrightarrow> allSess P (handlePubAck now c i b)"
  "allSess P b \<Longrightarrow> allSess P (dropRejectedDelivery now c i b)"
  "allSess P b \<Longrightarrow> allSess P (handlePubComp now c i b)"
  unfolding handlePubAck_def dropRejectedDelivery_def handlePubComp_def
  by (intro keeps_flush keeps_release; simp add: allSess_def)+

lemma keeps_runCallback: "allSess P b \<Longrightarrow> allSess P (runCallback now a b)"
  by (cases a) (simp_all add: keeps_release allSess_cong [OF writePacket_sessions] allSess_cong [OF republish_sessions])

lemma keeps_handlePubRec: "allSess P b \<Longrightarrow> allSess P (handlePubRec now c i r b)"
proof -
  assume b: "allSess P b"
  hence "allSess P (onSession c (\<lambda>s. snd (MarkInflightPubRel i s)) b)" by (rule allSess_onSession) (rule mark)
  hence "allSess P ((onSession c (\<lambda>s. snd (MarkInflightPubRel i s)) b)\<lparr>b_qos := q\<rparr>)" for q
    by (simp add: allSess_def)
  hence "allSess P (fold (runCallback now) acts ((onSession c (\<lambda>s. snd (MarkInflightPubRel i s)) b)\<lparr>b_qos := q\<rparr>))" for acts q
    by (intro allSess_fold) (simp_all add: keeps_runCallback)
  with b show ?thesis by (simp add: handlePubRec_def keeps_acks Let_def split: prod.split)
qed

lemma keeps_retryTick: "allSess P b \<Longrightarrow> allSess P (retryTick now b)"
  by (auto simp: retryTick_def intro!: allSess_fold keeps_runCallback split: prod.split) (simp add: allSess_def)

lemma keeps_handlePubRel: "allSess P b \<Longrightarrow> allSess P (handlePubRel now c i b)"
proof (cases "map_of (b_sessions b) c")
  case (Some s)
  assume b: "allSess P b"
  have "P c (snd (TakeInboundQoS2 i s))" using b Some by (intro unstage allSess_lookup)
  hence "allSess P (b\<lparr>b_sessions := mset_key c (snd (TakeInboundQoS2 i s)) (b_sessions b)\<rparr>)"
    by (rule allSess_put [OF b]) simp
  with b Some show ?thesis
    by (cases "TakeInboundQoS2 i s") (auto simp: handlePubRel_def Let_def GetSession_def allSess_cong [OF writePacket_sessions]
        intro!: keeps_routePublish split: option.split)
qed (simp add: handlePubRel_def Let_def GetSession_def allSess_cong [OF writePacket_sessions])

end

end
