(* ===== verification/Auth.thy ===== *)
theory Auth
  imports TopicTreeTheorems
begin

text \<open>
  Authentication and authorisation, \<^verbatim>\<open>src/broker/auth.go\<close>, \<^verbatim>\<open>src/broker/auth_chain.go\<close>,
  \<^verbatim>\<open>src/broker/auth_file.go\<close> and \<^verbatim>\<open>src/broker/auth_noop.go\<close>. The bcrypt package and the parsers of
  the credentials file are not part of the sources: comparing and hashing a password are
  arguments, and so is the parsed file. Lemmas: what an access list grants is contained in its
  patterns, and a chain of authenticators fails closed.
\<close>

section \<open>Static credentials\<close>

datatype authErr = ErrAuthFailed | ErrUserNotFound | ErrAuthUnavailable | ErrUnauthorized

text \<open>An authenticator answers nil, here none, or an error.\<close>

type_synonym authenticator = "gostring \<Rightarrow> gostring \<Rightarrow> gostring \<Rightarrow> authErr option"

record ACL =
  acl_PublishTopics :: "gostring list"
  acl_SubscribeTopics :: "gostring list"

record StaticAuth =
  sta_credentials :: "(gostring, gostring) gomap"
  sta_acls :: "(gostring, ACL) gomap"
  sta_bcryptCost :: int

definition NewStaticAuth :: "int \<Rightarrow> StaticAuth" where
  "NewStaticAuth defaultCost = \<lparr> sta_credentials = [], sta_acls = [], sta_bcryptCost = defaultCost \<rparr>"

definition SetBcryptCost :: "int \<Rightarrow> StaticAuth \<Rightarrow> StaticAuth" where
  "SetBcryptCost cost s = s\<lparr>sta_bcryptCost := cost\<rparr>"

definition AddCredentials :: "gostring \<Rightarrow> gostring \<Rightarrow> StaticAuth \<Rightarrow> StaticAuth" where
  "AddCredentials username password s = s\<lparr>sta_credentials := mset_key username password (sta_credentials s)\<rparr>"

text \<open>The hash of a password at a cost, none for an error; the result tells whether it was stored.\<close>

definition SetHashedPassword ::
  "(gostring \<Rightarrow> int \<Rightarrow> gostring option) \<Rightarrow> gostring \<Rightarrow> gostring \<Rightarrow> StaticAuth \<Rightarrow> bool \<times> StaticAuth" where
  "SetHashedPassword generate username password s = (case generate password (sta_bcryptCost s) of
     None \<Rightarrow> (False, s)
   | Some hash \<Rightarrow> (True, s\<lparr>sta_credentials := mset_key username hash (sta_credentials s)\<rparr>))"

definition HasPrefix :: "gostring \<Rightarrow> gostring \<Rightarrow> bool" where
  "HasPrefix s p \<longleftrightarrow> take (length p) s = p"

definition IsBcryptHash :: "gostring \<Rightarrow> bool" where
  "IsBcryptHash stored \<longleftrightarrow> HasPrefix stored [0x24, 0x32, 0x61, 0x24] \<or> HasPrefix stored [0x24, 0x32, 0x62, 0x24] \<or>
     HasPrefix stored [0x24, 0x32, 0x79, 0x24]"

definition HashPassword :: "(gostring \<Rightarrow> int \<Rightarrow> gostring option) \<Rightarrow> int \<Rightarrow> gostring \<Rightarrow> gostring option" where
  "HashPassword generate defaultCost password = generate password defaultCost"

definition AddACL :: "gostring \<Rightarrow> ACL \<Rightarrow> StaticAuth \<Rightarrow> StaticAuth" where
  "AddACL username acl s = s\<lparr>sta_acls := mset_key username acl (sta_acls s)\<rparr>"

text \<open>The password check shared by both stores; \<open>compare hash password\<close> is bcrypt's comparison.\<close>

definition passwordOk :: "(gostring \<Rightarrow> gostring \<Rightarrow> bool) \<Rightarrow> gostring \<Rightarrow> gostring \<Rightarrow> bool" where
  "passwordOk compare expected password = (if IsBcryptHash expected then compare expected password else password = expected)"

definition StaticAuthenticate :: "(gostring \<Rightarrow> gostring \<Rightarrow> bool) \<Rightarrow> StaticAuth \<Rightarrow> authenticator" where
  "StaticAuthenticate compare s clientID username password = (case map_of (sta_credentials s) username of
     None \<Rightarrow> Some ErrUserNotFound
   | Some expected \<Rightarrow> if passwordOk compare expected password then None else Some ErrAuthFailed)"

section \<open>Access lists\<close>

text \<open>The loop of \<open>aclCovers\<close> at index \<open>i\<close>, the final length comparison included.\<close>

function aclLoop :: "level list \<Rightarrow> level list \<Rightarrow> nat \<Rightarrow> bool" where
  "aclLoop ap rp i =
     (if i < length ap then
        (if ap ! i = [hashc] then True
         else if length rp \<le> i then False
         else if rp ! i = [hashc] then False
         else if rp ! i = [plusc] then (if ap ! i \<noteq> [plusc] then False else aclLoop ap rp (i + 1))
         else if ap ! i \<noteq> [plusc] \<and> ap ! i \<noteq> rp ! i then False
         else aclLoop ap rp (i + 1))
      else length ap = length rp)"
  by pat_completeness auto
termination by (relation "measure (\<lambda>(ap, rp, i). length ap - i)") auto

declare aclLoop.simps [simp del]

definition aclCovers :: "gostring \<Rightarrow> gostring \<Rightarrow> bool" where
  "aclCovers aclPattern requested =
     (let ap = SplitTopic aclPattern; rp = SplitTopic requested in
      if length ap = 0 then False
      else if 0 < length rp \<and> startsWithDollar (rp ! 0) \<and> (ap ! 0 = [plusc] \<or> ap ! 0 = [hashc]) then False
      else aclLoop ap rp 0)"

definition StaticCanPublish :: "StaticAuth \<Rightarrow> gostring \<Rightarrow> gostring \<Rightarrow> bool" where
  "StaticCanPublish s username topic = (case map_of (sta_acls s) username of None \<Rightarrow> False
     | Some acl \<Rightarrow> list_ex (\<lambda>pattern. aclCovers pattern topic) (acl_PublishTopics acl))"

definition StaticCanSubscribe :: "StaticAuth \<Rightarrow> gostring \<Rightarrow> gostring \<Rightarrow> bool" where
  "StaticCanSubscribe s username topic = (case map_of (sta_acls s) username of None \<Rightarrow> False
     | Some acl \<Rightarrow> list_ex (\<lambda>pattern. aclCovers pattern topic) (acl_SubscribeTopics acl))"

section \<open>The other authenticators\<close>

definition AllowAllAuthenticate :: authenticator where "AllowAllAuthenticate clientID username password = None"

definition AllowAllCanPublish :: "gostring \<Rightarrow> gostring \<Rightarrow> bool" where
  "AllowAllCanPublish username topic = (if HasPrefix topic [0x24] then False else True)"

definition AllowAllCanSubscribe :: "gostring \<Rightarrow> gostring \<Rightarrow> bool" where "AllowAllCanSubscribe username topic = True"

definition DenyAllAuthenticate :: authenticator where "DenyAllAuthenticate clientID username password = Some ErrAuthFailed"

definition DenyAllCanPublish :: "gostring \<Rightarrow> gostring \<Rightarrow> bool" where "DenyAllCanPublish username topic = False"

definition DenyAllCanSubscribe :: "gostring \<Rightarrow> gostring \<Rightarrow> bool" where "DenyAllCanSubscribe username topic = False"

definition NoopAuthenticate :: authenticator where "NoopAuthenticate clientID username password = None"

type_synonym ChainAuth = "authenticator list"

definition AddAuthenticator :: "authenticator \<Rightarrow> ChainAuth \<Rightarrow> ChainAuth" where "AddAuthenticator auth c = c @ [auth]"

fun chainLoop :: "ChainAuth \<Rightarrow> gostring \<Rightarrow> gostring \<Rightarrow> gostring \<Rightarrow> authErr option \<Rightarrow> authErr option" where
  "chainLoop [] clientID username password lastErr = lastErr"
| "chainLoop (auth # auths) clientID username password lastErr = (case auth clientID username password of
     None \<Rightarrow> None
   | Some err \<Rightarrow> if err \<noteq> ErrUserNotFound then Some err else chainLoop auths clientID username password (Some err))"

definition ChainAuthenticate :: "ChainAuth \<Rightarrow> authenticator" where
  "ChainAuthenticate c clientID username password =
     (if length c = 0 then Some ErrAuthUnavailable else chainLoop c clientID username password None)"

record UserCredential =
  uc_Username :: gostring
  uc_Password :: gostring
  uc_ClientIDs :: "gostring list"

record FileAuth =
  fa_users :: "UserCredential list"
  fa_userIndex :: "(gostring, nat) gomap"

text \<open>The index loop of \<open>LoadFile\<close> from position \<open>i\<close>: false for a repeated name, with the index so far.\<close>

fun indexUsers :: "nat \<Rightarrow> UserCredential list \<Rightarrow> (gostring, nat) gomap \<Rightarrow> bool \<times> (gostring, nat) gomap" where
  "indexUsers i [] idx = (True, idx)"
| "indexUsers i (u # us) idx = (if map_of idx (uc_Username u) \<noteq> None then (False, idx)
     else indexUsers (i + 1) us (mset_key (uc_Username u) i idx))"

text \<open>Loading a file whose parsed users are given, none for an unreadable or malformed file.\<close>

definition LoadFile :: "UserCredential list option \<Rightarrow> FileAuth \<Rightarrow> bool \<times> FileAuth" where
  "LoadFile parsed f = (case parsed of None \<Rightarrow> (False, f)
     | Some users \<Rightarrow> (case indexUsers 0 users [] of (ok, idx) \<Rightarrow> (ok, \<lparr> fa_users = users, fa_userIndex = idx \<rparr>)))"

definition FileAuthenticate :: "(gostring \<Rightarrow> gostring \<Rightarrow> bool) \<Rightarrow> FileAuth \<Rightarrow> authenticator" where
  "FileAuthenticate compare f clientID username password = (case map_of (fa_userIndex f) username of
     None \<Rightarrow> Some ErrUserNotFound
   | Some i \<Rightarrow>
       let user = fa_users f ! i in
       if \<not> passwordOk compare (uc_Password user) password then Some ErrAuthFailed
       else if 0 < length (uc_ClientIDs user) \<and> clientID \<notin> set (uc_ClientIDs user) then Some ErrUnauthorized
       else None)"

section \<open>What an access list grants\<close>

fun aclRec :: "level list \<Rightarrow> level list \<Rightarrow> bool" where
  "aclRec [] rp \<longleftrightarrow> rp = []"
| "aclRec (a # ap) rp \<longleftrightarrow> a = [hashc] \<or>
     (case rp of [] \<Rightarrow> False
      | r # rp' \<Rightarrow> r \<noteq> [hashc] \<and> (if r = [plusc] then a = [plusc] else a = [plusc] \<or> a = r) \<and> aclRec ap rp')"

lemma aclLoop_rec: "i \<le> length ap \<Longrightarrow> i \<le> length rp \<Longrightarrow> aclLoop ap rp i \<longleftrightarrow> aclRec (drop i ap) (drop i rp)"
proof (induction ap rp i rule: aclLoop.induct)
  case (1 ap rp i)
  show ?case
  proof (cases "i < length ap")
    case True
    then have ap: "drop i ap = ap ! i # drop (Suc i) ap" by (simp add: Cons_nth_drop_Suc)
    show ?thesis
    proof (cases "i < length rp")
      case rp: True
      then have "drop i rp = rp ! i # drop (Suc i) rp" by (simp add: Cons_nth_drop_Suc)
      then show ?thesis using True rp ap 1 by (auto simp: aclLoop.simps [of ap rp i])
    next
      case False
      then have "drop i rp = []" "length rp \<le> i" by simp_all
      with True ap show ?thesis unfolding aclLoop.simps [of ap rp i] by simp
    qed
  next
    case False
    with "1.prems" show ?thesis unfolding aclLoop.simps [of ap rp i] by auto
  qed
qed

lemma aclCovers_levels:
  "aclCovers acl req \<longleftrightarrow> aclRec (Split acl) (Split req) \<and>
     \<not> (isSystem (Split req) \<and> (hd (Split acl) = [plusc] \<or> hd (Split acl) = [hashc]))"
  using aclLoop_rec [of 0 "Split acl" "Split req"]
  by (cases "Split acl"; cases "Split req") (auto simp: aclCovers_def SplitTopic_eq_Split isSystem_def Let_def)

lemma aclRec_matchRec: "aclRec ap rp \<Longrightarrow> matchRec rp ts \<Longrightarrow> matchRec ap ts"
proof (induction ap rp arbitrary: ts rule: aclRec.induct)
  case (2 a ap rp)
  thus ?case by (cases rp; cases ts) (auto split: if_splits)
qed auto

text \<open>A filter that reaches a system topic past the protection names its first level.\<close>

lemma unblocked_system:
  assumes "isSystem ts" "matchRec fs ts" "\<not> sysBlocked fs ts" "fs \<noteq> []"
  shows "isSystem fs"
  using assms by (cases fs; cases ts) (auto simp: isSystem_def sysBlocked_def)

lemma aclCovers_sound:
  assumes "aclCovers acl req" "matchSysProtected req topic"
  shows "matchSysProtected acl topic"
proof -
  from assms(2) have req: "matchRec (Split req) (Split topic)" "\<not> sysBlocked (Split req) (Split topic)"
    by (simp_all add: matchSysProtected_levels)
  from assms(1) have acl: "aclRec (Split acl) (Split req)"
    "\<not> (isSystem (Split req) \<and> (hd (Split acl) = [plusc] \<or> hd (Split acl) = [hashc]))"
    by (simp_all add: aclCovers_levels)
  have "\<not> sysBlocked (Split acl) (Split topic)"
    using unblocked_system [OF _ req] acl(2) by (auto simp: sysBlocked_def)
  with aclRec_matchRec [OF acl(1) req(1)] show ?thesis by (simp add: matchSysProtected_levels)
qed

lemma aclRec_literal: "\<forall>l \<in> set ts. l \<noteq> [hashc] \<and> l \<noteq> [plusc] \<Longrightarrow> aclRec ap ts \<longleftrightarrow> matchRec ap ts"
proof (induction ap ts rule: aclRec.induct)
  case (2 a ap rp)
  thus ?case by (cases rp) auto
qed auto

lemma noWildcard_levels: "noWildcard t \<Longrightarrow> l \<in> set (Split t) \<Longrightarrow> noWildcard l"
  by (induction t arbitrary: l) (auto split: if_splits list.splits)

lemma aclCovers_topic:
  assumes "ValidatePublishTopic topic"
  shows "aclCovers acl topic \<longleftrightarrow> matchSysProtected acl topic"
proof -
  have "\<forall>l \<in> set (Split topic). l \<noteq> [hashc] \<and> l \<noteq> [plusc]"
    using assms noWildcard_levels [of topic] by (fastforce simp: ValidatePublishTopic_def split: if_splits)
  thus ?thesis by (auto simp: aclCovers_levels matchSysProtected_levels sysBlocked_def aclRec_literal)
qed

text \<open>
  C9. An access list is never exceeded. A subscription it admits reaches no topic outside the
  list: whatever topic the requested filter matches, wildcards and the protection of system topics
  included, one of the user's patterns matches too. A PUBLISH is admitted exactly for the legal
  topics one of the patterns matches, and a user without a list gets nothing.
\<close>

theorem acl_never_exceeded:
  "(StaticCanSubscribe s u req \<and> matchSysProtected req topic \<longrightarrow>
      (\<exists>acl. map_of (sta_acls s) u = Some acl \<and> (\<exists>p \<in> set (acl_SubscribeTopics acl). matchSysProtected p topic))) \<and>
   (ValidatePublishTopic topic \<longrightarrow> (StaticCanPublish s u topic \<longleftrightarrow>
      (\<exists>acl. map_of (sta_acls s) u = Some acl \<and> (\<exists>p \<in> set (acl_PublishTopics acl). matchSysProtected p topic))))"
  by (auto simp: StaticCanSubscribe_def StaticCanPublish_def list_ex_iff aclCovers_topic split: option.splits
      dest: aclCovers_sound)

definition exAuth :: StaticAuth where
  "exAuth = AddACL [117] \<lparr> acl_PublishTopics = [[97, 47, 43]], acl_SubscribeTopics = [[97, 47, 35]] \<rparr> (NewStaticAuth 10)"

theorem acl_never_exceeded_witness:
  "StaticCanSubscribe exAuth [117] [97, 47, 43] \<and> matchSysProtected [97, 47, 43] [97, 47, 98] \<and>
   (\<exists>acl. map_of (sta_acls exAuth) [117] = Some acl \<and> (\<exists>p \<in> set (acl_SubscribeTopics acl). matchSysProtected p [97, 47, 98])) \<and>
   StaticCanPublish exAuth [117] [97, 47, 98]"
proof -
  have "StaticCanSubscribe exAuth [117] [97, 47, 43]" "matchSysProtected [97, 47, 43] [97, 47, 98]"
    "ValidatePublishTopic [97, 47, 98]" "StaticCanPublish exAuth [117] [97, 47, 98]" by code_simp+
  with acl_never_exceeded [of exAuth "[117]" "[97, 47, 43]" "[97, 47, 98]"] show ?thesis by blast
qed

section \<open>Chains\<close>

lemma chainLoop_closed:
  "chainLoop c i u p e = None \<longleftrightarrow>
     (\<exists>k < length c. (c ! k) i u p = None \<and> (\<forall>j < k. (c ! j) i u p = Some ErrUserNotFound)) \<or> (c = [] \<and> e = None)"
proof (induction c arbitrary: e)
  case (Cons a c)
  thus ?case by (auto simp: Ex_less_Suc2 All_less_Suc2 split: option.split)
qed simp

text \<open>
  A chain of authenticators fails closed: it accepts exactly when some authenticator accepts
  and every one before it answered that it does not know the user. A rejection by one that knows
  the user is never overruled by a later one.
\<close>

theorem chain_fails_closed:
  "ChainAuthenticate c i u p = None \<longleftrightarrow>
     (\<exists>k < length c. (c ! k) i u p = None \<and> (\<forall>j < k. (c ! j) i u p = Some ErrUserNotFound))"
  by (cases c) (simp_all add: ChainAuthenticate_def chainLoop_closed del: chainLoop.simps(2))

end
