(* ===== verification/Maintenance.thy ===== *)
theory Maintenance
  imports Lifecycle Auth
begin

text \<open>
  The broker around its connections: construction and default options (\<^verbatim>\<open>src/broker/broker.go\<close>,
  \<^verbatim>\<open>src/broker/options.go\<close>), the periodic loops and shutdown (\<^verbatim>\<open>src/broker/lifecycle.go\<close>) and the
  management calls (\<^verbatim>\<open>src/broker/admin.go\<close>). One turn of a loop is one step; waiting, tickers and
  plugins are left out. The formatted values of the status topics are arguments.
\<close>

section \<open>Construction\<close>

definition AllowAllAuth :: Authorizer where
  "AllowAllAuth = \<lparr> az_CanPublish = AllowAllCanPublish, az_CanSubscribe = AllowAllCanSubscribe \<rparr>"

definition defaultBrokerOptions :: brokerOptions where
  "defaultBrokerOptions = \<lparr> bo_authorizer = Some AllowAllAuth,
     bo_authenticator = Some (\<lambda>clientID username password. DenyAllAuthenticate clientID username password = None),
     bo_enhancedAuth = [], bo_maxInflight = 100, bo_maxConnections = 10000, bo_maxConnRate = 0, bo_maxPublishRate = 0,
     bo_maxPacketSize = 256 * 1024, bo_sessionExpiry = seconds (24 * 3600), bo_keepAlive = 0, bo_maxClientIDLength = 128,
     bo_maxTopicFiltersPerSub = 100, bo_maxRetainedTopics = 10000, bo_maxOfflineQueue = 1000,
     bo_maxWillDelay = seconds (24 * 3600), bo_retainedExpiry = 0 \<rparr>"

text \<open>The options are those after every option function ran; the stores and the rate window are options too.\<close>

definition New ::
  "brokerOptions \<Rightarrow> (qosOptions \<Rightarrow> qosOptions) list \<Rightarrow> int \<Rightarrow> sessionStore option \<Rightarrow> messageStore option \<Rightarrow>
     retainedStore option \<Rightarrow> Broker" where
  "New opts qosOpts connectionRateWindow ss ms rs =
     \<lparr> b_topics = NewTopicTree, b_qos = SetCallbacks (SetGiveUpCallback (NewQoSEngine qosOpts)),
       b_will = SetPublishCallback NewWillHandler, b_sessions = [], b_sessionStore = ss, b_messageStore = ms,
       b_retainedStore = rs, b_sessionErr = False, b_messageErr = False, b_retainedErr = False, b_connections = [],
       b_pendingConns = 0, b_offlineCount = [], b_msgSeq = 0, b_retainedCount = 0, b_retainedExpirations = [],
       b_connRate = newConnRateLimiter connectionRateWindow, b_shuttingDown = False, b_opts = opts, b_out = [] \<rparr>"

section \<open>Starting\<close>

definition restoredDeadline :: "int \<Rightarrow> Broker \<Rightarrow> RetainedMessage \<Rightarrow> int option" where
  "restoredDeadline now b m =
     (let base = (case rm_Timestamp m of None \<Rightarrow> now | Some t \<Rightarrow> t);
          deadline = (if 0 < bo_retainedExpiry (b_opts b) then Some (base + bo_retainedExpiry (b_opts b)) else None)
      in case rm_ExpiresAt m of None \<Rightarrow> deadline
         | Some t \<Rightarrow> (case deadline of None \<Rightarrow> Some t | Some d \<Rightarrow> if t < d then Some t else Some d))"

definition rebuildRetainedExpirations :: "int \<Rightarrow> Broker \<Rightarrow> Broker" where
  "rebuildRetainedExpirations now b = (case b_retainedStore b of None \<Rightarrow> b
     | Some rs \<Rightarrow> if b_retainedErr b then b
         else (let msgs = MatchRetained [hashc] rs in
           b\<lparr> b_retainedExpirations := fold (\<lambda>m exps. case restoredDeadline now b m of
                  None \<Rightarrow> exps | Some t \<Rightarrow> mset_key (rm_Topic m) t exps) msgs [],
              b_retainedCount := int (length msgs) \<rparr>))"

definition Start :: "int \<Rightarrow> Broker \<Rightarrow> Broker" where
  "Start now b = rebuildRetainedExpirations now (b\<lparr>b_shuttingDown := False\<rparr>)"

section \<open>Periodic work\<close>

text \<open>Connected clients are only refreshed, which the in-memory store ignores.\<close>

definition cleanupSession :: "int \<Rightarrow> gostring \<Rightarrow> Broker \<Rightarrow> Broker" where
  "cleanupSession now clientID b = (case b_sessionStore b of None \<Rightarrow> b
     | Some ss \<Rightarrow>
         if map_of (b_connections b) clientID \<noteq> None \<or> b_sessionErr b then b
         else (case GetStoredSession ss clientID of Inl _ \<Rightarrow> b
           | Inr d \<Rightarrow>
               if 0 < sd_ExpiryInterval d \<and> expired now (sd_ExpiryTime d)
               then (let b1 = b\<lparr>b_sessionStore := Some (DeleteSession clientID ss)\<rparr>;
                         b2 = (case b_messageStore b1 of None \<Rightarrow> b1
                           | Some ms \<Rightarrow> if b_messageErr b1 then b1
                               else b1\<lparr> b_messageStore := Some (ClearMessages clientID ms),
                                        b_offlineCount := mdel_key clientID (b_offlineCount b1) \<rparr>)
                     in unsubscribeTopics clientID (map sub_Topic (sd_Subscriptions d)) b2)
               else b))"

definition cleanupExpiredSessions :: "int \<Rightarrow> Broker \<Rightarrow> Broker" where
  "cleanupExpiredSessions now b = (case b_sessionStore b of None \<Rightarrow> b
     | Some ss \<Rightarrow> if b_sessionErr b then b else fold (cleanupSession now) (ListStoredSessions ss) b)"

text \<open>The second look at the deadline, under the lock of the topic, and the deletion.\<close>

definition cleanupRetained :: "int \<Rightarrow> gostring \<Rightarrow> Broker \<Rightarrow> Broker" where
  "cleanupRetained now topic b = (case b_retainedStore b of None \<Rightarrow> b
     | Some rs \<Rightarrow> (case map_of (b_retainedExpirations b) topic of None \<Rightarrow> b
        | Some cur \<Rightarrow>
            if \<not> cur < now \<or> b_retainedErr b then b
            else b\<lparr> b_retainedStore := Some (DeleteRetained topic rs),
                    b_retainedExpirations := mdel_key topic (b_retainedExpirations b),
                    b_retainedCount := b_retainedCount b - 1 \<rparr>))"

definition cleanupExpiredRetained :: "int \<Rightarrow> Broker \<Rightarrow> Broker" where
  "cleanupExpiredRetained now b = (case b_retainedStore b of None \<Rightarrow> b
     | Some _ \<Rightarrow> fold (cleanupRetained now) (map fst (filter (\<lambda>(topic, expiry). expiry < now) (b_retainedExpirations b))) b)"

definition publishSystem :: "int \<Rightarrow> gostring \<Rightarrow> byte list \<Rightarrow> Broker \<Rightarrow> Broker" where
  "publishSystem now topic payload b =
     fold (\<lambda>sub. deliverToClient now (sb_ClientID sub) [0x24, 0x53, 0x59, 0x53] (mkPublish 0 False False 0 topic payload None))
       (Match topic (b_topics b)) b"

section \<open>Shutdown\<close>

text \<open>The notice is dropped when the write queue is full.\<close>

definition notifyShuttingDown :: "Broker \<Rightarrow> Broker" where
  "notifyShuttingDown b = fold (\<lambda>(clientID, cs).
     if \<not> sp_ReasonCodes (cs_spec cs) \<or> cs_full cs \<or> cs_stopped cs then (\<lambda>b. b)
     else emitOut (Sent clientID (mkDisconnect 0x8B))) (b_connections b) b"

definition BeginShutdown :: "Broker \<Rightarrow> Broker" where
  "BeginShutdown b = notifyShuttingDown (b\<lparr>b_shuttingDown := True\<rparr>)"

text \<open>
  \<open>Stop\<close> in two parts, between which the read loops notice their closed sockets: up to closing the
  connections, and from the removal of those still registered.
\<close>

definition stopConnections :: "Broker \<Rightarrow> Broker" where
  "stopConnections b = (let b1 = BeginShutdown b in fold (\<lambda>(_, cs). emitOut (Closed (cs_conn cs))) (b_connections b1) b1)"

definition stopRemaining :: "Broker \<Rightarrow> Broker" where
  "stopRemaining b = b\<lparr>b_connections := [], b_will := WillHandler.Stop (b_will b)\<rparr>"

definition totalInflight :: "Broker \<Rightarrow> nat" where
  "totalInflight b = sum_list (map (\<lambda>clientID. InflightCount clientID (b_qos b)) (ListSessions (b_sessions b)))"

section \<open>Management\<close>

record ClientInfo =
  ci_ClientID :: gostring
  ci_Username :: gostring
  ci_ProtocolVersion :: byte
  ci_CleanStart :: bool
  ci_KeepAlive :: u16
  ci_ConnectedAt :: "int option"
  ci_LastActivity :: "int option"
  ci_Online :: bool
  ci_ExpiryInterval :: int
  ci_Subscriptions :: "(gostring, byte) gomap"
  ci_Inflight :: nat

definition clientInfo :: "Session \<Rightarrow> ClientInfo" where
  "clientInfo sess = \<lparr> ci_ClientID = s_ClientID sess, ci_Username = s_Username sess,
     ci_ProtocolVersion = s_ProtocolVer sess, ci_CleanStart = s_IsClean sess, ci_KeepAlive = s_KeepAlive sess,
     ci_ConnectedAt = s_ConnectedAt sess, ci_LastActivity = s_LastActivity sess, ci_Online = False,
     ci_ExpiryInterval = uint (s_ExpiryInterval sess), ci_Subscriptions = s_Subscriptions sess,
     ci_Inflight = length (s_Inflight sess) + length (s_inboundQoS2 sess) \<rparr>"

definition Client :: "Broker \<Rightarrow> gostring \<Rightarrow> ClientInfo option" where
  "Client b clientID = map_option (\<lambda>sess. (clientInfo sess)\<lparr>ci_Online := (map_of (b_connections b) clientID \<noteq> None)\<rparr>)
     (GetSession clientID (b_sessions b))"

definition Clients :: "Broker \<Rightarrow> ClientInfo list" where
  "Clients b = List.map_filter (Client b) (ListSessions (b_sessions b))"

definition DisconnectClient :: "gostring \<Rightarrow> Broker \<Rightarrow> bool \<times> Broker" where
  "DisconnectClient clientID b = (case map_of (b_connections b) clientID of None \<Rightarrow> (False, b)
     | Some cs \<Rightarrow> (True, emitOut (Closed (cs_conn cs)) (b\<lparr>b_will := RemoveWill clientID (b_will b)\<rparr>)))"

definition DisconnectAllClients :: "Broker \<Rightarrow> nat \<times> Broker" where
  "DisconnectAllClients b = fold (\<lambda>clientID (n, b). case DisconnectClient clientID b of
     (ok, b') \<Rightarrow> (if ok then n + 1 else n, b')) (map fst (b_connections b)) (0, b)"

end
