(* ===== verification/BrokerFrame.thy ===== *)
theory BrokerFrame
  imports Maintenance
begin

text \<open>
  Invariants of the broker's state that routing and acknowledging do not look at: the retained
  messages, the registered connections. Packet handlers change such state only by storing a
  retained message; a locale names that and gives that every handler keeps the invariant.
\<close>

locale handler_frame =
  fixes I :: "Broker \<Rightarrow> bool"
  assumes sessions [simp]: "I (b\<lparr>b_sessions := a1\<rparr>) = I b"
    and qos [simp]: "I (b\<lparr>b_qos := a2\<rparr>) = I b"
    and topics [simp]: "I (b\<lparr>b_topics := a3\<rparr>) = I b"
    and will [simp]: "I (b\<lparr>b_will := a4\<rparr>) = I b"
    and messages [simp]: "I (b\<lparr>b_messageStore := a5\<rparr>) = I b"
    and offline [simp]: "I (b\<lparr>b_offlineCount := a6\<rparr>) = I b"
    and seq [simp]: "I (b\<lparr>b_msgSeq := a7\<rparr>) = I b"
    and out [simp]: "I (b\<lparr>b_out := a8\<rparr>) = I b"
    and retained: "I b \<Longrightarrow> I (handleRetainedMessage now p b)"
begin

lemma I_emitOut [simp]: "I (emitOut x b) = I b"
  by (simp add: emitOut_def)

lemma I_writePacket [simp]: "I (writePacket c p b) = I b"
  by (simp add: writePacket_def split: option.split)

lemma I_onSession [simp]: "I (onSession c f b) = I b"
  by (simp add: onSession_def split: option.split)

lemma I_notices [simp]: "I (sendDisconnectBeforeClose c p b) = I b" "I (closeConn c b) = I b"
  by (simp_all add: sendDisconnectBeforeClose_def closeConn_def split: option.split)

lemma I_violations [simp]:
  "I (closeProtocolViolationWithReason c s r b) = I b" "I (closeProtocolViolation c s b) = I b"
  "I (rejectMalformedTopic c s b) = I b" "I (serverNotice c s r b) = I b"
  by (simp_all add: closeProtocolViolationWithReason_def closeProtocolViolation_def rejectMalformedTopic_def serverNotice_def)

lemma I_discards [simp]: "I (ackDiscardedPublish c s p r b) = I b" "I (rejectInboundOverBudget c s p b) = I b"
  by (simp_all add: ackDiscardedPublish_def rejectInboundOverBudget_def Let_def)

lemma I_fold: "(\<And>x b. I (f x b) = I b) \<Longrightarrow> I (fold f xs b) = I b"
  by (induction xs arbitrary: b) simp_all

lemma I_doDeliver [simp]: "I (doDeliver now c pkt q e so ids rd b) = I b"
  by (simp add: doDeliver_def split: option.split prod.split)

lemma I_flushLoop [simp]: "I (flushLoop n now c b) = I b"
  by (induction n arbitrary: b) (simp_all split: option.split prod.split)

lemma I_flush [simp]: "I (flushBufferedOutbound now c b) = I b"
  by (simp add: flushBufferedOutbound_def split: option.split)

lemma I_queue [simp]:
  "I (saveQueued now c t q p r e b) = I b" "I (adjustOfflineCount c d b) = I b"
  by (simp_all add: saveQueued_def nextMessageID_def adjustOfflineCount_def Let_def split: option.split)

lemma I_queueOffline [simp]: "I (queueOfflineMessage now c p e b) = I b" "I (deleteQueued c i b) = I b"
  by (simp_all add: queueOfflineMessage_def deleteQueued_def split: option.split sum.split)

lemma I_deliverQueued [simp]: "I (deliverQueued now c m b) = I b"
  by (simp add: deliverQueued_def Let_def split: option.split prod.split)

lemma I_deliverQueuedMessages [simp]: "I (deliverQueuedMessages now c b) = I b"
  by (simp add: deliverQueuedMessages_def I_fold split: option.split)

lemma I_persist [simp]: "I (persistBufferedOutbound now c s b) = I b"
  by (simp add: persistBufferedOutbound_def I_fold split: option.split)

lemma I_deliver [simp]:
  "I (deliverToClient now c src pkt b) = I b" "I (deliverToSharedClient now c src pkt q b) = I b"
  by (simp_all add: deliverToClient_def deliverToSharedClient_def deliverWithQoS_def split: option.split prod.split)

lemma I_routePublish [simp]: "I (routePublish now src pkt b) = I b"
  by (simp add: routePublish_def routeSharedPublish_def I_fold split: prod.split)

lemma I_deliverRetained [simp]: "I (deliverRetained now c m b) = I b"
  by (simp add: deliverRetained_def Let_def split: option.split prod.split)

lemma I_deliverRetainedMessages [simp]: "I (deliverRetainedMessages now c f b) = I b"
  by (simp add: deliverRetainedMessages_def I_fold split: option.split)

lemma I_publishSystem [simp]: "I (publishSystem now t p b) = I b"
  by (simp add: publishSystem_def I_fold)

lemma I_publishWill: "I b \<Longrightarrow> I (publishWill now w b)"
  by (simp add: publishWill_def Let_def retained)

lemma I_onWill: "I b \<Longrightarrow> I (onWill now f b)"
proof -
  have "I b \<Longrightarrow> I (fold (publishWill now) ws b)" for ws b by (induction ws arbitrary: b) (simp_all add: I_publishWill)
  thus "I b \<Longrightarrow> I (onWill now f b)" by (simp add: onWill_def split: prod.split)
qed

lemma I_acceptPublish: "I b \<Longrightarrow> I (acceptPublish now c s pkt b)"
  by (simp add: acceptPublish_def handlePublishQoS2_def handlePublishQoS01_def Let_def retained split: prod.split bool.split)

lemma I_handlePublish: "I b \<Longrightarrow> I (handlePublish now c s pkt b)"
  by (auto simp: handlePublish_def Let_def intro!: I_acceptPublish split: prod.split sum.split)

lemma I_subscribeOne:
  "subscribeOne c f b = Inl b' \<Longrightarrow> I b' = I b" "subscribeOne c f b = Inr (code, due, b') \<Longrightarrow> I b' = I b"
  by (auto simp: subscribeOne_def split: option.splits prod.splits if_splits bool.splits)

lemma I_subscribeAll:
  "subscribeAll c fs b = Inl b' \<Longrightarrow> I b' = I b" "subscribeAll c fs b = Inr (codes, b') \<Longrightarrow> I b' = I b"
proof (induction fs arbitrary: b codes)
  case (Cons f fs)
  { case 1
    show ?case
    proof (cases "subscribeOne c f b")
      case (Inl b1)
      with 1 I_subscribeOne(1) [OF Inl] show ?thesis by simp
    next
      case (Inr r)
      obtain code due b1 where r: "r = (code, due, b1)" by (cases r)
      with 1 Inr have "subscribeAll c fs b1 = Inl b'" by (auto split: sum.splits)
      with Cons.IH(1) [OF this] I_subscribeOne(2) [of c f b code due b1] Inr r show ?thesis by simp
    qed
  next
    case 2
    then obtain code due b1 codes' where one: "subscribeOne c f b = Inr (code, due, b1)"
      and rest: "subscribeAll c fs b1 = Inr (codes', b')" by (auto split: sum.splits)
    show ?case using Cons.IH(2) [OF rest] I_subscribeOne(2) [OF one] by simp }
qed simp_all

lemma I_handleSubscribe [simp]: "I (handleSubscribe now c s pkt b) = I b"
proof -
  have "I (replayRetained now c fd b) = I b" for fd b
    by (cases fd) (simp add: replayRetained_def split: option.split prod.split)
  hence replay: "I (fold (replayRetained now c) xs b) = I b" for xs b by (rule I_fold)
  show ?thesis
  proof (cases "subscribeAll c (sb_Topics pkt) b")
    case (Inl b')
    thus ?thesis using I_subscribeAll(1) [OF Inl] by (simp add: handleSubscribe_def Let_def)
  next
    case (Inr r)
    obtain codes b' where r: "r = (codes, b')" by (cases r)
    thus ?thesis using Inr I_subscribeAll(2) [of c "sb_Topics pkt" b codes b'] by (simp add: handleSubscribe_def Let_def replay)
  qed
qed

lemma I_unsubscribeOne: "unsubscribeOne c t b = Inl b' \<Longrightarrow> I b' = I b" "unsubscribeOne c t b = Inr b' \<Longrightarrow> I b' = I b"
  by (auto simp: unsubscribeOne_def split: option.splits prod.splits if_splits)

lemma I_unsubscribeAll: "unsubscribeAll c ts b = Inl b' \<or> unsubscribeAll c ts b = Inr b' \<Longrightarrow> I b' = I b"
proof (induction ts arbitrary: b)
  case (Cons t ts)
  show ?case
  proof (cases "unsubscribeOne c t b")
    case (Inl b1)
    with Cons.prems I_unsubscribeOne(1) [OF Inl] show ?thesis by auto
  next
    case (Inr b1)
    with Cons.prems Cons.IH [of b1] I_unsubscribeOne(2) [OF Inr] show ?thesis by auto
  qed
qed auto

lemma I_handleUnsubscribe [simp]: "I (handleUnsubscribe c s pkt b) = I b"
proof (cases "unsubscribeAll c (us_Topics pkt) b")
  case (Inl b')
  thus ?thesis using I_unsubscribeAll [of c "us_Topics pkt" b b'] by (simp add: handleUnsubscribe_def)
next
  case (Inr b')
  thus ?thesis using I_unsubscribeAll [of c "us_Topics pkt" b b'] by (simp add: handleUnsubscribe_def)
qed

lemma I_acks [simp]:
  "I (handlePubAck now c i b) = I b" "I (dropRejectedDelivery now c i b) = I b" "I (handlePubComp now c i b) = I b"
  "I (handlePubRel now c i b) = I b"
  by (simp_all add: handlePubAck_def dropRejectedDelivery_def handlePubComp_def handlePubRel_def Let_def
      split: option.split prod.split)

lemma I_runCallback [simp]: "I (runCallback now a b) = I b"
  by (cases a) (simp_all add: republish_def split: option.split)

lemma I_callbacks [simp]: "I (handlePubRec now c i r b) = I b" "I (retryTick now b) = I b"
  by (simp_all add: handlePubRec_def retryTick_def Let_def I_fold split: prod.split)

lemma I_resend [simp]: "I (resendSessionInflight now c s b) = I b"
  by (simp add: resendSessionInflight_def I_fold)

lemma I_unsubscribeTopics [simp]: "I (unsubscribeTopics c ts b) = I b" "I (unsubscribeSessionTopics s b) = I b"
  by (simp_all add: unsubscribeTopics_def unsubscribeSessionTopics_def)

end

end
