(* ===== verification/BrokerRun.thy ===== *)
theory BrokerRun
  imports BrokerInvariant BrokerFrame
begin

text \<open>
  Runs of the broker: connections, packets and read errors, retry ticks, will timers, changes of
  the write queues, periodic work, management calls and shutdown, in any order. A predicate on
  sessions that the packet handlers keep and every fresh session has holds in all runs without a
  resumed session; an invariant of the retained messages holds in all runs.
\<close>

section \<open>Events\<close>

type_synonym authContinue = "byte list option \<Rightarrow> (byte \<times> byte list option) option"

datatype brokerEvent =
    EConnect int connEnv ConnectPacket
  | ERead int gostring nat authContinue readResult
  | ERetry int
  | EWillTimer int nat
  | EWillDone nat
  | EQueueFull gostring bool
  | ESessionCleanup int
  | ERetainedCleanup int
  | ESystem int gostring "byte list"
  | EKick gostring
  | EStop
  | EStopped
  | EStart int

text \<open>The state after an event; none when the process ended.\<close>

fun brokerStep :: "brokerEvent \<Rightarrow> Broker \<Rightarrow> Broker option" where
  "brokerStep (EConnect now env pkt) b = (case HandleConnection now env pkt b of
     Refused b' \<Rightarrow> Some b' | Crashed \<Rightarrow> None | Online _ b' \<Rightarrow> Some b')"
| "brokerStep (ERead now clientID conn continue r) b = Some (snd (readStep now clientID conn continue r b))"
| "brokerStep (ERetry now) b = Some (retryTick now b)"
| "brokerStep (EWillTimer now n) b = Some (onWill now (timerFires n) b)"
| "brokerStep (EWillDone n) b = Some (b\<lparr>b_will := timerDone n (b_will b)\<rparr>)"
| "brokerStep (EQueueFull clientID full) b = Some (case map_of (b_connections b) clientID of None \<Rightarrow> b
     | Some cs \<Rightarrow> b\<lparr>b_connections := mset_key clientID (cs\<lparr>cs_full := full\<rparr>) (b_connections b)\<rparr>)"
| "brokerStep (ESessionCleanup now) b = Some (cleanupExpiredSessions now b)"
| "brokerStep (ERetainedCleanup now) b = Some (cleanupExpiredRetained now b)"
| "brokerStep (ESystem now topic payload) b = Some (publishSystem now topic payload b)"
| "brokerStep (EKick clientID) b = Some (snd (DisconnectClient clientID b))"
| "brokerStep EStop b = Some (stopConnections b)"
| "brokerStep EStopped b = Some (stopRemaining b)"
| "brokerStep (EStart now) b = Some (Start now b)"

fun brokerRun :: "brokerEvent list \<Rightarrow> Broker \<Rightarrow> Broker option" where
  "brokerRun [] b = Some b"
| "brokerRun (e # es) b = (case brokerStep e b of None \<Rightarrow> None | Some b' \<Rightarrow> brokerRun es b')"

text \<open>A connection that asks for a clean start, so that no session is resumed.\<close>

fun cleanStart :: "brokerEvent \<Rightarrow> bool" where
  "cleanStart (EConnect now env pkt) \<longleftrightarrow> cf_CleanSession (cp_Flags pkt)"
| "cleanStart _ \<longleftrightarrow> True"

section \<open>Sessions through connecting and disconnecting\<close>

lemma admission_sessions [same_sessions, simp]:
  "b_sessions (snd (reserveConnectionSlot b)) = b_sessions b" "b_sessions (releaseConnectionSlot b) = b_sessions b"
  "b_sessions (sendConnAckRaw env r b) = b_sessions b"
  by (simp_all add: reserveConnectionSlot_def releaseConnectionSlot_def sendConnAckRaw_def)

lemma admitChecks_sessions:
  "admitChecks now env pkt b = Inl b' \<Longrightarrow> b_sessions b' = b_sessions b"
  "admitChecks now env pkt b = Inr b' \<Longrightarrow> b_sessions b' = b_sessions b"
  by (auto simp: admitChecks_def Let_def split: if_splits prod.splits authOutcome.splits)

lemma discardOldSession_sessions [same_sessions, simp]: "b_sessions (discardOldSession c d b) = b_sessions b"
  by (simp add: discardOldSession_def Let_def split: option.split)

lemma registration_sessions [same_sessions, simp]:
  "b_sessions (registerConnection env pkt b) = b_sessions b"
  "b_sessions (registerConnectWill env pkt s b) = b_sessions b"
  "b_sessions (sendConnAck c r p s b) = b_sessions b"
  by (simp_all add: registerConnection_def registerConnectWill_def sendConnAck_def Let_def)

lemma allSess_delete: "allSess P b \<Longrightarrow> b_sessions b' = mdel_key c (b_sessions b) \<Longrightarrow> allSess P b'"
  by (auto simp: allSess_def)

text \<open>The fresh session of a clean start as \<open>configureSession\<close> gets it.\<close>

definition freshSession :: "int \<Rightarrow> ConnectPacket \<Rightarrow> Session" where
  "freshSession now pkt = (newSession now (cp_ClientID pkt) pkt)\<lparr>s_RequestResponseInfo :=
     (case cp_Properties pkt of None \<Rightarrow> False | Some p \<Rightarrow> RequestResponseInfo p = Some 1)\<rparr>"

lemma newSession_info [simp]: "(newSession now c pkt)\<lparr>s_RequestResponseInfo := False\<rparr> = newSession now c pkt"
  by (simp add: newSession_def zeroSession_def)

lemma CreateSession_clean:
  assumes "cf_CleanSession (cp_Flags pkt)"
  shows "map_of (snd (snd (CreateSession now c pkt r m))) = (map_of m)(c \<mapsto> newSession now c pkt)"
    "mapOk m \<Longrightarrow> mapOk (snd (snd (CreateSession now c pkt r m)))"
  using assms by (simp_all add: CreateSession_def Let_def split: option.split)

lemma discardOldSession_opts [simp]: "b_opts (discardOldSession c d b) = b_opts b"
  by (simp add: discardOldSession_def unsubscribeSessionTopics_def unsubscribeTopics_def Let_def split: option.split)

lemma establish_clean:
  assumes "cf_CleanSession (cp_Flags pkt0)" "establishSession now env pkt0 b0 = Some (r, pkt, b)"
  shows "\<not> r" "cf_CleanSession (cp_Flags pkt)"
    and "\<exists>s' a. configureSession pkt a (b_opts b0) (freshSession now pkt) = Some s' \<and>
    map_of (b_sessions b) = (map_of (b_sessions b0))(cp_ClientID pkt \<mapsto> s') \<and> (mapOk (b_sessions b0) \<longrightarrow> mapOk (b_sessions b))"
proof -
  define pkt' where "pkt' = (if length (cp_ClientID pkt0) = 0 then pkt0\<lparr>cp_ClientID := ce_generatedID env\<rparr> else pkt0)"
  define c where "c = cp_ClientID pkt'"
  define m where "m = snd (snd (CreateSession now c pkt' False (b_sessions b0)))"
  define info where "info = (case cp_Properties pkt' of None \<Rightarrow> False | Some p \<Rightarrow> RequestResponseInfo p = Some 1)"
  have clean: "cf_CleanSession (cp_Flags pkt')" using assms(1) by (simp add: pkt'_def)
  note create = CreateSession_clean [OF clean, where now = now and c = c and r = False and m = "b_sessions b0", folded m_def]
  define m2 where "m2 = (if info then mset_key c (freshSession now pkt') m else m)"
  have fresh: "freshSession now pkt' = (newSession now c pkt')\<lparr>s_RequestResponseInfo := info\<rparr>"
    by (simp add: freshSession_def c_def info_def)
  have look: "map_of m2 = (map_of (b_sessions b0))(c \<mapsto> freshSession now pkt')"
    using create(1) fresh by (cases info) (simp_all add: m2_def)
  define b5 where "b5 = b0\<lparr>b_qos := SetClientVersion c (cp_ProtocolVersion pkt') (b_qos b0), b_sessions := m2\<rparr>"
  define b6 where "b6 = discardOldSession c (storedSessionOf pkt0 b0) b5"
  have got: "GetSession c m2 = Some (freshSession now pkt')" using look by (simp add: GetSession_def)
  have est: "establishSession now env pkt0 b0 =
    (case configureSession pkt' (if length (cp_ClientID pkt0) = 0 then ce_generatedID env else []) (b_opts b0) (freshSession now pkt') of
       None \<Rightarrow> None | Some s' \<Rightarrow> Some (False, pkt', b6\<lparr>b_sessions := mset_key c s' m2\<rparr>))"
    using clean got create(1) fresh
    unfolding establishSession_def Let_def pkt'_def [symmetric] c_def [symmetric] info_def [symmetric]
    by (cases info) (simp_all add: split_beta m_def [symmetric] m2_def b6_def b5_def onSession_def cong: option.case_cong)
  show "\<not> r" "cf_CleanSession (cp_Flags pkt)" using assms(2) clean by (auto simp: est split: option.splits)
  show "\<exists>s' a. configureSession pkt a (b_opts b0) (freshSession now pkt) = Some s' \<and>
    map_of (b_sessions b) = (map_of (b_sessions b0))(cp_ClientID pkt \<mapsto> s') \<and> (mapOk (b_sessions b0) \<longrightarrow> mapOk (b_sessions b))"
    using assms(2) create(2) look by (auto simp: est c_def m2_def split: option.splits)
qed

lemma RemoveSession_map [simp]: "snd (RemoveSession c m) = mdel_key c m"
  by (simp add: RemoveSession_def split: option.split)

lemma storeOnDisconnect_sessions [same_sessions, simp]: "b_sessions (storeOnDisconnect now c b) = b_sessions b"
  by (simp add: storeOnDisconnect_def Let_def split: option.split)

lemma onSession_map:
  "map_of (b_sessions (onSession c f b)) = (map_of (b_sessions b))(c := map_option f (map_of (b_sessions b) c))"
  "mapOk (b_sessions b) \<Longrightarrow> mapOk (b_sessions (onSession c f b))"
  by (auto simp: onSession_def split: option.split)

text \<open>Disconnecting takes the session of the client out of the manager and leaves the others alone.\<close>

lemma disconnect_sessions:
  "map_of (b_sessions (disconnect now c conn b)) =
     (if map_option cs_conn (map_of (b_connections b) c) = Some conn
      then (map_of (b_sessions b))(c := None) else map_of (b_sessions b))"
  "mapOk (b_sessions b) \<Longrightarrow> mapOk (b_sessions (disconnect now c conn b))"
proof -
  have "b_sessions (disconnect now c conn b) = (if map_option cs_conn (map_of (b_connections b) c) = Some conn
    then mdel_key c (b_sessions (onSession c ResetOutboundUnacked (storeOnDisconnect now c b))) else b_sessions b)"
    by (simp add: disconnect_def Let_def split: option.split)
  thus "map_of (b_sessions (disconnect now c conn b)) =
     (if map_option cs_conn (map_of (b_connections b) c) = Some conn
      then (map_of (b_sessions b))(c := None) else map_of (b_sessions b))"
    "mapOk (b_sessions b) \<Longrightarrow> mapOk (b_sessions (disconnect now c conn b))"
    by (auto simp: onSession_map)
qed

lemma fold_sessions: "(\<And>x b. b_sessions (f x b) = b_sessions b) \<Longrightarrow> b_sessions (fold f xs b) = b_sessions b"
  by (induction xs arbitrary: b) simp_all

lemma cleanup_sessions [same_sessions, simp]:
  "b_sessions (cleanupExpiredSessions now b) = b_sessions b" "b_sessions (cleanupExpiredRetained now b) = b_sessions b"
proof -
  have "b_sessions (cleanupSession now c b) = b_sessions b" "b_sessions (cleanupRetained now t b) = b_sessions b" for c t b
    by (simp_all add: cleanupSession_def cleanupRetained_def Let_def split: option.split sum.split)
  thus "b_sessions (cleanupExpiredSessions now b) = b_sessions b" "b_sessions (cleanupExpiredRetained now b) = b_sessions b"
    by (simp_all add: cleanupExpiredSessions_def cleanupExpiredRetained_def fold_sessions split: option.split)
qed

lemma management_sessions [same_sessions, simp]:
  "b_sessions (snd (DisconnectClient c b)) = b_sessions b" "b_sessions (stopConnections b) = b_sessions b"
  "b_sessions (stopRemaining b) = b_sessions b" "b_sessions (Start now b) = b_sessions b"
  by (simp_all add: DisconnectClient_def stopConnections_def BeginShutdown_def notifyShuttingDown_def stopRemaining_def Start_def
      rebuildRetainedExpirations_def Let_def split_beta fold_sessions split: option.split)

section \<open>Invariants of runs\<close>

locale run_invariant = session_invariant +
  assumes fresh: "configureSession pkt a opts (freshSession now pkt) = Some s \<Longrightarrow> P (cp_ClientID pkt) s"
begin

lemma keeps_goOnline: "allSess P b \<Longrightarrow> allSess P (goOnline now env pkt False b)"
proof -
  assume b: "allSess P b"
  have take: "allSess P (takeOver now c b)" for c using b
    by (auto simp: takeOver_def Let_def allSess_cong [OF emitOut_sessions] intro: keeps_onWill split: option.split)
  hence "allSess P (registerConnection env pkt (takeOver now c b))" for c
    by (simp add: allSess_cong [OF registration_sessions(1)])
  thus ?thesis
    by (auto simp: goOnline_def Let_def allSess_cong [OF registration_sessions(2)] allSess_cong [OF registration_sessions(3)]
        intro!: keeps_deliverQueuedMessages keeps_onWill split: option.split)
qed

lemma keeps_HandleConnection:
  assumes b: "allSess P b" and clean: "cf_CleanSession (cp_Flags pkt)"
    and step: "brokerStep (EConnect now env pkt) b = Some b'"
  shows "allSess P b'"
proof -
  obtain ok b1 where res: "reserveConnectionSlot b = (ok, b1)" by (cases "reserveConnectionSlot b")
  have b1: "allSess P b1" using b admission_sessions(1) [of b] by (simp add: res allSess_def)
  show ?thesis
  proof (cases "ok \<and> (\<exists>b2. admitChecks now env pkt b1 = Inr b2)")
    case False
    show ?thesis
    proof (cases ok)
      case True
      with False obtain b2 where b2: "admitChecks now env pkt b1 = Inl b2" by (cases "admitChecks now env pkt b1") auto
      hence "b' = releaseConnectionSlot b2" using step res True by (simp add: HandleConnection_def)
      with b1 admitChecks_sessions(1) [OF b2] show ?thesis by (simp add: allSess_def)
    qed (use step res b1 in \<open>auto simp: HandleConnection_def allSess_def\<close>)
  next
    case True
    then obtain b2 where b2: "admitChecks now env pkt b1 = Inr b2" by blast
    with step res True obtain r pkt' b3 where est: "establishSession now env pkt b2 = Some (r, pkt', b3)"
      and b': "b' = goOnline now env pkt' r b3" by (auto simp: HandleConnection_def split: option.splits)
    obtain s a where "configureSession pkt' a (b_opts b2) (freshSession now pkt') = Some s"
      and look: "map_of (b_sessions b3) = (map_of (b_sessions b2))(cp_ClientID pkt' \<mapsto> s)"
      and ok: "mapOk (b_sessions b2) \<longrightarrow> mapOk (b_sessions b3)" using establish_clean(3) [OF clean est] by blast
    hence "P (cp_ClientID pkt') s" by (intro fresh)
    with b1 look ok admitChecks_sessions(2) [OF b2] have "allSess P b3" by (auto simp: allSess_def)
    thus ?thesis using b' establish_clean(1) [OF clean est] keeps_goOnline by simp
  qed
qed

lemma keeps_disconnect: "allSess P b \<Longrightarrow> allSess P (disconnect now c conn b)"
  by (simp add: allSess_def disconnect_sessions)

lemma keeps_endings:
  "allSess P b \<Longrightarrow> allSess P (abnormalDisconnect now c conn b)"
  "allSess P b \<Longrightarrow> allSess P (gracefulDisconnect now c conn b)"
proof -
  assume b: "allSess P b"
  hence w: "allSess P (b\<lparr>b_will := w\<rparr>)" for w by (simp add: allSess_def)
  with b show "allSess P (abnormalDisconnect now c conn b)" "allSess P (gracefulDisconnect now c conn b)"
    by (simp_all add: abnormalDisconnect_def gracefulDisconnect_def keeps_disconnect keeps_onWill)
qed

lemma keeps_handleAuth: "allSess P b \<Longrightarrow> allSess P (snd (handleAuth now c conn k p b))"
  by (auto simp: handleAuth_def Let_def allSess_cong [OF writePacket_sessions] intro!: keeps_endings split: option.split)

lemma keeps_dispatchPacket:
  assumes b: "allSess P b" and s: "P c s"
  shows "allSess P (snd (dispatchPacket now c conn k pkt s b))"
proof -
  have "P c (TrackReceived n s)" for n using s by (rule received)
  moreover have "allSess P (b\<lparr>b_sessions := mset_key c (TrackReceived n s) (b_sessions b)\<rparr>)" for n
    by (rule allSess_put [OF b received [OF s]]) simp
  moreover have "allSess P (onSession c (disconnectExpiry p (b_opts b)) b)" for p
    using b by (rule allSess_onSession) (auto simp: disconnectExpiry_def Let_def intro: expiry split: option.split)
  ultimately show ?thesis using b s
    by (cases pkt) (auto simp: dispatchPacket_def Let_def allSess_cong [OF writePacket_sessions] allSess_cong [OF violations_sessions(4)]
        intro!: keeps_handlePublish keeps_handleSubscribe keeps_handleUnsubscribe keeps_endings keeps_acks keeps_handlePubRec
          keeps_handlePubRel keeps_handleAuth)
qed

lemma keeps_readStep:
  assumes b: "allSess P b"
  shows "allSess P (snd (readStep now c conn k r b))"
proof (cases "map_of (b_sessions b) c")
  case (Some s)
  have s: "P c (UpdateActivity now s)" using allSess_lookup [OF b Some] by (rule activity)
  have "allSess P (b\<lparr>b_sessions := mset_key c (UpdateActivity now s) (b_sessions b)\<rparr>)"
    by (rule allSess_put [OF b s]) simp
  with b s Some show ?thesis
    by (cases r) (auto simp: readStep_def GetSession_def Let_def allSess_cong [OF violations_sessions(4)]
        intro!: keeps_endings keeps_dispatchPacket split: option.split)
qed (use b in \<open>simp add: readStep_def GetSession_def\<close>)

lemma keeps_brokerStep:
  assumes "allSess P b" "cleanStart e" "brokerStep e b = Some b'"
  shows "allSess P b'"
proof (cases e)
  case (EConnect now env pkt)
  thus ?thesis using assms keeps_HandleConnection [of b pkt now env b'] by simp
next
  case (EQueueFull c full)
  thus ?thesis using assms by (auto simp: allSess_def split: option.splits)
next
  case (EWillDone n)
  thus ?thesis using assms by (auto simp: allSess_def)
next
  case (ESystem now t p)
  thus ?thesis using assms by (auto simp: publishSystem_def intro: allSess_fold keeps_deliverToClient)
qed (use assms in \<open>auto intro: keeps_readStep keeps_retryTick keeps_onWill simp: allSess_cong [OF cleanup_sessions(1)]
  allSess_cong [OF cleanup_sessions(2)] allSess_cong [OF management_sessions(1)] allSess_cong [OF management_sessions(2)]
  allSess_cong [OF management_sessions(3)] allSess_cong [OF management_sessions(4)]\<close>)

lemma keeps_brokerRun:
  "allSess P b \<Longrightarrow> \<forall>e \<in> set es. cleanStart e \<Longrightarrow> brokerRun es b = Some b' \<Longrightarrow> allSess P b'"
proof (induction es arbitrary: b)
  case (Cons e es)
  then obtain b1 where "brokerStep e b = Some b1" "brokerRun es b1 = Some b'" by (auto split: option.splits)
  thus ?case using Cons keeps_brokerStep [of b e b1] by simp
qed simp

end

section \<open>Invariants of the retained messages\<close>

locale run_frame = handler_frame +
  assumes sessionStore [simp]: "I (b\<lparr>b_sessionStore := a1\<rparr>) = I b"
    and connections [simp]: "I (b\<lparr>b_connections := a2\<rparr>) = I b"
    and pending [simp]: "I (b\<lparr>b_pendingConns := a3\<rparr>) = I b"
    and connRate [simp]: "I (b\<lparr>b_connRate := a4\<rparr>) = I b"
    and shuttingDown [simp]: "I (b\<lparr>b_shuttingDown := a5\<rparr>) = I b"
    and cleanup: "I b \<Longrightarrow> I (cleanupRetained now t b)"
    and rebuild: "I b \<Longrightarrow> I (rebuildRetainedExpirations now b)"
begin

lemma I_admission [simp]:
  "I (snd (reserveConnectionSlot b)) = I b" "I (releaseConnectionSlot b) = I b" "I (sendConnAckRaw env r b) = I b"
  by (simp_all add: reserveConnectionSlot_def releaseConnectionSlot_def sendConnAckRaw_def)

lemma I_admitChecks: "admitChecks now env pkt b = Inl b' \<Longrightarrow> I b' = I b" "admitChecks now env pkt b = Inr b' \<Longrightarrow> I b' = I b"
  by (auto simp: admitChecks_def Let_def split: if_splits prod.splits authOutcome.splits)

lemma I_establish_parts [simp]: "I (snd (tryRestore now pkt b)) = I b" "I (discardOldSession c d b) = I b"
  by (simp_all add: tryRestore_def discardOldSession_def Let_def split: option.split prod.split sum.split)

lemma I_establishSession: "establishSession now env pkt b = Some (r, pkt', b') \<Longrightarrow> I b' = I b"
  using I_establish_parts(1)
  by (auto simp: establishSession_def Let_def split_beta split: if_splits option.splits)

lemma I_goOnline: "I b \<Longrightarrow> I (goOnline now env pkt r b)"
proof -
  assume "I b"
  hence "I (takeOver now c b)" for c by (auto simp: takeOver_def Let_def intro: I_onWill split: option.split)
  hence "I (registerConnection env pkt (takeOver now c b))" for c by (simp add: registerConnection_def Let_def)
  thus ?thesis by (auto simp: goOnline_def registerConnectWill_def sendConnAck_def Let_def intro: I_onWill split: option.split)
qed

lemma I_connect:
  assumes "I b" "brokerStep (EConnect now env pkt) b = Some b'"
  shows "I b'"
proof -
  obtain ok b1 where res: "reserveConnectionSlot b = (ok, b1)" by (cases "reserveConnectionSlot b")
  have b1: "I b1" using assms(1) I_admission(1) [of b] by (simp add: res)
  show ?thesis
  proof (cases "admitChecks now env pkt b1")
    case (Inl b2)
    with assms(2) res b1 I_admitChecks(1) [OF Inl] show ?thesis by (cases ok) (auto simp: HandleConnection_def)
  next
    case (Inr b2)
    have b2: "I b2" using b1 I_admitChecks(2) [OF Inr] by simp
    show ?thesis
    proof (cases ok)
      case True
      with assms(2) res Inr obtain r pkt' b3 where est: "establishSession now env pkt b2 = Some (r, pkt', b3)"
        and b': "b' = goOnline now env pkt' r b3" by (auto simp: HandleConnection_def split: option.splits)
      show ?thesis using b2 I_establishSession [OF est] I_goOnline b' by simp
    qed (use assms(2) res b1 in \<open>auto simp: HandleConnection_def\<close>)
  qed
qed

lemma I_disconnect [simp]: "I (disconnect now c conn b) = I b"
proof -
  have "I (storeOnDisconnect now c b) = I b" for b by (simp add: storeOnDisconnect_def Let_def split: option.split)
  thus ?thesis by (simp add: disconnect_def Let_def split: option.split)
qed

lemma I_endings: "I b \<Longrightarrow> I (abnormalDisconnect now c conn b)" "I b \<Longrightarrow> I (gracefulDisconnect now c conn b)"
  by (simp_all add: abnormalDisconnect_def gracefulDisconnect_def I_onWill)

lemma I_dispatchPacket: "I b \<Longrightarrow> I (snd (dispatchPacket now c conn k pkt s b))"
  by (cases pkt) (auto simp: dispatchPacket_def handleAuth_def Let_def intro!: I_handlePublish I_endings split: option.split)

lemma I_readStep: "I b \<Longrightarrow> I (snd (readStep now c conn k r b))"
  by (cases r) (auto simp: readStep_def Let_def intro!: I_endings I_dispatchPacket split: option.split)

lemma I_folded: "I b \<Longrightarrow> (\<And>x b. I b \<Longrightarrow> I (f x b)) \<Longrightarrow> I (fold f xs b)"
  by (induction xs arbitrary: b) simp_all

lemma I_cleanups: "I (cleanupExpiredSessions now b) = I b" "I b \<Longrightarrow> I (cleanupExpiredRetained now b)"
proof -
  have "I (cleanupSession now c b) = I b" for c b
    by (simp add: cleanupSession_def Let_def split: option.split sum.split)
  thus "I (cleanupExpiredSessions now b) = I b" by (simp add: cleanupExpiredSessions_def I_fold split: option.split)
  show "I b \<Longrightarrow> I (cleanupExpiredRetained now b)"
    by (auto simp: cleanupExpiredRetained_def intro: I_folded cleanup split: option.split)
qed

lemma I_stop [simp]: "I (stopConnections b) = I b"
  by (simp add: stopConnections_def BeginShutdown_def notifyShuttingDown_def Let_def split_beta I_fold)

lemma I_brokerStep:
  assumes "I b" "brokerStep e b = Some b'"
  shows "I b'"
proof (cases e)
  case (EConnect now env pkt)
  with assms show ?thesis using I_connect by blast
qed (use assms in \<open>auto simp: I_cleanups(1) DisconnectClient_def stopRemaining_def Start_def
  intro: I_readStep I_onWill I_cleanups(2) rebuild split: option.splits\<close>)

lemma I_brokerRun: "I b \<Longrightarrow> brokerRun es b = Some b' \<Longrightarrow> I b'"
proof (induction es arbitrary: b)
  case (Cons e es)
  then obtain b1 where "brokerStep e b = Some b1" "brokerRun es b1 = Some b'" by (auto split: option.splits)
  thus ?case using Cons I_brokerStep [of b e b1] by simp
qed simp

end

end
