(* ===== verification/BrokerExamples.thy ===== *)
theory BrokerExamples
  imports BrokerRun
begin

text \<open>A small broker and the packets of two clients, on which the theorems about runs are evaluated.\<close>

definition exOptions :: brokerOptions where
  "exOptions = defaultBrokerOptions\<lparr>bo_authenticator := None, bo_authorizer := None, bo_maxRetainedTopics := 1, bo_maxConnections := 2\<rparr>"

definition exBroker :: Broker where
  "exBroker = New exOptions [] (seconds 1) (Some []) (Some []) (Some NewRetainedStore)"

definition exEnv :: "nat \<Rightarrow> connEnv" where
  "exEnv n = \<lparr> ce_conn = n, ce_spec = zeroSpec, ce_flapAllow = True, ce_enhancedOk = False, ce_generatedID = [103] \<rparr>"

text \<open>A CONNECT of version 5.0 with a receive maximum.\<close>

definition exConnect :: "gostring \<Rightarrow> bool \<Rightarrow> u16 \<Rightarrow> ConnectPacket" where
  "exConnect c clean rm = \<lparr> cp_fh = mkHeader 1, cp_ProtocolName = ProtocolNameMQTT, cp_ProtocolVersion = 5,
     cp_Flags = \<lparr> cf_UsernameFlag = False, cf_PasswordFlag = False, cf_WillRetain = False, cf_WillQoS = 0, cf_WillFlag = False,
       cf_WillTopicFlag = False, cf_CleanSession = clean, cf_Reserved = False \<rparr>,
     cp_KeepAlive = 60, cp_ClientID = c, cp_WillTopic = [], cp_WillMessage = [], cp_Username = [], cp_Password = [],
     cp_Properties = Some (emptyProperties\<lparr>ReceiveMaximum := Some rm, SessionExpiryInterval := Some 100\<rparr>), cp_WillProperties = None \<rparr>"

definition exSubscribe :: "gostring \<Rightarrow> byte \<Rightarrow> SubscribePacket" where
  "exSubscribe flt q = \<lparr> sb_fh = mkHeader 8, sb_PacketID = 1, sb_Topics = [\<lparr> tf_Topic = flt, tf_QoS = q, tf_NoLocal = False,
     tf_RetainAsPublished = False, tf_RetainHandling = 0, tf_SubscriptionIdentifier = None \<rparr>], sb_Properties = None \<rparr>"

definition exRead :: "int \<Rightarrow> gostring \<Rightarrow> nat \<Rightarrow> Packet \<Rightarrow> brokerEvent" where
  "exRead now c n p = ERead now c n (\<lambda>_. None) (GotPacket p)"

text \<open>A subscriber with a window of one message and a publisher of two messages.\<close>

definition exEvents :: "brokerEvent list" where
  "exEvents = [EConnect 1 (exEnv 1) (exConnect [97] True 1), exRead 2 [97] 1 (Packet.Subscribe (exSubscribe [116] 1)),
     EConnect 3 (exEnv 2) (exConnect [98] True 10),
     exRead 4 [98] 2 (Publish (mkPublish 1 False True 7 [116] [1] None)),
     exRead 5 [98] 2 (Publish (mkPublish 1 False False 8 [116] [2] None))]"

end
