(* ===== verification/FlowControl.thy ===== *)
theory FlowControl
  imports BrokerExamples
begin

text \<open>
  Outbound flow control: the counter of a session, its unacknowledged messages and the receive
  window the client asked for agree in every run, and an acknowledgement drains the buffer of
  held-back messages as far as the window allows.
\<close>

section \<open>The window of a session\<close>

definition flowOk :: "gostring \<Rightarrow> Session \<Rightarrow> bool" where
  "flowOk c s \<longleftrightarrow> sessionOk s \<and> s_outboundUnacked s = int (length (s_Inflight s)) \<and>
     s_outboundUnacked s \<le> uint (s_OutboundWindow s)"

lemma flowOk_same:
  assumes "flowOk c s" "sessionOk s'" "s_outboundUnacked s' = s_outboundUnacked s"
    "length (s_Inflight s') = length (s_Inflight s)" "s_OutboundWindow s' = s_OutboundWindow s"
  shows "flowOk c s'"
  using assms by (simp add: flowOk_def)

lemma sessionOk_frame [simp]:
  "sessionOk (s\<lparr>s_publishRate := a\<rparr>) = sessionOk s" "sessionOk (s\<lparr>s_ExpiryInterval := b\<rparr>) = sessionOk s"
  "sessionOk (s\<lparr>s_AssignedClientID := c\<rparr>) = sessionOk s" "sessionOk (s\<lparr>s_ReceiveMax := d\<rparr>) = sessionOk s"
  "sessionOk (s\<lparr>s_OutboundWindow := e\<rparr>) = sessionOk s" "sessionOk (s\<lparr>s_TopicAliasMax := f\<rparr>) = sessionOk s"
  "sessionOk (s\<lparr>s_ClientTopicAliasMax := g\<rparr>) = sessionOk s" "sessionOk (s\<lparr>s_ServerKeepAlive := h\<rparr>) = sessionOk s"
  "sessionOk (s\<lparr>s_KeepAlive := i\<rparr>) = sessionOk s" "sessionOk (s\<lparr>s_RequestResponseInfo := j\<rparr>) = sessionOk s"
  by (simp_all add: sessionOk_def subsOk_def)

lemma configureSession_keeps:
  assumes "configureSession pkt a opts s = Some s'"
  shows "sessionOk s' = sessionOk s" "s_Inflight s' = s_Inflight s" "s_outboundUnacked s' = s_outboundUnacked s"
    "s_OutboundWindow s' = min (clientReceiveMax pkt) (serverReceiveMax opts)"
proof -
  define al where "al x = (case cp_Properties pkt of None \<Rightarrow> x
    | Some p \<Rightarrow> (case TopicAliasMaximum p of None \<Rightarrow> x | Some v \<Rightarrow> x\<lparr>s_ClientTopicAliasMax := v\<rparr>))" for x :: Session
  have al_simps: "sessionOk (al x) = sessionOk x" "s_Inflight (al x) = s_Inflight x"
    "s_outboundUnacked (al x) = s_outboundUnacked x" "s_OutboundWindow (al x) = s_OutboundWindow x" for x
    by (simp_all add: al_def split: option.split)
  define s1 where "s1 = (if a \<noteq> [] then s\<lparr>s_AssignedClientID := a\<rparr> else s)"
  define r where "r = (if 0 < bo_maxPublishRate opts
    then map_option (\<lambda>t. s1\<lparr>s_publishRate := Some (SetMaxRate (bo_maxPublishRate opts) t)\<rparr>) (s_publishRate s1) else Some s1)"
  note conf = assms [unfolded configureSession_def Let_def, folded s1_def, folded r_def, folded al_def]
  then obtain s2 where s2: "r = Some s2" by (cases r) auto
  hence "sessionOk s2 = sessionOk s" "s_Inflight s2 = s_Inflight s" "s_outboundUnacked s2 = s_outboundUnacked s"
    by (auto simp: r_def s1_def split: if_splits)
  with conf s2 show "sessionOk s' = sessionOk s" "s_Inflight s' = s_Inflight s" "s_outboundUnacked s' = s_outboundUnacked s"
    "s_OutboundWindow s' = min (clientReceiveMax pkt) (serverReceiveMax opts)"
    by (auto simp: al_simps split: if_splits)
qed

lemma NextPacketID_free:
  assumes "sessionOk s" "length (s_Inflight s) < 65535"
  shows "map_of (s_Inflight s) (fst (NextPacketID s)) = None" "s_Inflight (snd (NextPacketID s)) = s_Inflight s"
proof -
  from assms(1) have "s_packetIDSeq s \<noteq> 0" by (simp add: sessionOk_def)
  then obtain k where "k < 65535" "map_of (s_Inflight s) ((bumpSeq ^^ k) (s_packetIDSeq s)) = None"
    using assms(2) by (rule free_id_reached)
  hence "map_of (s_Inflight s) (fst (nextIDLoop 65535 (s_Inflight s) (s_packetIDSeq s))) = None"
    by (rule nextIDLoop_finds)
  thus "map_of (s_Inflight s) (fst (NextPacketID s)) = None" "s_Inflight (snd (NextPacketID s)) = s_Inflight s"
    by (simp_all add: NextPacketID_def split_beta)
qed

lemma flowOk_deliver:
  assumes s: "flowOk c s" and room: "0 < q \<longrightarrow> CanSendOutbound s"
  shows "flowOk c (snd (deliverPacket now pkt q e so ids rd s))"
proof (cases "0 < q")
  case True
  define s1 where "s1 = snd (NextPacketID s)"
  have len: "length (s_Inflight s) < 65535"
    using s room True uint_lt2p [of "s_OutboundWindow s"] by (simp add: flowOk_def CanSendOutbound_def)
  have ok: "sessionOk s" using s by (simp add: flowOk_def)
  note free = NextPacketID_free [OF ok len]
  have s1: "sessionOk s1" "s_outboundUnacked s1 = s_outboundUnacked s" "s_OutboundWindow s1 = s_OutboundWindow s"
    using sessionOk_next [OF ok] by (simp_all add: s1_def NextPacketID_def split_beta)
  define m where "m = \<lparr> if_PacketID = fst (NextPacketID s), if_QoS = q, if_Topic = pp_Topic pkt, if_Payload = pp_Payload pkt,
    if_Retain = rd \<or> (so_RetainAsPublished so \<and> fh_Retain (pp_fh pkt)), if_SentAt = Some now, if_ExpiresAt = e,
    if_Properties = (if sp_Properties (sessSpec s) then forwardedPublishProperties now (pp_Properties pkt) ids e else None),
    if_PendingPubRel = False \<rparr>"
  have "snd (deliverPacket now pkt q e so ids rd s) =
      IncOutboundUnacked (TrackSent (length (pp_Topic pkt) + length (pp_Payload pkt)) (AddInflight m s1))"
    using True by (simp add: deliverPacket_def m_def s1_def split_beta Let_def)
  moreover have "length (s_Inflight (AddInflight m s1)) = length (s_Inflight s) + 1"
    using free by (simp add: AddInflight_def s1_def m_def length_update)
  moreover have "sessionOk (fold sessStep [SAddInflight m, STrackSent n, SIncOutbound] s1)" for n
    using s1(1) by (rule sessionOk_run)
  ultimately show ?thesis using s room True s1
    by (simp add: flowOk_def CanSendOutbound_def IncOutboundUnacked_def TrackSent_def AddInflight_def)
next
  case False
  with s show ?thesis
    by (simp add: deliverPacket_def Let_def) (simp add: flowOk_def TrackSent_def sessionOk_def)
qed

lemma flowOk_step:
  assumes "flowOk c s" "s' = sessStep op s" "s_outboundUnacked s' = s_outboundUnacked s"
    "length (s_Inflight s') = length (s_Inflight s)" "s_OutboundWindow s' = s_OutboundWindow s"
  shows "flowOk c s'"
  using assms(1) sessionOk_step [of s op] assms(2-5) by (auto simp: flowOk_def)

lemma flowOk_queue:
  "flowOk c s \<Longrightarrow> flowOk c (snd (BufferOutbound m s))"
  "flowOk c s \<Longrightarrow> flowOk c (snd (PopOutbound s))"
  by (erule flowOk_step [where op = "SBufferOutbound m"], simp_all add: BufferOutbound_def)
    (erule flowOk_step [where op = SPopOutbound], simp_all add: PopOutbound_def split: list.split)

lemma flowOk_release:
  assumes "flowOk c s"
  shows "flowOk c (releaseDelivery i s)"
proof (cases "map_of (s_Inflight s) i")
  case (Some m)
  have mapOk: "mapOk (s_Inflight s)" using assms by (auto simp: flowOk_def sessionOk_def intro: keyedBy_mapOk)
  have "sessionOk (fold sessStep [SRemoveInflight i, SDecOutbound] s)" using assms by (intro sessionOk_run) (simp add: flowOk_def)
  moreover have "length (s_Inflight s) = length (mdel_key i (s_Inflight s)) + 1"
    using length_delete [OF mapOk, of i] Some by simp
  ultimately show ?thesis using assms Some by (simp add: releaseDelivery_def RemoveInflight_def DecOutboundUnacked_def flowOk_def)
qed (use assms in \<open>simp add: releaseDelivery_def RemoveInflight_def\<close>)

lemma flowOk_mark: "flowOk c s \<Longrightarrow> flowOk c (snd (MarkInflightPubRel i s))"
  by (erule flowOk_step [where op = "SMarkInflightPubRel i"])
    (simp_all add: MarkInflightPubRel_def length_update split: option.split)

lemma flowOk_inbound:
  "flowOk c s \<Longrightarrow> flowOk c (snd (AddInboundQoS2 im n s))"
  "flowOk c s \<Longrightarrow> flowOk c (snd (TakeInboundQoS2 i s))"
  by (erule flowOk_step [where op = "SAddInboundQoS2 im n"], simp_all add: AddInboundQoS2_def)
    (erule flowOk_step [where op = "STakeInboundQoS2 i"], simp_all add: TakeInboundQoS2_def split: option.split)

lemma flowOk_subs:
  "flowOk c s \<Longrightarrow> flowOk c (AddSubscriptionFilter f s)"
  "flowOk c s \<Longrightarrow> flowOk c (RemoveSubscription t s)"
  by (erule flowOk_step [where op = "SAddSubscription f"], simp_all add: AddSubscriptionFilter_def)
    (erule flowOk_step [where op = "SRemoveSubscription t"], simp_all add: RemoveSubscription_def)

lemma flowOk_fields:
  "flowOk c s \<Longrightarrow> flowOk c (s\<lparr>s_publishRate := r\<rparr>)" "flowOk c s \<Longrightarrow> flowOk c (s\<lparr>s_ExpiryInterval := v\<rparr>)"
  "flowOk c s \<Longrightarrow> flowOk c (UpdateActivity now s)" "flowOk c s \<Longrightarrow> flowOk c (TrackReceived k s)"
  "flowOk c s \<Longrightarrow> flowOk c (snd (RegisterTopicAlias a t s))"
  by (simp_all add: flowOk_def) (simp_all add: sessionOk_def UpdateActivity_def TrackReceived_def RegisterTopicAlias_def)

lemma flowOk_fresh:
  assumes "configureSession pkt a opts (freshSession now pkt) = Some s"
  shows "flowOk (cp_ClientID pkt) s"
proof -
  have "s_Inflight (freshSession now pkt) = []" "s_outboundUnacked (freshSession now pkt) = 0"
    by (simp_all add: freshSession_def newSession_def zeroSession_def)
  moreover have "sessionOk (freshSession now pkt)" by (simp add: freshSession_def sessionOk_new)
  ultimately show ?thesis using configureSession_keeps [OF assms] by (simp add: flowOk_def)
qed

interpretation flow: run_invariant flowOk
  by unfold_locales (rule flowOk_queue flowOk_deliver flowOk_release flowOk_mark flowOk_inbound flowOk_subs flowOk_fields
      flowOk_fresh; assumption)+

text \<open>
  C2. Outbound flow control, for a broker that starts without sessions and whose clients all ask
  for a clean start. After any sequence of connections, packets, read errors, retry ticks, will
  timers and full or drained write queues, every session is well formed, its counter of
  unacknowledged deliveries is exactly the number of messages it holds as unacknowledged, and
  that number is within the receive window negotiated at connection time. So the window is never
  overrun, and no slot of it is lost.
\<close>

theorem flow_control:
  assumes "b_sessions b0 = []" "\<forall>e \<in> set es. cleanStart e" "brokerRun es b0 = Some b"
    "map_of (b_sessions b) c = Some s"
  shows "sessionOk s \<and> s_outboundUnacked s = int (length (s_Inflight s)) \<and>
    length (s_Inflight s) \<le> unat (s_OutboundWindow s)"
proof -
  have "allSess flowOk b0" using assms(1) by (simp add: allSess_def)
  hence "allSess flowOk b" using assms(2,3) by (rule flow.keeps_brokerRun)
  hence "flowOk c s" using assms(4) by (rule allSess_lookup)
  thus ?thesis unfolding flowOk_def uint_nat by (metis of_nat_le_iff)
qed

lemma exEvents_clean: "\<forall>e \<in> set exEvents. cleanStart e" "b_sessions exBroker = []"
  by (simp_all add: exEvents_def exRead_def exConnect_def exBroker_def New_def)

theorem flow_control_witness:
  "\<exists>b s. brokerRun exEvents exBroker = Some b \<and> map_of (b_sessions b) [97] = Some s \<and> OutboundQueueLen s = 1 \<and>
     s_outboundUnacked s = int (length (s_Inflight s)) \<and> length (s_Inflight s) \<le> unat (s_OutboundWindow s)"
proof -
  have "map_option (\<lambda>b. map_option OutboundQueueLen (map_of (b_sessions b) [97])) (brokerRun exEvents exBroker) = Some (Some 1)"
    by code_simp
  then obtain b s where "brokerRun exEvents exBroker = Some b" "map_of (b_sessions b) [97] = Some s" "OutboundQueueLen s = 1"
    by auto
  with flow_control [OF exEvents_clean(2,1)] show ?thesis by blast
qed

section \<open>Draining the buffer\<close>

definition queueOf :: "gostring \<Rightarrow> Broker \<Rightarrow> outboundMsg list" where
  "queueOf c b = (case map_of (b_sessions b) c of None \<Rightarrow> [] | Some s \<Rightarrow> s_outboundQueue s)"

lemma deliverPacket_queue: "s_outboundQueue (snd (deliverPacket now pkt q e so ids rd s)) = s_outboundQueue s"
  by (simp add: deliverPacket_def Let_def split_beta NextPacketID_def AddInflight_def TrackSent_def IncOutboundUnacked_def)

lemma doDeliver_queue:
  assumes "map_of (b_sessions b) c = Some s" "CanSendOutbound s"
  shows "queueOf c (doDeliver now c pkt q e so ids rd b) = queueOf c b"
    "map_of (b_sessions (doDeliver now c pkt q e so ids rd b)) c \<noteq> None"
  using assms deliverPacket_queue [of now pkt q e so ids rd s]
  by (simp_all add: doDeliver_def GetSession_def queueOf_def split_beta)

text \<open>A turn of the loop takes the first message; the loop stops for an empty buffer or a full window.\<close>

lemma flushLoop_turn:
  "flushLoop (Suc n) now c b = (case map_of (b_sessions b) c of None \<Rightarrow> b
     | Some s \<Rightarrow> (case s_outboundQueue s of [] \<Rightarrow> b
        | m # ms \<Rightarrow> if \<not> CanSendOutbound s then b
            else flushLoop n now c (doDeliver now c (om_pkt m) (om_deliverQoS m) (om_expiresAt m) (om_subOpts m) (om_subIDs m)
              False (b\<lparr>b_sessions := mset_key c (s\<lparr>s_outboundQueue := ms\<rparr>) (b_sessions b)\<rparr>))))"
  by (simp add: GetSession_def OutboundQueueLen_def PopOutbound_def split: option.split list.split)

lemma flush_turn_queue:
  assumes "map_of (b_sessions b) c = Some s" "s_outboundQueue s = m # ms" "CanSendOutbound s"
  shows "queueOf c (doDeliver now c pkt q e so ids rd (b\<lparr>b_sessions := mset_key c (s\<lparr>s_outboundQueue := ms\<rparr>) (b_sessions b)\<rparr>)) = ms"
proof -
  have "CanSendOutbound (s\<lparr>s_outboundQueue := ms\<rparr>)" using assms(3) by (simp add: CanSendOutbound_def)
  thus ?thesis using doDeliver_queue(1) [of "b\<lparr>b_sessions := mset_key c (s\<lparr>s_outboundQueue := ms\<rparr>) (b_sessions b)\<rparr>" c]
    by (simp add: queueOf_def)
qed

lemma flushLoop_more:
  "length (queueOf c b) \<le> n \<Longrightarrow> n \<le> m \<Longrightarrow> flushLoop m now c b = flushLoop n now c b"
proof (induction n arbitrary: b m)
  case 0
  thus ?case by (cases m) (auto simp: flushLoop_turn queueOf_def simp del: flushLoop.simps(2) split: option.splits list.splits)
next
  case (Suc n)
  then obtain m' where m: "m = Suc m'" "n \<le> m'" by (cases m) auto
  show ?case
  proof (cases "\<exists>s x xs. map_of (b_sessions b) c = Some s \<and> s_outboundQueue s = x # xs \<and> CanSendOutbound s")
    case True
    then obtain s x xs where s: "map_of (b_sessions b) c = Some s" "s_outboundQueue s = x # xs" "CanSendOutbound s" by blast
    let ?b = "doDeliver now c (om_pkt x) (om_deliverQoS x) (om_expiresAt x) (om_subOpts x) (om_subIDs x) False
      (b\<lparr>b_sessions := mset_key c (s\<lparr>s_outboundQueue := xs\<rparr>) (b_sessions b)\<rparr>)"
    have "length (queueOf c ?b) \<le> n" using Suc.prems(1) s by (simp add: flush_turn_queue [OF s]) (simp add: queueOf_def)
    hence "flushLoop m' now c ?b = flushLoop n now c ?b" using m(2) by (rule Suc.IH)
    with s m(1) show ?thesis by (simp add: flushLoop_turn del: flushLoop.simps(2))
  next
    case False
    with m show ?thesis by (auto simp: flushLoop_turn simp del: flushLoop.simps(2) split: option.split list.split)
  qed
qed

lemma flushLoop_done:
  assumes "length (queueOf c b) \<le> n" "map_of (b_sessions (flushLoop n now c b)) c = Some s"
  shows "(s_outboundQueue s = [] \<or> \<not> CanSendOutbound s) \<and> (\<exists>k. s_outboundQueue s = drop k (queueOf c b))"
  using assms
proof (induction n arbitrary: b)
  case 0
  thus ?case by (simp add: queueOf_def)
next
  case (Suc n)
  show ?case
  proof (cases "\<exists>s x xs. map_of (b_sessions b) c = Some s \<and> s_outboundQueue s = x # xs \<and> CanSendOutbound s")
    case True
    then obtain s0 x xs where s: "map_of (b_sessions b) c = Some s0" "s_outboundQueue s0 = x # xs" "CanSendOutbound s0" by blast
    let ?b = "doDeliver now c (om_pkt x) (om_deliverQoS x) (om_expiresAt x) (om_subOpts x) (om_subIDs x) False
      (b\<lparr>b_sessions := mset_key c (s0\<lparr>s_outboundQueue := xs\<rparr>) (b_sessions b)\<rparr>)"
    have q: "queueOf c ?b = xs" "queueOf c b = x # xs" using flush_turn_queue [OF s] s by (simp_all add: queueOf_def)
    have "map_of (b_sessions (flushLoop n now c ?b)) c = Some s"
      using Suc.prems(2) s by (simp add: flushLoop_turn del: flushLoop.simps(2))
    with Suc.IH [of ?b] Suc.prems(1) q obtain k where "s_outboundQueue s = [] \<or> \<not> CanSendOutbound s" "s_outboundQueue s = drop k xs"
      by auto
    thus ?thesis using q(2) by (auto intro: exI [of _ "Suc k"])
  next
    case False
    with Suc.prems(2) show ?thesis
      by (auto simp: flushLoop_turn queueOf_def simp del: flushLoop.simps(2) split: option.splits list.splits if_splits intro: exI [of _ 0])
  qed
qed

text \<open>
  C15. The loop that drains the outbound buffer after an acknowledgement always ends: as many turns
  as there are buffered messages are enough, and more turns change nothing. When it ends, the
  buffer is empty or the window is full, and what is left of the buffer is its tail, in order.
\<close>

theorem flush_complete:
  assumes "map_of (b_sessions b) c = Some s0" "map_of (b_sessions (flushBufferedOutbound now c b)) c = Some s"
  shows "(\<forall>n. OutboundQueueLen s0 \<le> n \<longrightarrow> flushLoop n now c b = flushBufferedOutbound now c b) \<and>
    (s_outboundQueue s = [] \<or> \<not> CanSendOutbound s) \<and> (\<exists>k. s_outboundQueue s = drop k (s_outboundQueue s0))"
proof -
  have q: "queueOf c b = s_outboundQueue s0" using assms(1) by (simp add: queueOf_def)
  have f: "flushBufferedOutbound now c b = flushLoop (length (queueOf c b)) now c b"
    using assms(1) by (simp add: flushBufferedOutbound_def GetSession_def OutboundQueueLen_def q)
  have "flushLoop n now c b = flushBufferedOutbound now c b" if "OutboundQueueLen s0 \<le> n" for n
    unfolding f by (rule flushLoop_more [OF order_refl]) (use that in \<open>simp add: q OutboundQueueLen_def\<close>)
  with flushLoop_done [OF order_refl, of c b now s] assms(2) show ?thesis unfolding f q by blast
qed

theorem flush_complete_witness:
  "\<exists>b s. map_of (b_sessions (flushBufferedOutbound 9 [97] b)) [97] = Some s \<and> queueOf [97] b \<noteq> [] \<and>
     (s_outboundQueue s = [] \<or> \<not> CanSendOutbound s)"
proof -
  have "map_option (\<lambda>b. let b1 = onSession [97] (releaseDelivery 1) b in
      (map_option OutboundQueueLen (map_of (b_sessions b1) [97]),
       map_option OutboundQueueLen (map_of (b_sessions (flushBufferedOutbound 9 [97] b1)) [97])))
    (brokerRun exEvents exBroker) = Some (Some 1, Some 0)" by code_simp
  then obtain b s0 s where "map_of (b_sessions b) [97] = Some s0" "OutboundQueueLen s0 = 1"
    "map_of (b_sessions (flushBufferedOutbound 9 [97] b)) [97] = Some s" by (auto simp: Let_def)
  with flush_complete [of b "[97]" s0 9 s] show ?thesis by (fastforce simp: queueOf_def OutboundQueueLen_def)
qed

end
