(* ===== verification/RetainedRuns.thy ===== *)
theory RetainedRuns
  imports BrokerExamples
begin

text \<open>
  The broker's book-keeping of retained messages: the counter behind the limit on retained topics
  and the table of deadlines agree with the store in every run.
\<close>

section \<open>The invariant\<close>

definition deadlinesOk :: "(gostring, int) gomap \<Rightarrow> (gostring, RetainedMessage) gomap \<Rightarrow> bool" where
  "deadlinesOk exps msgs \<longleftrightarrow> mapOk exps \<and> (\<forall>t d. map_of exps t = Some d \<longrightarrow> map_of msgs t \<noteq> None) \<and>
     (\<forall>t m e. map_of msgs t = Some m \<and> rm_ExpiresAt m = Some e \<longrightarrow> (\<exists>d \<le> e. map_of exps t = Some d))"

definition retainedInv :: "Broker \<Rightarrow> bool" where
  "retainedInv b \<longleftrightarrow> \<not> b_retainedErr b \<and> (case b_retainedStore b of None \<Rightarrow> True
     | Some rs \<Rightarrow> retainedOk rs \<and> b_retainedCount b = int (length (rs_messages rs)) \<and>
         deadlinesOk (b_retainedExpirations b) (rs_messages rs) \<and>
         (0 < bo_maxRetainedTopics (b_opts b) \<longrightarrow> b_retainedCount b \<le> bo_maxRetainedTopics (b_opts b)))"

lemma retainedOk_map: "retainedOk rs \<Longrightarrow> mapOk (rs_messages rs)"
  by (auto simp: retainedOk_def intro: keyedBy_mapOk)

lemma GetRetained_existed: "(case GetRetained t rs of Inl _ \<Rightarrow> False | Inr _ \<Rightarrow> True) \<longleftrightarrow> map_of (rs_messages rs) t \<noteq> None"
  by (simp add: GetRetained_def split: option.split)

lemma deadlinesOk_delete: "deadlinesOk exps msgs \<Longrightarrow> deadlinesOk (mdel_key t exps) (mdel_key t msgs)"
  by (auto simp: deadlinesOk_def simp del: map_of_eq_Some_iff)

lemma deadlinesOk_save:
  assumes "deadlinesOk exps msgs" "\<forall>e. rm_ExpiresAt m = Some e \<longrightarrow> (\<exists>d \<le> e. dl = Some d)"
  shows "deadlinesOk (case dl of None \<Rightarrow> mdel_key t exps | Some d \<Rightarrow> mset_key t d exps) (mset_key t m msgs)"
  using assms by (auto simp: deadlinesOk_def simp del: map_of_eq_Some_iff split: option.split)

lemma retainedDeadline_le: "e = Some t \<Longrightarrow> \<exists>d \<le> t. retainedDeadline now e b = Some d"
  by (simp add: retainedDeadline_def Let_def)

lemma DeleteRetained_messages: "rs_messages (DeleteRetained t rs) = mdel_key t (rs_messages rs)"
  by (simp add: DeleteRetained_def)

lemma retainedInv_intro:
  assumes "\<not> b_retainedErr b" "b_retainedStore b = Some rs" "retainedOk rs" "b_retainedCount b = int (length (rs_messages rs))"
    "deadlinesOk (b_retainedExpirations b) (rs_messages rs)"
    "0 < bo_maxRetainedTopics (b_opts b) \<longrightarrow> b_retainedCount b \<le> bo_maxRetainedTopics (b_opts b)"
  shows "retainedInv b"
  using assms(1,3-6) unfolding retainedInv_def assms(2) option.case by blast

lemma retainedInv_parts:
  assumes "retainedInv b" "b_retainedStore b = Some rs"
  shows "\<not> b_retainedErr b" "retainedOk rs" "b_retainedCount b = int (length (rs_messages rs))"
    "deadlinesOk (b_retainedExpirations b) (rs_messages rs)"
    "0 < bo_maxRetainedTopics (b_opts b) \<longrightarrow> b_retainedCount b \<le> bo_maxRetainedTopics (b_opts b)"
  using assms(1) unfolding retainedInv_def assms(2) option.case by blast+

lemma retainedInv_handle:
  assumes "retainedInv b"
  shows "retainedInv (handleRetainedMessage now p b)"
proof (cases "b_retainedStore b")
  case (Some rs)
  let ?t = "pp_Topic p" and ?msgs = "rs_messages rs"
  note inv = retainedInv_parts [OF assms Some]
  define known where "known = (map_of ?msgs ?t \<noteq> None)"
  show ?thesis
  proof (cases "pp_Payload p = []")
    case True
    have "handleRetainedMessage now p b = b\<lparr> b_retainedStore := Some (DeleteRetained ?t rs),
        b_retainedCount := (if known then b_retainedCount b - 1 else b_retainedCount b),
        b_retainedExpirations := mdel_key ?t (b_retainedExpirations b) \<rparr>"
      using True inv(1) Some by (simp add: handleRetainedMessage_def GetRetained_existed Let_def known_def)
    moreover have "length ?msgs = length (mdel_key ?t ?msgs) + (if known then 1 else 0)"
      using length_delete [OF retainedOk_map [OF inv(2)], of ?t] by (simp add: known_def)
    ultimately show ?thesis using inv(1,3,5) deadlinesOk_delete [OF inv(4), of ?t]
      by (intro retainedInv_intro [where rs = "DeleteRetained ?t rs"])
        (auto simp: retainedOk_Delete [OF inv(2)] DeleteRetained_messages split: if_splits)
  next
    case False
    define m where "m = \<lparr> rm_Topic = ?t, rm_QoS = fh_QoS (pp_fh p), rm_Payload = pp_Payload p, rm_Timestamp = Some now,
      rm_Properties = storeProperties (pp_Properties p), rm_ExpiresAt = messageExpiresAt now p \<rparr>"
    define exps where "exps = (case retainedDeadline now (messageExpiresAt now p) b of
      None \<Rightarrow> mdel_key ?t (b_retainedExpirations b) | Some d \<Rightarrow> mset_key ?t d (b_retainedExpirations b))"
    have save: "rs_messages (SaveRetained now m rs) = mset_key ?t m ?msgs"
      using False by (simp add: SaveRetained_def m_def Let_def)
    have dl: "deadlinesOk exps (mset_key ?t m ?msgs)"
      unfolding exps_def by (rule deadlinesOk_save [OF inv(4)]) (simp add: m_def retainedDeadline_le)
    have len: "length (mset_key ?t m ?msgs) = length ?msgs + (if known then 0 else 1)"
      by (simp add: length_update known_def)
    have rec: "handleRetainedMessage now p b = (if \<not> known \<and> 0 < bo_maxRetainedTopics (b_opts b) \<and>
        bo_maxRetainedTopics (b_opts b) \<le> b_retainedCount b then b
      else b\<lparr> b_retainedStore := Some (SaveRetained now m rs),
              b_retainedCount := (if known then b_retainedCount b else b_retainedCount b + 1), b_retainedExpirations := exps \<rparr>)"
      using False inv(1) Some by (simp add: handleRetainedMessage_def GetRetained_existed Let_def m_def exps_def known_def)
    show ?thesis
    proof (cases "\<not> known \<and> 0 < bo_maxRetainedTopics (b_opts b) \<and> bo_maxRetainedTopics (b_opts b) \<le> b_retainedCount b")
      case True
      thus ?thesis using assms by (simp add: rec)
    next
      case False
      show ?thesis using False inv(1,3,5) dl len unfolding rec
        by (intro retainedInv_intro [where rs = "SaveRetained now m rs"])
          (auto simp: save retainedOk_Save [OF inv(2)])
    qed
  qed
qed (use assms in \<open>simp add: handleRetainedMessage_def\<close>)

lemma retainedInv_cleanup:
  assumes "retainedInv b"
  shows "retainedInv (cleanupRetained now t b)"
proof (cases "b_retainedStore b")
  case (Some rs)
  note inv = retainedInv_parts [OF assms Some]
  show ?thesis
  proof (cases "map_of (b_retainedExpirations b) t")
    case d: (Some d)
    with inv(4) have "map_of (rs_messages rs) t \<noteq> None" unfolding deadlinesOk_def by blast
    hence "length (rs_messages rs) = Suc (length (mdel_key t (rs_messages rs)))"
      using length_delete [OF retainedOk_map [OF inv(2)], of t] by simp
    hence "retainedInv (b\<lparr> b_retainedStore := Some (DeleteRetained t rs), b_retainedExpirations := mdel_key t (b_retainedExpirations b),
        b_retainedCount := b_retainedCount b - 1 \<rparr>)"
      using inv(1,3,5) deadlinesOk_delete [OF inv(4), of t]
      by (intro retainedInv_intro [where rs = "DeleteRetained t rs"])
        (auto simp: retainedOk_Delete [OF inv(2)] DeleteRetained_messages)
    with assms Some d show ?thesis by (simp add: cleanupRetained_def)
  qed (use assms Some in \<open>simp add: cleanupRetained_def\<close>)
qed (use assms in \<open>simp add: cleanupRetained_def\<close>)

lemma MatchTopic_hash: "MatchTopic [hashc] t"
  by (simp add: MatchTopic_def matchLevels_rec)

lemma MatchRetained_all:
  assumes "retainedOk rs"
  shows "length (MatchRetained [hashc] rs) = length (rs_messages rs)"
    "map_of (rs_messages rs) t = Some m \<longleftrightarrow> m \<in> set (MatchRetained [hashc] rs) \<and> rm_Topic m = t"
proof -
  let ?M = "MatchRetained [hashc] rs"
  have keyed: "keyedBy rm_Topic (rs_messages rs)" using assms by (simp add: retainedOk_def)
  have look: "map_of (rs_messages rs) t = Some m \<longleftrightarrow> m \<in> set ?M \<and> rm_Topic m = t" for t m
    unfolding MatchRetained_set(2) [OF assms] using keyedBy_lookup [OF keyed, of t m] keyedBy_lookup [OF keyed, of _ m]
    by (auto simp: MatchTopic_hash simp del: map_of_eq_Some_iff)
  thus "map_of (rs_messages rs) t = Some m \<longleftrightarrow> m \<in> set ?M \<and> rm_Topic m = t" .
  have "dom (map_of (rs_messages rs)) = set (map rm_Topic ?M)" using look by (auto simp: dom_def simp del: map_of_eq_Some_iff)
  hence "card (set (map fst (rs_messages rs))) = card (set (map rm_Topic ?M))" by (simp add: dom_map_of_conv_image_fst)
  thus "length ?M = length (rs_messages rs)"
    using distinct_card [OF MatchRetained_set(1) [OF assms, of "[hashc]"]] distinct_card [of "map fst (rs_messages rs)"]
      retainedOk_map [OF assms] by simp
qed

text \<open>The table of deadlines rebuilt from messages of different topics.\<close>

lemma fold_deadlines:
  fixes dl :: "RetainedMessage \<Rightarrow> int option"
  defines "put \<equiv> \<lambda>m exps. case dl m of None \<Rightarrow> exps | Some t \<Rightarrow> mset_key (rm_Topic m) t exps"
  shows "mapOk exps \<Longrightarrow> mapOk (fold put ms exps)"
    and "t \<notin> rm_Topic ` set ms \<Longrightarrow> map_of (fold put ms exps) t = map_of exps t"
    and "distinct (map rm_Topic ms) \<Longrightarrow> m \<in> set ms \<Longrightarrow> dl m = Some d \<Longrightarrow> map_of (fold put ms exps) (rm_Topic m) = Some d"
proof -
  show ok: "mapOk exps \<Longrightarrow> mapOk (fold put ms exps)" for exps
    by (induction ms arbitrary: exps) (simp_all add: put_def split: option.split)
  show other: "t \<notin> rm_Topic ` set ms \<Longrightarrow> map_of (fold put ms exps) t = map_of exps t" for t ms exps
    by (induction ms arbitrary: exps) (simp_all add: put_def split: option.split)
  show "distinct (map rm_Topic ms) \<Longrightarrow> m \<in> set ms \<Longrightarrow> dl m = Some d \<Longrightarrow> map_of (fold put ms exps) (rm_Topic m) = Some d"
  proof (induction ms arbitrary: exps)
    case (Cons x ms)
    have "dl x = Some d \<Longrightarrow> map_of (put x exps) (rm_Topic x) = Some d" by (simp add: put_def)
    with Cons show ?case by (cases "m = x") (auto simp: other)
  qed simp
qed

lemma restoredDeadline_le: "rm_ExpiresAt m = Some e \<Longrightarrow> \<exists>d \<le> e. restoredDeadline now b m = Some d"
  by (simp add: restoredDeadline_def Let_def)

lemma retainedInv_rebuild:
  assumes "retainedInv b"
  shows "retainedInv (rebuildRetainedExpirations now b)"
proof (cases "b_retainedStore b")
  case (Some rs)
  note inv = retainedInv_parts [OF assms Some]
  let ?M = "MatchRetained [hashc] rs"
  define exps where "exps = fold (\<lambda>m exps. case restoredDeadline now b m of None \<Rightarrow> exps
    | Some t \<Rightarrow> mset_key (rm_Topic m) t exps) ?M []"
  note look = MatchRetained_all(2) [OF inv(2)]
  have "deadlinesOk exps (rs_messages rs)" unfolding deadlinesOk_def
  proof (intro conjI allI impI)
    show "mapOk exps" unfolding exps_def by (rule fold_deadlines(1)) simp
    show "map_of (rs_messages rs) t \<noteq> None" if "map_of exps t = Some d" for t d
    proof -
      have "t \<in> rm_Topic ` set ?M" using that fold_deadlines(2) [of t ?M "restoredDeadline now b" "[]"] by (auto simp: exps_def)
      thus ?thesis using look by blast
    qed
    show "\<exists>d \<le> e. map_of exps t = Some d" if stored: "map_of (rs_messages rs) t = Some m \<and> rm_ExpiresAt m = Some e" for t m e
    proof -
      obtain d where "d \<le> e" "restoredDeadline now b m = Some d" using stored restoredDeadline_le [of m e now b] by blast
      moreover have "m \<in> set ?M" "rm_Topic m = t" using stored look by blast+
      ultimately show ?thesis
        using fold_deadlines(3) [OF MatchRetained_set(1) [OF inv(2)]] unfolding exps_def by blast
    qed
  qed
  hence "retainedInv (b\<lparr>b_retainedExpirations := exps, b_retainedCount := int (length ?M)\<rparr>)"
    using inv by (intro retainedInv_intro [where rs = rs]) (simp_all add: Some MatchRetained_all(1) [OF inv(2)])
  thus ?thesis using Some inv(1) by (simp add: rebuildRetainedExpirations_def exps_def Let_def)
qed (use assms in \<open>simp add: rebuildRetainedExpirations_def\<close>)

interpretation retained: run_frame retainedInv
  by unfold_locales ((rule retainedInv_handle retainedInv_cleanup retainedInv_rebuild, assumption) | (simp add: retainedInv_def cong: option.case_cong))+

section \<open>Runs\<close>

text \<open>The sweep looks at every topic whose recorded deadline has passed.\<close>

lemma cleanup_topic:
  "retainedInv b \<Longrightarrow> map_of (b_retainedExpirations (cleanupRetained now t b)) u =
     (if u = t \<and> b_retainedStore b \<noteq> None \<and> (\<exists>d < now. map_of (b_retainedExpirations b) t = Some d) then None
      else map_of (b_retainedExpirations b) u)"
  "b_retainedStore (cleanupRetained now t b) = None \<longleftrightarrow> b_retainedStore b = None"
  by (auto simp: cleanupRetained_def retainedInv_def split: option.split)

lemma cleanup_sweeps:
  "retainedInv b \<Longrightarrow> b_retainedStore b \<noteq> None \<Longrightarrow> map_of (b_retainedExpirations (fold (cleanupRetained now) ts b)) u =
     (if u \<in> set ts \<and> (\<exists>d < now. map_of (b_retainedExpirations b) u = Some d) then None
      else map_of (b_retainedExpirations b) u)"
proof (induction ts arbitrary: b)
  case (Cons t ts)
  thus ?case using Cons.IH [of "cleanupRetained now t b"] retainedInv_cleanup [of b now t]
    by (auto simp: cleanup_topic)
qed simp

lemma cleanup_deadlines:
  assumes "retainedInv b" "b_retainedStore b \<noteq> None"
    and got: "map_of (b_retainedExpirations (cleanupExpiredRetained now b)) u = Some d"
  shows "now \<le> d"
proof (rule ccontr)
  let ?ts = "map fst (filter (\<lambda>(topic, expiry). expiry < now) (b_retainedExpirations b))"
  have "cleanupExpiredRetained now b = fold (cleanupRetained now) ?ts b"
    using assms(2) by (auto simp: cleanupExpiredRetained_def)
  with got cleanup_sweeps [OF assms(1,2), of now ?ts u]
  have old: "map_of (b_retainedExpirations b) u = Some d" "\<not> (u \<in> set ?ts \<and> (\<exists>d < now. map_of (b_retainedExpirations b) u = Some d))"
    by (auto split: if_splits)
  assume "\<not> now \<le> d"
  moreover from this have "u \<in> set ?ts" using map_of_SomeD [OF old(1)] by force
  ultimately show False using old by auto
qed



end
